(* ===== verification/Prelude.thy ===== *)
theory Prelude
  imports Main "HOL-Library.Word" "HOL-Library.AList" "HOL-Library.List_Lexorder"
    "HOL-Library.Char_ord" "HOL-Library.Multiset"
begin

text \<open>
  What every component of the development shares: the Go values the sources use (errors and
  their wrapping, dynamically typed JSON values, instants, unsigned 64-bit integers, slice
  expressions with their bounds check), and the lemmas on lists, association lists and words
  that the component proofs rest on.

  Strings are Go strings: lists of bytes (\<open>char\<close> is an 8-bit byte), compared
  lexicographically byte by byte, which is what Go's string comparison does.
\<close>

named_theorems go_split \<open>case splits for results of the Go operations\<close>

section \<open>Instants and machine integers\<close>

text \<open>
  A \<open>time.Time\<close> is the number of nanoseconds since the zero time of the language
  (January 1, year 1, UTC), so that \<open>time.Time{}\<close> is 0 and \<open>IsZero\<close> is equality with 0.
\<close>

type_synonym gotime = int
type_synonym duration = int
type_synonym u64 = "64 word"

definition IsZero :: "gotime \<Rightarrow> bool" where
  "IsZero t \<longleftrightarrow> t = 0"

definition Second :: duration where
  "Second = 1000000000"

definition MaxUint64 :: u64 where
  "MaxUint64 = - 1"

text \<open>The conversion \<open>uint64(len(xs))\<close>.\<close>

definition u64_len :: "'a list \<Rightarrow> u64" where
  "u64_len xs = word_of_nat (length xs)"

section \<open>Errors\<close>

text \<open>
  The sentinel errors that the modelled code returns or compares against with
  \<open>errors.Is\<close>. An error is a sentinel, a fresh \<open>errors.New\<close>, a \<open>fmt.Errorf\<close> that wraps one
  error (the text before and after \<open>%w\<close>) or two (\<open>"%w: %w"\<close>), or the join of several. A
  runtime panic (a slice expression out of range, a negative length) is the value
  \<^term>\<open>GoPanic\<close>, so that no operation hides one.
\<close>

datatype sentinel =
    ErrNotFound | ErrEmptyKey | ErrInvalidData | ErrEntityExists | ErrInvalidValue | ErrConflict
  | ErrTaskNotFound | ErrPropletNotFound
  | ErrInvalidJobStatus | ErrInvalidStatus
  | ErrNoProplet | ErrDeadProplers
  | ErrCircularDependency | ErrMissingDependency
  | ErrInvalidCronExpression
  | errShuttingDown | ErrEmptyWorkflow | ErrWorkflowRequired | ErrInvalidRunIf
  | ErrValidation | ErrMissingName | ErrMissingID | ErrInvalidQueryParams | ErrLimitSize
  | ErrUnsupportedContentType
  | DeadlineExceeded | Canceled

datatype error =
    Sentinel sentinel
  | NewError string
  | Wrap string error string
  | Wrap2 error string error
  | JoinErr "error list"
  | GoPanic

fun sentinel_text :: "sentinel \<Rightarrow> string" where
  "sentinel_text ErrNotFound = ''not found''"
| "sentinel_text ErrEmptyKey = ''empty key''"
| "sentinel_text ErrInvalidData = ''invalid data type''"
| "sentinel_text ErrEntityExists = ''entity already exists''"
| "sentinel_text ErrInvalidValue = ''invalid value provided''"
| "sentinel_text ErrConflict = ''conflict''"
| "sentinel_text ErrTaskNotFound = ''task not found''"
| "sentinel_text ErrPropletNotFound = ''proplet not found''"
| "sentinel_text ErrInvalidJobStatus = ''invalid job status''"
| "sentinel_text ErrInvalidStatus = ''invalid proplet status''"
| "sentinel_text ErrNoProplet = ''no proplet was provided''"
| "sentinel_text ErrDeadProplers = ''all proplets are dead''"
| "sentinel_text ErrCircularDependency = ''circular dependency detected''"
| "sentinel_text ErrMissingDependency = ''dependency task not found''"
| "sentinel_text ErrInvalidCronExpression = ''invalid cron expression''"
| "sentinel_text errShuttingDown = ''service is shutting down''"
| "sentinel_text ErrEmptyWorkflow = ''workflow must contain at least one task''"
| "sentinel_text ErrWorkflowRequired = ''workflow_id is required when depends_on is specified''"
| "sentinel_text ErrInvalidRunIf = ''invalid run_if value''"
| "sentinel_text ErrValidation = ''something went wrong with the request''"
| "sentinel_text ErrMissingName = ''missing identity name''"
| "sentinel_text ErrMissingID = ''missing entity id''"
| "sentinel_text ErrInvalidQueryParams = ''invalid query parameters''"
| "sentinel_text ErrLimitSize = ''invalid limit size''"
| "sentinel_text ErrUnsupportedContentType = ''unsupported content type''"
| "sentinel_text DeadlineExceeded = ''context deadline exceeded''"
| "sentinel_text Canceled = ''context canceled''"

text \<open>\<open>err.Error()\<close>; \<open>errors.Join\<close> puts a newline between the texts.\<close>

fun intersperse_nl :: "string list \<Rightarrow> string" where
  "intersperse_nl [] = []"
| "intersperse_nl [x] = x"
| "intersperse_nl (x # y # ys) = x @ [CHR 0x0A] @ intersperse_nl (y # ys)"

fun error_text :: "error \<Rightarrow> string" where
  "error_text (Sentinel s) = sentinel_text s"
| "error_text (NewError s) = s"
| "error_text (Wrap pre e post) = pre @ error_text e @ post"
| "error_text (Wrap2 e sep e') = error_text e @ sep @ error_text e'"
| "error_text (JoinErr es) = intersperse_nl (map error_text es)"
| "error_text GoPanic = ''panic''"

text \<open>\<open>errors.Is(err, target)\<close> for a sentinel target: the wrapping tree is searched.\<close>

fun errors_Is :: "error \<Rightarrow> sentinel \<Rightarrow> bool" where
  "errors_Is (Sentinel s) t = (s = t)"
| "errors_Is (NewError _) t = False"
| "errors_Is (Wrap _ e _) t = errors_Is e t"
| "errors_Is (Wrap2 e _ e') t = (errors_Is e t \<or> errors_Is e' t)"
| "errors_Is (JoinErr es) t = list_ex (\<lambda>e. errors_Is e t) es"
| "errors_Is GoPanic t = False"

type_synonym 'a result = "error + 'a"

abbreviation Ok :: "'a \<Rightarrow> 'a result" where "Ok \<equiv> Inr"
abbreviation Err :: "error \<Rightarrow> 'a result" where "Err \<equiv> Inl"

section \<open>Dynamically typed values\<close>

text \<open>
  Values of type \<open>any\<close> as the JSON decoder and the handlers see them. A float64 is its 64-bit
  IEEE pattern, a signed integer its two's complement pattern. A \<open>map[string]any\<close> is an
  association list whose first entry for a key is its value.
\<close>

datatype any =
    ANil
  | ABool bool
  | AString string
  | AFloat64 u64
  | AInt u64
  | AInt64 u64
  | AUint u64
  | AUint64 u64
  | ASlice "any list"
  | AStrSlice "string list"
  | AMap "(string \<times> any) list"

type_synonym anymap = "(string \<times> any) list"

text \<open>The type assertions \<open>v.(string)\<close>, \<open>v.(map[string]any)\<close> and \<open>v.([]any)\<close> on a lookup.\<close>

definition as_string :: "any option \<Rightarrow> string option" where
  "as_string v = (case v of Some (AString s) \<Rightarrow> Some s | _ \<Rightarrow> None)"

definition as_map :: "any option \<Rightarrow> anymap option" where
  "as_map v = (case v of Some (AMap m) \<Rightarrow> Some m | _ \<Rightarrow> None)"

definition as_slice :: "any option \<Rightarrow> any list option" where
  "as_slice v = (case v of Some (ASlice xs) \<Rightarrow> Some xs | _ \<Rightarrow> None)"

definition as_float64 :: "any option \<Rightarrow> u64 option" where
  "as_float64 v = (case v of Some (AFloat64 f) \<Rightarrow> Some f | _ \<Rightarrow> None)"

section \<open>Decimal printing\<close>

fun digit_char :: "nat \<Rightarrow> char" where
  "digit_char d = char_of (48 + d)"

fun show_nat :: "nat \<Rightarrow> string" where
  "show_nat n = (if n < 10 then [digit_char n] else show_nat (n div 10) @ [digit_char (n mod 10)])"

declare show_nat.simps [simp del]

definition show_int :: "int \<Rightarrow> string" where
  "show_int i = (if i < 0 then ''-'' @ show_nat (nat (- i)) else show_nat (nat i))"

section \<open>Slices\<close>

text \<open>The slice expression \<open>xs[lo:hi]\<close> with unsigned bounds; out of range it panics.\<close>

definition slice_u64 :: "'a list \<Rightarrow> u64 \<Rightarrow> u64 \<Rightarrow> 'a list result" where
  "slice_u64 xs lo hi =
     (if lo \<le> hi \<and> unat hi \<le> length xs
      then Ok (take (unat hi - unat lo) (drop (unat lo) xs)) else Err GoPanic)"

text \<open>A nil slice or map is \<^const>\<open>None\<close>; ranging over it visits nothing.\<close>

definition nil_list :: "'a list option \<Rightarrow> 'a list" where
  "nil_list x = (case x of None \<Rightarrow> [] | Some xs \<Rightarrow> xs)"

lemma nil_list_simps [simp]: "nil_list None = []" "nil_list (Some xs) = xs"
  by (simp_all add: nil_list_def)

section \<open>Lemmas on words\<close>

lemma unat_u64_len [simp]: "length xs < 2 ^ 64 \<Longrightarrow> unat (u64_len xs) = length xs"
  by (simp add: u64_len_def unat_of_nat take_bit_nat_eq_self)

lemma unat_u64_less: "unat (x :: u64) < 2 ^ 64"
proof -
  have "unat x < 2 ^ LENGTH(64)" by (rule unsigned_less)
  then show ?thesis by simp
qed

lemma unat_add_no_wrap:
  fixes a b :: u64
  shows "unat a + unat b < 2 ^ 64 \<Longrightarrow> unat (a + b) = unat a + unat b"
  by (simp add: unat_word_ariths)

lemma unat_min: "unat (min a b) = min (unat a) (unat b)"
  by (simp add: min_def word_le_nat_alt)

lemma slice_page:
  assumes len: "length xs < 2 ^ 64" and no_wrap: "unat off + unat lim < 2 ^ 64"
    and inside: "off < u64_len xs"
  shows "slice_u64 xs off (min (off + lim) (u64_len xs)) = Ok (take (unat lim) (drop (unat off) xs))"
proof -
  have off: "unat off < length xs"
    using inside len by (simp add: word_less_nat_alt)
  have hi: "unat (min (off + lim) (u64_len xs)) = min (unat off + unat lim) (length xs)"
    using len no_wrap by (simp add: unat_min unat_add_no_wrap)
  have "take (min (unat off + unat lim) (length xs) - unat off) (drop (unat off) xs)
      = take (unat lim) (drop (unat off) xs)"
    by (simp add: min_def)
  then show ?thesis
    using off hi by (simp add: slice_u64_def word_le_nat_alt)
qed

section \<open>Lemmas on lists\<close>

lemma take_drop_page_append:
  "take n (drop i xs) @ drop (i + n) xs = drop i xs"
  by (metis add.commute append_take_drop_id drop_drop)

lemma length_filter_pos: "x \<in> set xs \<Longrightarrow> P x \<Longrightarrow> 0 < length (filter P xs)"
  by (metis filter_empty_conv length_greater_0_conv)

lemma sum_list_map_if:
  "sum_list (map (\<lambda>x. if P x then (1::nat) else 0) xs) = length (filter P xs)"
  by (induction xs) auto

end
