(* ===== verification/Task.thy ===== *)
theory Task
  imports Prelude
begin

text \<open>
  The data model of \<^verbatim>\<open>pkg/task/task.go\<close> and \<^verbatim>\<open>pkg/job/job.go\<close>: task states and job statuses
  with their printing and parsing, the task record field for field, the reserved metadata
  sub-map, and the JSON decoding of \<open>FlexStrings\<close>.
\<close>

section \<open>States\<close>

text \<open>
  \<open>State\<close> is a \<open>uint8\<close>: seven named values and whatever else a request or a stored row may
  carry (\<open>OtherState\<close>, a value of 7 or more).
\<close>

datatype State =
    Pending | Scheduled | Running | Completed | Failed | Skipped | Interrupted
  | OtherState "8 word"

definition State_of_uint8 :: "8 word \<Rightarrow> State" where
  "State_of_uint8 b =
     (if b = 0 then Pending else if b = 1 then Scheduled else if b = 2 then Running
      else if b = 3 then Completed else if b = 4 then Failed else if b = 5 then Skipped
      else if b = 6 then Interrupted else OtherState b)"

fun uint8_of_State :: "State \<Rightarrow> 8 word" where
  "uint8_of_State Pending = 0"
| "uint8_of_State Scheduled = 1"
| "uint8_of_State Running = 2"
| "uint8_of_State Completed = 3"
| "uint8_of_State Failed = 4"
| "uint8_of_State Skipped = 5"
| "uint8_of_State Interrupted = 6"
| "uint8_of_State (OtherState b) = b"

definition IsTerminal :: "State \<Rightarrow> bool" where
  "IsTerminal s \<longleftrightarrow> s = Completed \<or> s = Failed \<or> s = Skipped \<or> s = Interrupted"

fun State_String :: "State \<Rightarrow> string" where
  "State_String Pending = ''Pending''"
| "State_String Scheduled = ''Scheduled''"
| "State_String Running = ''Running''"
| "State_String Completed = ''Completed''"
| "State_String Failed = ''Failed''"
| "State_String Skipped = ''Skipped''"
| "State_String Interrupted = ''Interrupted''"
| "State_String (OtherState _) = ''Unknown''"

section \<open>Job statuses\<close>

datatype JobStatus =
    PendingStatus | RunningStatus | CompletedStatus | FailedStatus | OtherStatus "8 word"

fun JobStatus_String :: "JobStatus \<Rightarrow> string" where
  "JobStatus_String PendingStatus = ''pending''"
| "JobStatus_String RunningStatus = ''running''"
| "JobStatus_String CompletedStatus = ''completed''"
| "JobStatus_String FailedStatus = ''failed''"
| "JobStatus_String (OtherStatus _) = ''unknown''"

definition ToJobStatus :: "string \<Rightarrow> JobStatus result" where
  "ToJobStatus status =
     (if status = ''pending'' then Ok PendingStatus
      else if status = ''running'' then Ok RunningStatus
      else if status = ''completed'' then Ok CompletedStatus
      else if status = ''failed'' then Ok FailedStatus
      else Err (Sentinel ErrInvalidJobStatus))"

fun JobStatus_State :: "JobStatus \<Rightarrow> State" where
  "JobStatus_State PendingStatus = Pending"
| "JobStatus_State RunningStatus = Running"
| "JobStatus_State CompletedStatus = Completed"
| "JobStatus_State FailedStatus = Failed"
| "JobStatus_State (OtherStatus _) = Pending"

section \<open>Tasks and jobs\<close>

type_synonym Mode = string
type_synonym TaskKind = string

definition TaskKindStandard :: TaskKind where "TaskKindStandard = ''standard''"
definition RunIfSuccess :: string where "RunIfSuccess = ''success''"
definition RunIfFailure :: string where "RunIfFailure = ''failure''"

definition MetadataElasticKey :: string where "MetadataElasticKey = ''elastic''"
definition ElasticWasiSecurity :: string where "ElasticWasiSecurity = ''wasi_security''"
definition ElasticWasiPEP :: string where "ElasticWasiPEP = ''wasi_pep''"

definition ElasticKeys :: "string list" where
  "ElasticKeys = [ElasticWasiSecurity, ElasticWasiPEP]"

record MonitoringProfile =
  mp_Enabled :: bool
  mp_Interval :: duration
  mp_CollectCPU :: bool
  mp_CollectMemory :: bool
  mp_CollectDiskIO :: bool
  mp_CollectThreads :: bool
  mp_CollectFileDescriptors :: bool
  mp_ExportToMQTT :: bool
  mp_RetainHistory :: bool
  mp_HistorySize :: int

text \<open>
  The task struct. Where the code tells a nil slice or map from an empty one (\<open>File\<close>,
  \<open>Inputs\<close>, \<open>Env\<close>, \<open>Metadata\<close>) the field is an option with \<^const>\<open>None\<close> for nil.
\<close>

record Task =
  t_ID :: string
  t_Name :: string
  t_Kind :: TaskKind
  t_State :: State
  t_ImageURL :: string
  t_File :: "8 word list option"
  t_CLIArgs :: "string list"
  t_Inputs :: "string list option"
  t_Env :: "(string \<times> string) list option"
  t_Daemon :: bool
  t_Latent :: bool
  t_Encrypted :: bool
  t_KBSResourcePath :: string
  t_PropletID :: string
  t_DependsOn :: "string list"
  t_RunIf :: string
  t_WorkflowID :: string
  t_JobID :: string
  t_Results :: any
  t_Error :: string
  t_MonitoringProfile :: "MonitoringProfile option"
  t_StartTime :: gotime
  t_FinishTime :: gotime
  t_CreatedAt :: gotime
  t_UpdatedAt :: gotime
  t_Mode :: Mode
  t_Schedule :: string
  t_NextRun :: gotime
  t_IsRecurring :: bool
  t_Timezone :: string
  t_Broadcast :: bool
  t_Priority :: int
  t_Metadata :: "anymap option"
  t_HalStoragePath :: "string option"

text \<open>The zero value \<open>task.Task{}\<close>.\<close>

definition Task_zero :: Task where
  "Task_zero = \<lparr>t_ID = [], t_Name = [], t_Kind = [], t_State = Pending, t_ImageURL = [],
     t_File = None, t_CLIArgs = [], t_Inputs = None, t_Env = None, t_Daemon = False,
     t_Latent = False, t_Encrypted = False, t_KBSResourcePath = [], t_PropletID = [],
     t_DependsOn = [], t_RunIf = [], t_WorkflowID = [], t_JobID = [], t_Results = ANil,
     t_Error = [], t_MonitoringProfile = None, t_StartTime = 0, t_FinishTime = 0,
     t_CreatedAt = 0, t_UpdatedAt = 0, t_Mode = [], t_Schedule = [], t_NextRun = 0,
     t_IsRecurring = False, t_Timezone = [], t_Broadcast = False, t_Priority = 0,
     t_Metadata = None, t_HalStoragePath = None\<rparr>"

definition ElasticConfig :: "Task \<Rightarrow> anymap option" where
  "ElasticConfig t = as_map (map_of (nil_list (t_Metadata t)) MetadataElasticKey)"

record Job =
  j_ID :: string
  j_Name :: string
  j_ExecutionMode :: string
  j_CreatedAt :: gotime
  j_UpdatedAt :: gotime

record TaskPage =
  tp_Offset :: u64
  tp_Limit :: u64
  tp_Total :: u64
  tp_Tasks :: "Task list"

section \<open>FlexStrings\<close>

text \<open>
  The elements of the decoded JSON array: strings are taken as they are, numbers by their
  literal text, anything else is an error that names its index. \<open>null\<close> decodes to the zero
  value of a string.
\<close>

datatype json_raw = RawString string | RawNumber string | RawNull | RawOther

fun FlexStrings_from :: "nat \<Rightarrow> json_raw list \<Rightarrow> string list result" where
  "FlexStrings_from i [] = Ok []"
| "FlexStrings_from i (r # rs) =
     (case r of
        RawOther \<Rightarrow>
          Err (NewError (''inputs['' @ show_nat i @ '']: expected string or number''))
      | RawString s \<Rightarrow> map_sum id ((#) s) (FlexStrings_from (Suc i) rs)
      | RawNull \<Rightarrow> map_sum id ((#) []) (FlexStrings_from (Suc i) rs)
      | RawNumber n \<Rightarrow> map_sum id ((#) n) (FlexStrings_from (Suc i) rs))"

definition FlexStrings_UnmarshalJSON :: "json_raw list \<Rightarrow> string list result" where
  "FlexStrings_UnmarshalJSON raw = FlexStrings_from 0 raw"

section \<open>Lemmas\<close>

lemma IsTerminal_simps [simp]:
  "IsTerminal Completed" "IsTerminal Failed" "IsTerminal Skipped" "IsTerminal Interrupted"
  "\<not> IsTerminal Pending" "\<not> IsTerminal Scheduled" "\<not> IsTerminal Running"
  "\<not> IsTerminal (OtherState b)"
  by (simp_all add: IsTerminal_def)

lemma State_of_uint8_inverse: "State_of_uint8 (uint8_of_State (State_of_uint8 b)) = State_of_uint8 b"
  by (simp add: State_of_uint8_def)

lemma uint8_of_State_of_uint8 [simp]: "uint8_of_State (State_of_uint8 b) = b"
  by (simp add: State_of_uint8_def)

lemma ToJobStatus_Ok_iff:
  "ToJobStatus str = Ok s \<longleftrightarrow> JobStatus_String s = str \<and> (\<forall>b. s \<noteq> OtherStatus b)"
  by (cases s) (auto simp: ToJobStatus_def split: if_splits)

lemma FlexStrings_from_ok:
  "RawOther \<notin> set raw \<Longrightarrow> \<exists>xs. FlexStrings_from i raw = Ok xs \<and> length xs = length raw"
proof (induction raw arbitrary: i)
  case (Cons r rs)
  then obtain ys where "FlexStrings_from (Suc i) rs = Ok ys" "length ys = length rs"
    by fastforce
  with Cons.prems show ?case by (cases r) auto
qed simp

end
