(* ===== verification/Proplet.thy ===== *)
theory Proplet
  imports Prelude
begin

text \<open>
  Worker nodes as the manager sees them: \<^verbatim>\<open>pkg/proplet/proplet.go\<close>. A proplet is alive when its
  last heartbeat is at most \<open>AliveTimeout\<close> old.
\<close>

datatype Status = ActiveStatus | InactiveStatus | OtherPropletStatus "8 word"

definition AliveTimeout :: duration where
  "AliveTimeout = 10 * Second"

fun Status_String :: "Status \<Rightarrow> string" where
  "Status_String ActiveStatus = ''active''"
| "Status_String InactiveStatus = ''inactive''"
| "Status_String (OtherPropletStatus _) = ''unknown''"

definition ToStatus :: "string \<Rightarrow> Status result" where
  "ToStatus status =
     (if status = ''active'' then Ok ActiveStatus
      else if status = ''inactive'' then Ok InactiveStatus
      else Err (Sentinel ErrInvalidStatus))"

record PropletMetadata =
  pm_Description :: string
  pm_Tags :: "string list"
  pm_Location :: string
  pm_IP :: string
  pm_Environment :: string
  pm_OS :: string
  pm_Hostname :: string
  pm_CPUArch :: string
  pm_TotalMemoryBytes :: u64
  pm_PropletVersion :: string
  pm_WasmRuntime :: string

definition PropletMetadata_zero :: PropletMetadata where
  "PropletMetadata_zero = \<lparr>pm_Description = [], pm_Tags = [], pm_Location = [], pm_IP = [],
     pm_Environment = [], pm_OS = [], pm_Hostname = [], pm_CPUArch = [],
     pm_TotalMemoryBytes = 0, pm_PropletVersion = [], pm_WasmRuntime = []\<rparr>"

record Proplet =
  p_ID :: string
  p_Name :: string
  p_TaskCount :: u64
  p_Alive :: bool
  p_AliveHistory :: "gotime list"
  p_Metadata :: PropletMetadata

definition Proplet_zero :: Proplet where
  "Proplet_zero = \<lparr>p_ID = [], p_Name = [], p_TaskCount = 0, p_Alive = False,
     p_AliveHistory = [], p_Metadata = PropletMetadata_zero\<rparr>"

text \<open>\<open>SetAlive\<close> at the instant \<open>now\<close>: \<open>time.Since(lastAlive) <= AliveTimeout\<close>.\<close>

definition SetAlive :: "gotime \<Rightarrow> Proplet \<Rightarrow> Proplet" where
  "SetAlive now p =
     (if p_AliveHistory p \<noteq> [] \<and> now - last (p_AliveHistory p) \<le> AliveTimeout
      then p\<lparr>p_Alive := True\<rparr> else p\<lparr>p_Alive := False\<rparr>)"

record PropletPage =
  pp_Offset :: u64
  pp_Limit :: u64
  pp_Total :: u64
  pp_Proplets :: "Proplet list"

record PropletView =
  v_ID :: string
  v_Name :: string
  v_TaskCount :: u64
  v_Alive :: bool
  v_LastAliveAt :: "gotime option"
  v_Metadata :: PropletMetadata

definition Proplet_View :: "Proplet \<Rightarrow> PropletView" where
  "Proplet_View p =
     \<lparr>v_ID = p_ID p, v_Name = p_Name p, v_TaskCount = p_TaskCount p, v_Alive = p_Alive p,
      v_LastAliveAt = (if p_AliveHistory p = [] then None else Some (last (p_AliveHistory p))),
      v_Metadata = p_Metadata p\<rparr>"

record PropletPageView =
  pv_Offset :: u64
  pv_Limit :: u64
  pv_Total :: u64
  pv_Proplets :: "PropletView list"

definition PropletPage_View :: "PropletPage \<Rightarrow> PropletPageView" where
  "PropletPage_View pp =
     \<lparr>pv_Offset = pp_Offset pp, pv_Limit = pp_Limit pp, pv_Total = pp_Total pp,
      pv_Proplets = map Proplet_View (pp_Proplets pp)\<rparr>"

record PropletAliveHistoryPage =
  ah_Offset :: u64
  ah_Limit :: u64
  ah_Total :: u64
  ah_History :: "gotime list"

record ChunkPayload =
  c_AppName :: string
  c_ChunkIdx :: int
  c_TotalChunks :: int
  c_Data :: "8 word list"

section \<open>Lemmas\<close>

lemma SetAlive_frame [simp]:
  "p_ID (SetAlive now p) = p_ID p"
  "p_Name (SetAlive now p) = p_Name p"
  "p_TaskCount (SetAlive now p) = p_TaskCount p"
  "p_AliveHistory (SetAlive now p) = p_AliveHistory p"
  "p_Metadata (SetAlive now p) = p_Metadata p"
  by (simp_all add: SetAlive_def)

lemma p_Alive_SetAlive:
  "p_Alive (SetAlive now p) \<longleftrightarrow>
     p_AliveHistory p \<noteq> [] \<and> now - last (p_AliveHistory p) \<le> AliveTimeout"
  by (simp add: SetAlive_def)

lemma SetAlive_SetAlive [simp]: "SetAlive now (SetAlive now' p) = SetAlive now p"
  by (simp add: SetAlive_def)

lemma ToStatus_Ok_iff:
  "ToStatus str = Ok s \<longleftrightarrow> Status_String s = str \<and> (\<forall>b. s \<noteq> OtherPropletStatus b)"
  by (cases s) (auto simp: ToStatus_def split: if_splits)

end
