(* ===== verification/GoSort.thy ===== *)
theory GoSort
  imports Prelude "HOL-Library.Product_Lexorder"
begin

text \<open>
  \<open>slices.SortFunc\<close> of the standard library, as the insertion sort it runs on short slices:
  each element moves left past its neighbours while the comparison function is negative. On
  longer slices the library may order elements that compare equal differently; every result
  below that does not mention the order of equal elements is independent of that.

  The interface between a comparison function and the sort is the locale \<open>cmp_by_key\<close>: a
  client states the key its comparison function orders by and obtains that the sort is the
  stable sort by that key.
\<close>

fun insert_left :: "('a \<Rightarrow> 'a \<Rightarrow> int) \<Rightarrow> 'a \<Rightarrow> 'a list \<Rightarrow> 'a list" where
  "insert_left cmp x [] = [x]"
| "insert_left cmp x (y # ys) = (if cmp x y < 0 then y # insert_left cmp x ys else x # y # ys)"

text \<open>The sorted prefix is kept with its right end first.\<close>

definition slices_SortFunc :: "('a \<Rightarrow> 'a \<Rightarrow> int) \<Rightarrow> 'a list \<Rightarrow> 'a list" where
  "slices_SortFunc cmp xs = rev (fold (insert_left cmp) xs [])"

lemma mset_insert_left [simp]: "mset (insert_left cmp x ys) = add_mset x (mset ys)"
  by (induction ys) auto

lemma set_insert_left [simp]: "set (insert_left cmp x ys) = insert x (set ys)"
  by (induction ys) auto

lemma mset_fold_insert_left: "mset (fold (insert_left cmp) xs acc) = mset xs + mset acc"
  by (induction xs arbitrary: acc) auto

lemma mset_slices_SortFunc [simp]: "mset (slices_SortFunc cmp xs) = mset xs"
  by (simp add: slices_SortFunc_def mset_fold_insert_left)

lemma set_slices_SortFunc [simp]: "set (slices_SortFunc cmp xs) = set xs"
  by (metis mset_slices_SortFunc set_mset_mset)

lemma length_slices_SortFunc [simp]: "length (slices_SortFunc cmp xs) = length xs"
  by (metis mset_slices_SortFunc size_mset)

locale cmp_by_key =
  fixes cmp :: "'a \<Rightarrow> 'a \<Rightarrow> int" and key :: "'a \<Rightarrow> 'k::linorder"
  assumes cmp_less: "cmp a b < 0 \<longleftrightarrow> key a < key b"
begin

lemma sorted_insert_left:
  "sorted (map key (rev ys)) \<Longrightarrow> sorted (map key (rev (insert_left cmp x ys)))"
proof (induction ys)
  case (Cons y ys)
  then show ?case by (auto simp: cmp_less sorted_append)
qed simp

lemma filter_insert_left:
  "sorted (map key (rev ys)) \<Longrightarrow>
   filter (\<lambda>z. key z = k) (insert_left cmp x ys)
     = (if key x = k then x # filter (\<lambda>z. key z = k) ys else filter (\<lambda>z. key z = k) ys)"
  by (induction ys) (auto simp: cmp_less sorted_append)

lemma fold_insert_left_sorted:
  "sorted (map key (rev acc)) \<Longrightarrow> sorted (map key (rev (fold (insert_left cmp) xs acc)))"
  by (induction xs arbitrary: acc) (auto intro: sorted_insert_left)

lemma fold_insert_left_stable:
  "sorted (map key (rev acc)) \<Longrightarrow>
   filter (\<lambda>z. key z = k) (fold (insert_left cmp) xs acc)
     = rev (filter (\<lambda>z. key z = k) xs) @ filter (\<lambda>z. key z = k) acc"
proof (induction xs arbitrary: acc)
  case (Cons x xs)
  then show ?case
    using Cons.IH [OF sorted_insert_left [OF Cons.prems], of x] by (simp add: filter_insert_left)
qed simp

lemma sort_sorted: "sorted (map key (slices_SortFunc cmp xs))"
  by (simp add: slices_SortFunc_def fold_insert_left_sorted)

lemma sort_is_sort_key: "slices_SortFunc cmp xs = sort_key key xs"
proof (rule properties_for_sort_key [symmetric])
  show "mset (slices_SortFunc cmp xs) = mset xs" by simp
  fix k assume "k \<in> set (slices_SortFunc cmp xs)"
  have "filter (\<lambda>x. key x = key k) (slices_SortFunc cmp xs) = filter (\<lambda>x. key x = key k) xs"
    by (simp add: slices_SortFunc_def rev_filter [symmetric] fold_insert_left_stable)
  then show "filter (\<lambda>x. key k = key x) (slices_SortFunc cmp xs) = filter (\<lambda>x. key k = key x) xs"
    by (simp add: eq_commute)
next
  show "sorted (map key (slices_SortFunc cmp xs))" by (rule sort_sorted)
qed

text \<open>An element that the comparison puts strictly before another comes earlier.\<close>

lemma sort_order:
  assumes "i < j" "j < length xs"
  shows "\<not> cmp (slices_SortFunc cmp xs ! j) (slices_SortFunc cmp xs ! i) < 0"
proof -
  have "key (slices_SortFunc cmp xs ! i) \<le> key (slices_SortFunc cmp xs ! j)"
    using sorted_nth_mono [OF sort_sorted, of i j xs] assms by simp
  then show ?thesis by (simp add: cmp_less not_less)
qed

end

end
