(* ===== verification/Scheduler.thy ===== *)
theory Scheduler
  imports Task Proplet GoSort
begin

text \<open>
  \<^verbatim>\<open>pkg/scheduler\<close>: the round-robin choice of a proplet and the priority order of due tasks.
  The contract a client of the \<open>Scheduler\<close> interface relies on is the locale
  \<open>proplet_scheduler\<close>; the round-robin scheduler is shown to satisfy it.
\<close>

section \<open>Round robin\<close>

text \<open>
  \<open>roundRobin\<close> keeps one field, \<open>LastProplet\<close>. The loop makes at most one turn over the
  proplets; each step advances \<open>LastProplet\<close> and stops at a proplet that is alive.
\<close>

record roundRobin =
  LastProplet :: nat

definition NewRoundRobin :: roundRobin where
  "NewRoundRobin = \<lparr>LastProplet = 0\<rparr>"

fun rr_turn :: "nat \<Rightarrow> Proplet list \<Rightarrow> roundRobin \<Rightarrow> Proplet result \<times> roundRobin" where
  "rr_turn 0 proplets r = (Err (Sentinel ErrDeadProplers), r)"
| "rr_turn (Suc k) proplets r =
     (let r = r\<lparr>LastProplet := (LastProplet r + 1) mod length proplets\<rparr>
      in if p_Alive (proplets ! LastProplet r) then (Ok (proplets ! LastProplet r), r)
         else rr_turn k proplets r)"

definition SelectProplet ::
    "Task \<Rightarrow> Proplet list \<Rightarrow> roundRobin \<Rightarrow> Proplet result \<times> roundRobin" where
  "SelectProplet t proplets r =
     (if proplets = [] then (Err (Sentinel ErrNoProplet), r)
      else let alive = length (filter p_Alive proplets)
           in if alive = 0 then (Err (Sentinel ErrDeadProplers), r)
              else rr_turn (length proplets) proplets r)"

text \<open>Successive calls on the same proplets: the list of the proplets chosen.\<close>

fun SelectProplet_calls :: "nat \<Rightarrow> Task \<Rightarrow> Proplet list \<Rightarrow> roundRobin \<Rightarrow> Proplet result list" where
  "SelectProplet_calls 0 t proplets r = []"
| "SelectProplet_calls (Suc n) t proplets r =
     (case SelectProplet t proplets r of (p, r') \<Rightarrow> p # SelectProplet_calls n t proplets r')"

section \<open>Priorities\<close>

definition defaultPriority :: int where
  "defaultPriority = 50"

definition effective_priority :: "Task \<Rightarrow> int" where
  "effective_priority t = (if t_Priority t = 0 then defaultPriority else t_Priority t)"

definition priority_cmp :: "Task \<Rightarrow> Task \<Rightarrow> int" where
  "priority_cmp a b =
     (let pa = effective_priority a; pb = effective_priority b
      in if pa \<noteq> pb then (if pa > pb then -1 else 1)
         else if t_CreatedAt a < t_CreatedAt b then -1
         else if t_CreatedAt a > t_CreatedAt b then 1
         else 0)"

definition GetReadyTasksByPriority :: "Task list \<Rightarrow> Task list" where
  "GetReadyTasksByPriority tasks = slices_SortFunc priority_cmp tasks"

section \<open>The scheduler contract\<close>

locale proplet_scheduler =
  fixes select :: "Task \<Rightarrow> Proplet list \<Rightarrow> 's \<Rightarrow> Proplet result \<times> 's"
  assumes select_alive: "select t ps s = (Ok p, s') \<Longrightarrow> p \<in> set ps \<and> p_Alive p"
    and select_none: "ps = [] \<Longrightarrow> select t ps s = (Err (Sentinel ErrNoProplet), s)"
    and select_dead: "ps \<noteq> [] \<Longrightarrow> \<forall>p\<in>set ps. \<not> p_Alive p \<Longrightarrow>
      select t ps s = (Err (Sentinel ErrDeadProplers), s)"
    and select_some: "p \<in> set ps \<Longrightarrow> p_Alive p \<Longrightarrow> \<exists>q s'. select t ps s = (Ok q, s')"
begin

lemma select_iff:
  "(\<exists>q s'. select t ps s = (Ok q, s')) \<longleftrightarrow> (\<exists>p\<in>set ps. p_Alive p)"
  using select_alive select_some by blast

lemma select_err_unchanged:
  assumes "select t ps s = (Err e, s')"
  shows "s' = s \<and> (\<forall>p\<in>set ps. \<not> p_Alive p)"
proof -
  have dead: "\<forall>p\<in>set ps. \<not> p_Alive p"
    using assms select_some by (metis Inr_not_Inl prod.inject)
  moreover have "s' = s"
    using assms select_none [of ps] select_dead [of ps] dead by (cases "ps = []") auto
  ultimately show ?thesis by simp
qed

end

section \<open>Round robin meets the contract\<close>

lemma rr_turn_result:
  assumes "proplets \<noteq> []"
  shows "case rr_turn k proplets r of
     (Ok p, r') \<Rightarrow> \<exists>s. 1 \<le> s \<and> s \<le> k \<and> LastProplet r' = (LastProplet r + s) mod length proplets
        \<and> p = proplets ! LastProplet r' \<and> p_Alive p
        \<and> (\<forall>i. 1 \<le> i \<and> i < s \<longrightarrow> \<not> p_Alive (proplets ! ((LastProplet r + i) mod length proplets)))
   | (Err e, r') \<Rightarrow> e = Sentinel ErrDeadProplers
        \<and> (\<forall>i. 1 \<le> i \<and> i \<le> k \<longrightarrow> \<not> p_Alive (proplets ! ((LastProplet r + i) mod length proplets)))"
proof (induction k arbitrary: r)
  case 0
  then show ?case by simp
next
  case (Suc k)
  define r1 where "r1 = r\<lparr>LastProplet := (LastProplet r + 1) mod length proplets\<rparr>"
  have shift: "(LastProplet r1 + i) mod length proplets = (LastProplet r + Suc i) mod length proplets"
    for i by (simp add: r1_def mod_simps)
  have l1: "LastProplet r1 = (LastProplet r + 1) mod length proplets"
    by (simp add: r1_def)
  show ?case
  proof (cases "p_Alive (proplets ! LastProplet r1)")
    case True
    then show ?thesis
      using l1 by (auto simp: r1_def Let_def intro!: exI [of _ 1])
  next
    case False
    then have step: "rr_turn (Suc k) proplets r = rr_turn k proplets r1"
      by (simp add: r1_def Let_def)
    obtain res r' where run: "rr_turn k proplets r1 = (res, r')"
      by (cases "rr_turn k proplets r1")
    have first_dead: "\<not> p_Alive (proplets ! ((LastProplet r + 1) mod length proplets))"
      using False l1 by simp
    show ?thesis
    proof (cases res)
      case (Inl e)
      have "\<not> p_Alive (proplets ! ((LastProplet r + i) mod length proplets))"
        if "1 \<le> i" "i \<le> Suc k" for i
        using that Suc [of r1] run Inl shift [of "i - 1"] first_dead
        by (cases "i = 1") (auto dest!: spec [of _ "i - 1"])
      then show ?thesis
        using step run Inl Suc [of r1] by simp
    next
      case (Inr p)
      then obtain s where s: "1 \<le> s" "s \<le> k"
          "LastProplet r' = (LastProplet r1 + s) mod length proplets"
          "p = proplets ! LastProplet r'" "p_Alive p"
          "\<forall>i. 1 \<le> i \<and> i < s \<longrightarrow> \<not> p_Alive (proplets ! ((LastProplet r1 + i) mod length proplets))"
        using Suc [of r1] run by auto
      have "\<not> p_Alive (proplets ! ((LastProplet r + i) mod length proplets))"
        if "1 \<le> i" "i < Suc s" for i
        using that s(6) shift [of "i - 1"] first_dead
        by (cases "i = 1") (auto dest!: spec [of _ "i - 1"])
      then show ?thesis
        using step run Inr s shift [of s] by (auto intro!: exI [of _ "Suc s"])
    qed
  qed
qed

text \<open>Every index is reached in one turn.\<close>

lemma cyclic_distance:
  fixes n last j :: nat
  assumes "j < n"
  shows "\<exists>d. 1 \<le> d \<and> d \<le> n \<and> (last + d) mod n = j"
proof -
  define l where "l = last mod n"
  have l: "l < n" using assms by (simp add: l_def)
  have red: "(last + d) mod n = (l + d) mod n" for d
    by (simp add: l_def mod_simps)
  show ?thesis
  proof (cases "l < j")
    case True
    then have "(last + (j - l)) mod n = j" using assms by (simp only: red) simp
    with True assms show ?thesis by (intro exI [of _ "j - l"] conjI) simp_all
  next
    case False
    have "(last + (n + j - l)) mod n = j" using False l assms by (simp only: red) simp
    with False l assms show ?thesis by (intro exI [of _ "n + j - l"] conjI) simp_all
  qed
qed

lemma SelectProplet_alive_first:
  assumes j: "j < length proplets" and alive: "p_Alive (proplets ! j)"
  obtains s r' where "1 \<le> s" "s \<le> length proplets"
    "SelectProplet t proplets r = (Ok (proplets ! LastProplet r'), r')"
    "LastProplet r' = (LastProplet r + s) mod length proplets"
    "p_Alive (proplets ! LastProplet r')"
    "\<forall>i. 1 \<le> i \<and> i < s \<longrightarrow> \<not> p_Alive (proplets ! ((LastProplet r + i) mod length proplets))"
proof -
  let ?n = "length proplets"
  have ne: "proplets \<noteq> []" using j by auto
  have some: "0 < length (filter p_Alive proplets)"
    using j alive by (intro length_filter_pos [of "proplets ! j"]) auto
  obtain res r' where run: "rr_turn ?n proplets r = (res, r')"
    by (cases "rr_turn ?n proplets r")
  have sel: "SelectProplet t proplets r = (res, r')"
    using ne some run by (simp add: SelectProplet_def)
  obtain d where d: "1 \<le> d" "d \<le> ?n" "(LastProplet r + d) mod ?n = j"
    using cyclic_distance [OF j] by blast
  have "\<exists>p. res = Ok p"
    using rr_turn_result [OF ne, of ?n r] run d alive by (cases res) auto
  then obtain p where "res = Ok p" by blast
  with that sel run rr_turn_result [OF ne, of ?n r] show thesis by auto
qed

interpretation rr: proplet_scheduler SelectProplet
proof
  fix t p and ps :: "Proplet list" and s s' :: roundRobin
  assume sel: "SelectProplet t ps s = (Ok p, s')"
  then have ne: "ps \<noteq> []" and "rr_turn (length ps) ps s = (Ok p, s')"
    by (auto simp: SelectProplet_def Let_def split: if_splits)
  then show "p \<in> set ps \<and> p_Alive p"
    using rr_turn_result [OF ne, of "length ps" s] by auto
next
  fix t and ps :: "Proplet list" and s :: roundRobin
  show "ps = [] \<Longrightarrow> SelectProplet t ps s = (Err (Sentinel ErrNoProplet), s)"
    by (simp add: SelectProplet_def)
next
  fix t and ps :: "Proplet list" and s :: roundRobin
  show "ps \<noteq> [] \<Longrightarrow> \<forall>p\<in>set ps. \<not> p_Alive p \<Longrightarrow>
      SelectProplet t ps s = (Err (Sentinel ErrDeadProplers), s)"
    by (simp add: SelectProplet_def filter_empty_conv)
next
  fix p t and ps :: "Proplet list" and s :: roundRobin
  assume "p \<in> set ps" "p_Alive p"
  then obtain j where "j < length ps" "p_Alive (ps ! j)"
    by (auto simp: in_set_conv_nth)
  then show "\<exists>q s'. SelectProplet t ps s = (Ok q, s')"
    by (rule SelectProplet_alive_first) blast
qed

text \<open>The distance to a proplet that is alive shrinks with every call that passes over it.\<close>

lemma SelectProplet_calls_reach:
  assumes "1 \<le> d" "d \<le> n" "d \<le> length proplets"
    and "(LastProplet r + d) mod length proplets = j" "j < length proplets" "p_Alive (proplets ! j)"
  shows "Ok (proplets ! j) \<in> set (SelectProplet_calls n t proplets r)"
  using assms
proof (induction n arbitrary: d r)
  case 0
  then show ?case by simp
next
  case (Suc n)
  obtain s r' where s: "1 \<le> s" "SelectProplet t proplets r = (Ok (proplets ! LastProplet r'), r')"
      "LastProplet r' = (LastProplet r + s) mod length proplets"
      "\<forall>i. 1 \<le> i \<and> i < s \<longrightarrow> \<not> p_Alive (proplets ! ((LastProplet r + i) mod length proplets))"
    using SelectProplet_alive_first [OF Suc.prems(5,6)] by metis
  have "s \<le> d"
    using s(4) Suc.prems by (metis not_le)
  show ?case
  proof (cases "s = d")
    case True
    then show ?thesis using s Suc.prems by simp
  next
    case False
    with \<open>s \<le> d\<close> have less: "s < d" by simp
    have pos: "(LastProplet r' + (d - s)) mod length proplets = j"
      using less Suc.prems(4) by (simp only: s(3) mod_add_left_eq) simp
    have "Ok (proplets ! j) \<in> set (SelectProplet_calls n t proplets r')"
      using Suc.IH [of "d - s" r'] less s(1) Suc.prems pos by simp
    then show ?thesis using s(2) by simp
  qed
qed

section \<open>The priority order\<close>

interpretation priority: cmp_by_key priority_cmp "\<lambda>t. (- effective_priority t, t_CreatedAt t)"
  by unfold_locales (auto simp: priority_cmp_def Let_def)

section \<open>Properties\<close>

text \<open>
  C33. The round-robin scheduler returns an alive member of the list whenever there is one;
  it fails only when the list is empty or all its proplets are dead, and then its state is
  unchanged.
\<close>

theorem SelectProplet_result:
  "case SelectProplet t proplets r of
     (Ok p, r') \<Rightarrow> p \<in> set proplets \<and> p_Alive p
   | (Err e, r') \<Rightarrow> r' = r \<and> list_all (\<lambda>p. \<not> p_Alive p) proplets \<and>
       e = Sentinel (if proplets = [] then ErrNoProplet else ErrDeadProplers)"
proof (cases "SelectProplet t proplets r")
  case (Pair res r')
  show ?thesis
  proof (cases res)
    case (Inl e)
    then show ?thesis
      using Pair rr.select_err_unchanged [of t proplets r e r'] rr.select_none [of proplets t r] rr.select_dead [of proplets]
      by (cases "proplets = []") (auto simp: list_all_iff)
  next
    case (Inr p)
    then show ?thesis using Pair rr.select_alive [of t proplets r p r'] by simp
  qed
qed

text \<open>
  C20. Fairness: while the list of proplets does not change, every alive proplet is chosen
  within as many consecutive calls as there are proplets.
\<close>

theorem SelectProplet_fair:
  assumes "j < length proplets" "p_Alive (proplets ! j)" "length proplets \<le> n"
  shows "Ok (proplets ! j) \<in> set (SelectProplet_calls n t proplets r)"
proof -
  obtain d where "1 \<le> d" "d \<le> length proplets" "(LastProplet r + d) mod length proplets = j"
    using cyclic_distance [OF assms(1)] by blast
  then show ?thesis using SelectProplet_calls_reach [of d n proplets r j] assms by simp
qed

lemma SelectProplet_fair_witness:
  "Ok (Proplet_zero\<lparr>p_ID := ''b'', p_Alive := True\<rparr>) \<in> set (SelectProplet_calls 2 Task_zero
     [Proplet_zero\<lparr>p_ID := ''a''\<rparr>, Proplet_zero\<lparr>p_ID := ''b'', p_Alive := True\<rparr>] NewRoundRobin)"
  using SelectProplet_fair [of 1 "[Proplet_zero\<lparr>p_ID := ''a''\<rparr>, Proplet_zero\<lparr>p_ID := ''b'', p_Alive := True\<rparr>]"
      2 Task_zero NewRoundRobin] by simp

text \<open>
  C30. The due tasks are a permutation of the given ones in the order of decreasing effective
  priority, and of increasing creation time among equal priorities.
\<close>

theorem GetReadyTasksByPriority_sorted:
  "mset (GetReadyTasksByPriority tasks) = mset tasks \<and>
   sorted_wrt (\<lambda>a b. effective_priority b < effective_priority a \<or>
     effective_priority a = effective_priority b \<and> t_CreatedAt a \<le> t_CreatedAt b) (GetReadyTasksByPriority tasks)"
proof -
  have "sorted_wrt (\<lambda>a b. (- effective_priority a, t_CreatedAt a) \<le> (- effective_priority b, t_CreatedAt b))
      (slices_SortFunc priority_cmp tasks)"
    using priority.sort_sorted [of tasks] by (simp add: sorted_map)
  then show ?thesis
    by (auto simp: GetReadyTasksByPriority_def less_eq_prod_def elim!: sorted_wrt_mono_rel [rotated])
qed

end
