(* ===== verification/Dag.thy ===== *)
theory Dag
  imports Task
begin

text \<open>
  \<^verbatim>\<open>pkg/dag/validator.go\<close>, first part: existence of dependencies and the depth-first search
  for cycles. The search is shown to accept exactly the acyclic task sets (given that
  dependencies exist and identifiers are distinct).
\<close>

section \<open>Definitions\<close>

text \<open>The map \<open>taskMap\<close> from identifiers to tasks: a later task replaces an earlier one.\<close>

definition taskMap :: "Task list \<Rightarrow> string \<Rightarrow> Task option" where
  "taskMap tasks = fold (\<lambda>t m. m(t_ID t \<mapsto> t)) tasks Map.empty"

type_synonym dfs_state = "string set \<times> string set"

text \<open>
  The closure \<open>dfs\<close> and its loop over \<open>DependsOn\<close>. The state is the pair of the maps
  \<open>visited\<close> and \<open>recStack\<close>, as the sets of the keys that are true. A task that is not in
  \<open>taskMap\<close> returns at once and stays in \<open>recStack\<close>, as in the source.
\<close>

function (sequential) dfs :: "Task list \<Rightarrow> string \<Rightarrow> dfs_state \<Rightarrow> dfs_state result"
  and dfs_deps :: "Task list \<Rightarrow> string \<Rightarrow> string list \<Rightarrow> dfs_state \<Rightarrow> dfs_state result" where
  "dfs tasks taskID (visited, recStack) =
     (case taskMap tasks taskID of
        None \<Rightarrow> Ok (insert taskID visited, insert taskID recStack)
      | Some t \<Rightarrow>
          (case dfs_deps tasks taskID (t_DependsOn t) (insert taskID visited, insert taskID recStack) of
             Err err \<Rightarrow> Err err
           | Ok (visited', recStack') \<Rightarrow> Ok (visited', recStack' - {taskID})))"
| "dfs_deps tasks taskID [] st = Ok st"
| "dfs_deps tasks taskID (depID # ds) (visited, recStack) =
     (if depID \<notin> visited then
        (case dfs tasks depID (visited, recStack) of
           Err err \<Rightarrow> Err err
         | Ok st \<Rightarrow> dfs_deps tasks taskID ds st)
      else if depID \<in> recStack then
        Err (Wrap [] (Sentinel ErrCircularDependency)
          ('': cycle detected involving tasks '' @ taskID @ '' and '' @ depID))
      else dfs_deps tasks taskID ds (visited, recStack))"
  by pat_completeness auto

text \<open>
  Termination: the set of visited tasks only grows, and every descent adds a task of the
  finite set of the identifiers and dependencies at hand.
\<close>

definition dag_nodes :: "Task list \<Rightarrow> string set" where
  "dag_nodes tasks = t_ID ` set tasks \<union> (\<Union>t\<in>set tasks. set (t_DependsOn t))"

lemma finite_dag_nodes [simp]: "finite (dag_nodes tasks)"
  by (simp add: dag_nodes_def)

lemma fold_taskMap:
  "fold (\<lambda>t m. m(t_ID t \<mapsto> t)) tasks m0 k
     = (case find (\<lambda>t. t_ID t = k) (rev tasks) of None \<Rightarrow> m0 k | Some t \<Rightarrow> Some t)"
proof (induction tasks arbitrary: m0 rule: rev_induct)
  case (snoc t ts)
  then show ?case by simp
qed simp

lemma taskMap_find: "taskMap tasks k = find (\<lambda>t. t_ID t = k) (rev tasks)"
  by (simp add: taskMap_def fold_taskMap split: option.splits)

lemma taskMap_SomeD: "taskMap tasks k = Some t \<Longrightarrow> t \<in> set tasks \<and> t_ID t = k"
  by (auto simp: taskMap_find find_Some_iff) (metis nth_mem set_rev length_rev)

lemma taskMap_None_iff: "taskMap tasks k = None \<longleftrightarrow> k \<notin> t_ID ` set tasks"
  by (auto simp: taskMap_find find_None_iff)

lemma taskMap_distinct:
  assumes "distinct (map t_ID tasks)" "t \<in> set tasks"
  shows "taskMap tasks (t_ID t) = Some t"
proof -
  obtain t' where t': "taskMap tasks (t_ID t) = Some t'"
    using assms(2) taskMap_None_iff [of tasks "t_ID t"] by (cases "taskMap tasks (t_ID t)") auto
  then have "t' \<in> set tasks" "t_ID t' = t_ID t" by (auto dest: taskMap_SomeD)
  with assms have "t' = t" by (metis distinct_map inj_on_def)
  with t' show ?thesis by simp
qed

lemma dfs_visited_mono:
  "dfs_dfs_deps_dom (Inl (tasks, taskID, st)) \<Longrightarrow> dfs tasks taskID st = Ok st' \<Longrightarrow>
     fst st \<subseteq> fst st'"
  "dfs_dfs_deps_dom (Inr (tasks, taskID, ds, st)) \<Longrightarrow> dfs_deps tasks taskID ds st = Ok st' \<Longrightarrow>
     fst st \<subseteq> fst st'"
proof (induction tasks taskID st and tasks taskID ds st arbitrary: st' and st' rule: dfs_dfs_deps.pinduct)
  case (1 tasks taskID visited recStack)
  then show ?case
    by (auto simp: dfs.psimps split: option.splits sum.splits prod.splits) (metis fst_conv insertCI insert_subset subsetD)+
next
  case (2 tasks taskID st)
  then show ?case by (simp add: dfs_deps.psimps)
next
  case (3 tasks taskID depID ds visited recStack)
  show ?case
  proof (cases "depID \<notin> visited")
    case True
    with 3(1,5) obtain st1 where
      st1: "dfs tasks depID (visited, recStack) = Ok st1" "dfs_deps tasks taskID ds st1 = Ok st'"
      by (auto simp: dfs_deps.psimps split: sum.splits)
    have "visited \<subseteq> fst st1" using 3(2) [OF True st1(1)] by simp
    also have "fst st1 \<subseteq> fst st'" using 3(3) [OF True st1(1) st1(2)] by simp
    finally show ?thesis by simp
  next
    case False
    with 3(1,5) have "depID \<notin> recStack" "dfs_deps tasks taskID ds (visited, recStack) = Ok st'"
      by (auto simp: dfs_deps.psimps split: if_splits)
    with 3(4) False show ?thesis by simp
  qed
qed

definition dfs_measure ::
    "(Task list \<times> string \<times> dfs_state) + (Task list \<times> string \<times> string list \<times> dfs_state) \<Rightarrow> nat \<times> nat" where
  "dfs_measure x = (case x of
     Inl (tasks, taskID, st) \<Rightarrow> (card (dag_nodes tasks - insert taskID (fst st)),
       case taskMap tasks taskID of None \<Rightarrow> 0 | Some t \<Rightarrow> Suc (length (t_DependsOn t)))
   | Inr (tasks, taskID, ds, st) \<Rightarrow> (card (dag_nodes tasks - fst st), length ds))"

lemma card_nodes_insert_less:
  "k \<in> dag_nodes tasks \<Longrightarrow> k \<notin> V \<Longrightarrow> card (dag_nodes tasks - insert k V) < card (dag_nodes tasks - V)"
  by (intro psubset_card_mono) auto

lemma card_nodes_mono: "V \<subseteq> W \<Longrightarrow> card (dag_nodes tasks - W) \<le> card (dag_nodes tasks - V)"
  by (intro card_mono) auto

lemma taskMap_not_node: "k \<notin> dag_nodes tasks \<Longrightarrow> taskMap tasks k = None"
  by (auto simp: taskMap_None_iff dag_nodes_def)

termination dfs
proof (relation "inv_image (less_than <*lex*> less_than) dfs_measure", goal_cases)
  case 1
  then show ?case by auto
next
  case (2 tasks taskID visited recStack t)
  then show ?case by (simp add: dfs_measure_def)
next
  case (3 tasks taskID depID ds visited recStack)
  show ?case
  proof (cases "depID \<in> dag_nodes tasks")
    case True
    then show ?thesis
      using 3 card_nodes_insert_less [of depID tasks visited] by (simp add: dfs_measure_def)
  next
    case False
    have "card (dag_nodes tasks - insert depID visited) \<le> card (dag_nodes tasks - visited)"
      by (rule card_nodes_mono) auto
    then show ?thesis using False by (simp add: dfs_measure_def taskMap_not_node le_less)
  qed
next
  case (4 tasks taskID depID ds visited recStack st)
  then have "visited \<subseteq> fst st" using dfs_visited_mono(1) by fastforce
  then have "card (dag_nodes tasks - fst st) \<le> card (dag_nodes tasks - visited)"
    by (rule card_nodes_mono)
  then show ?case by (simp add: dfs_measure_def le_less)
next
  case (5 tasks taskID depID ds visited recStack)
  then show ?case by (simp add: dfs_measure_def)
qed

text \<open>The loops of \<open>ValidateDAG\<close>: the self-dependency check, then a search from every task.\<close>

fun check_self :: "Task list \<Rightarrow> unit result" where
  "check_self [] = Ok ()"
| "check_self (t # ts) =
     (if t_ID t \<in> set (t_DependsOn t)
      then Err (Wrap [] (Sentinel ErrCircularDependency) ('': task '' @ t_ID t @ '' depends on itself''))
      else check_self ts)"

fun dfs_roots :: "Task list \<Rightarrow> Task list \<Rightarrow> dfs_state \<Rightarrow> unit result" where
  "dfs_roots tasks [] st = Ok ()"
| "dfs_roots tasks (t # ts) (visited, recStack) =
     (if t_ID t \<notin> visited then
        (case dfs tasks (t_ID t) (visited, recStack) of
           Err err \<Rightarrow> Err err
         | Ok st \<Rightarrow> dfs_roots tasks ts st)
      else dfs_roots tasks ts (visited, recStack))"

definition ValidateDAG :: "Task list \<Rightarrow> unit result" where
  "ValidateDAG tasks =
     (case check_self tasks of
        Err err \<Rightarrow> Err err
      | Ok _ \<Rightarrow> dfs_roots tasks tasks ({}, {}))"

fun check_deps_of :: "(string \<Rightarrow> bool) \<Rightarrow> string \<Rightarrow> string list \<Rightarrow> unit result" where
  "check_deps_of known taskID [] = Ok ()"
| "check_deps_of known taskID (depID # ds) =
     (if \<not> known depID
      then Err (Wrap [] (Sentinel ErrMissingDependency)
        ('': task '' @ taskID @ '' depends on '' @ depID @ '' which does not exist''))
      else check_deps_of known taskID ds)"

fun check_deps :: "(string \<Rightarrow> bool) \<Rightarrow> Task list \<Rightarrow> unit result" where
  "check_deps known [] = Ok ()"
| "check_deps known (t # ts) =
     (case check_deps_of known (t_ID t) (t_DependsOn t) of
        Err err \<Rightarrow> Err err
      | Ok _ \<Rightarrow> check_deps known ts)"

definition ValidateDependenciesExist :: "Task list \<Rightarrow> unit result" where
  "ValidateDependenciesExist tasks = check_deps (\<lambda>k. k \<in> t_ID ` set tasks) tasks"

section \<open>Specification\<close>

text \<open>The dependency relation: from a task to the tasks it depends on.\<close>

definition dep_rel :: "Task list \<Rightarrow> (string \<times> string) set" where
  "dep_rel tasks = {(a, b). \<exists>t. taskMap tasks a = Some t \<and> b \<in> set (t_DependsOn t)}"

definition deps_closed :: "Task list \<Rightarrow> bool" where
  "deps_closed tasks \<longleftrightarrow> (\<forall>t\<in>set tasks. set (t_DependsOn t) \<subseteq> t_ID ` set tasks)"

lemma dep_rel_iff: "taskMap tasks a = Some t \<Longrightarrow> (a, b) \<in> dep_rel tasks \<longleftrightarrow> b \<in> set (t_DependsOn t)"
  by (simp add: dep_rel_def)

lemma dep_rel_domain: "(a, b) \<in> dep_rel tasks \<Longrightarrow> a \<in> t_ID ` set tasks"
  by (auto simp: dep_rel_def dest: taskMap_SomeD)

lemma dep_rel_closed: "deps_closed tasks \<Longrightarrow> (a, b) \<in> dep_rel tasks \<Longrightarrow> b \<in> t_ID ` set tasks"
  by (auto simp: dep_rel_def deps_closed_def dest!: taskMap_SomeD)

lemma finite_dep_rel: "finite (dep_rel tasks)"
proof (rule finite_subset)
  show "dep_rel tasks \<subseteq> dag_nodes tasks \<times> dag_nodes tasks"
    by (auto simp: dep_rel_def dag_nodes_def dest!: taskMap_SomeD)
qed simp

section \<open>Existence of dependencies\<close>

lemma check_deps_of_iff: "check_deps_of known k ds = Ok () \<longleftrightarrow> (\<forall>d\<in>set ds. known d)"
  by (induction ds) auto

lemma check_deps_of_err:
  "check_deps_of known k ds = Err e \<Longrightarrow> \<exists>d\<in>set ds. \<not> known d \<and> errors_Is e ErrMissingDependency"
  by (induction ds) (auto split: if_splits)

lemma check_deps_iff: "check_deps known ts = Ok () \<longleftrightarrow> (\<forall>t\<in>set ts. \<forall>d\<in>set (t_DependsOn t). known d)"
proof (induction ts)
  case (Cons t ts)
  then show ?case
    using check_deps_of_iff [of known "t_ID t" "t_DependsOn t"]
    by (cases "check_deps_of known (t_ID t) (t_DependsOn t)") auto
qed simp

lemma check_deps_err: "check_deps known ts = Err e \<Longrightarrow> errors_Is e ErrMissingDependency"
  by (induction ts) (auto split: sum.splits dest: check_deps_of_err)

lemma ValidateDependenciesExist_iff: "ValidateDependenciesExist tasks = Ok () \<longleftrightarrow> deps_closed tasks"
  by (auto simp: ValidateDependenciesExist_def check_deps_iff deps_closed_def)

lemma ValidateDependenciesExist_err:
  "ValidateDependenciesExist tasks = Err e \<Longrightarrow> errors_Is e ErrMissingDependency"
  by (simp add: ValidateDependenciesExist_def check_deps_err)

section \<open>Soundness of the search\<close>

text \<open>
  A finished task is visited and no longer on the recursion stack. The invariant of the
  search: the dependencies of finished tasks are finished (or unknown), and the relation
  restricted to finished tasks has no cycle.
\<close>

definition Restr_dom :: "('a \<times> 'b) set \<Rightarrow> 'a set \<Rightarrow> ('a \<times> 'b) set" where
  "Restr_dom r A = r \<inter> A \<times> UNIV"

definition finished :: "dfs_state \<Rightarrow> string set" where
  "finished st = fst st - snd st"

definition settled :: "Task list \<Rightarrow> string set \<Rightarrow> bool" where
  "settled tasks B \<longleftrightarrow>
     (\<forall>a b. a \<in> B \<longrightarrow> (a, b) \<in> dep_rel tasks \<longrightarrow> b \<in> B \<or> taskMap tasks b = None) \<and>
     acyclic (Restr_dom (dep_rel tasks) B)"

definition dfs_inv :: "Task list \<Rightarrow> dfs_state \<Rightarrow> bool" where
  "dfs_inv tasks st \<longleftrightarrow> snd st \<subseteq> fst st \<and> settled tasks (finished st)"

lemma acyclic_add_source:
  assumes "acyclic r" "v \<notin> Range r" "v \<notin> S"
  shows "acyclic (r \<union> {v} \<times> S)"
proof -
  have path: "(x, y) \<in> r\<^sup>+ \<and> y \<noteq> v" if "(x, y) \<in> (r \<union> {v} \<times> S)\<^sup>+" "x \<noteq> v" for x y
    using that
  proof (induction rule: trancl_induct)
    case (base y)
    then show ?case using assms by auto
  next
    case (step y z)
    then show ?case using assms by (auto intro: trancl_into_trancl)
  qed
  have ends: "y \<noteq> v" if "(x, y) \<in> (r \<union> {v} \<times> S)\<^sup>+" for x y
    using that by (cases rule: tranclE) (use assms in auto)
  show ?thesis
    using path ends \<open>acyclic r\<close> unfolding acyclic_def by blast
qed

lemma dfs_inv_push:
  assumes "dfs_inv tasks (V, R)" "k \<notin> V"
  shows "dfs_inv tasks (insert k V, insert k R)"
proof -
  have "finished (insert k V, insert k R) = finished (V, R)"
    using assms by (auto simp: finished_def)
  then show ?thesis using assms(1) by (auto simp: dfs_inv_def)
qed

lemma settled_insert:
  assumes B: "settled tasks B" and k: "k \<notin> B" "taskMap tasks k = Some t"
    and deps: "\<forall>d\<in>set (t_DependsOn t). d \<in> B \<or> taskMap tasks d = None"
  shows "settled tasks (insert k B)"
proof -
  have succ: "(k, b) \<in> dep_rel tasks \<longleftrightarrow> b \<in> set (t_DependsOn t)" for b
    using k by (simp add: dep_rel_iff)
  have rel: "Restr_dom (dep_rel tasks) (insert k B)
      = Restr_dom (dep_rel tasks) B \<union> {k} \<times> set (t_DependsOn t)"
    using succ by (auto simp: Restr_dom_def)
  have closed: "\<And>a b. a \<in> B \<Longrightarrow> (a, b) \<in> dep_rel tasks \<Longrightarrow> b \<in> B \<or> taskMap tasks b = None"
    using B by (auto simp: settled_def)
  have "k \<notin> Range (Restr_dom (dep_rel tasks) B)"
    using closed [of _ k] k by (auto simp: Restr_dom_def)
  moreover have "k \<notin> set (t_DependsOn t)" using deps k by auto
  ultimately have "acyclic (Restr_dom (dep_rel tasks) (insert k B))"
    unfolding rel using B by (intro acyclic_add_source) (auto simp: settled_def)
  moreover have "b \<in> insert k B \<or> taskMap tasks b = None"
    if "a \<in> insert k B" "(a, b) \<in> dep_rel tasks" for a b
    using that(1)
  proof
    assume "a = k"
    then show ?thesis using that(2) succ deps by auto
  next
    assume "a \<in> B"
    then show ?thesis using closed [OF _ that(2)] by auto
  qed
  ultimately show ?thesis unfolding settled_def by blast
qed

lemma dfs_inv_pop:
  assumes inv: "dfs_inv tasks (V, R)" and k: "k \<in> R" "taskMap tasks k = Some t"
    and deps: "\<forall>d\<in>set (t_DependsOn t). d \<in> V - R \<or> taskMap tasks d = None"
  shows "dfs_inv tasks (V, R - {k})"
proof -
  have "finished (V, R - {k}) = insert k (finished (V, R))"
    using inv k by (auto simp: dfs_inv_def finished_def)
  moreover have "settled tasks (insert k (finished (V, R)))"
    using inv k deps by (intro settled_insert) (auto simp: dfs_inv_def finished_def)
  ultimately show ?thesis using inv by (auto simp: dfs_inv_def)
qed

lemma dfs_inv_stack: "dfs_inv tasks (V, R) \<Longrightarrow> k \<notin> V \<Longrightarrow> k \<notin> R"
  by (auto simp: dfs_inv_def)

declare dfs.simps [simp del]

lemma dfs_sound:
  "dfs tasks k st = Ok st' \<Longrightarrow> dfs_inv tasks st \<Longrightarrow> k \<notin> fst st \<Longrightarrow>
     dfs_inv tasks st' \<and> fst st \<subseteq> fst st' \<and> k \<in> fst st' \<and>
     (\<forall>x. taskMap tasks x \<noteq> None \<longrightarrow> (x \<in> snd st' \<longleftrightarrow> x \<in> snd st))"
  "dfs_deps tasks k ds st = Ok st' \<Longrightarrow> dfs_inv tasks st \<Longrightarrow>
     dfs_inv tasks st' \<and> fst st \<subseteq> fst st' \<and>
     (\<forall>x. taskMap tasks x \<noteq> None \<longrightarrow> (x \<in> snd st' \<longleftrightarrow> x \<in> snd st)) \<and>
     (\<forall>d\<in>set ds. d \<in> fst st' - snd st' \<or> taskMap tasks d = None)"
proof (induction tasks k st and tasks k ds st arbitrary: st' and st' rule: dfs_dfs_deps.induct)
  case (1 tasks k V R)
  have push: "dfs_inv tasks (insert k V, insert k R)"
    using 1(3,4) by (intro dfs_inv_push) auto
  show ?case
  proof (cases "taskMap tasks k")
    case None
    then show ?thesis using 1(2) push by (auto simp: dfs.simps)
  next
    case (Some t)
    then obtain V2 R2 where run: "dfs_deps tasks k (t_DependsOn t) (insert k V, insert k R) = Ok (V2, R2)"
        and st': "st' = (V2, R2 - {k})"
      using 1(2) by (auto simp: dfs.simps split: sum.splits)
    have ih: "dfs_inv tasks (V2, R2)" "insert k V \<subseteq> V2"
        "\<forall>x. taskMap tasks x \<noteq> None \<longrightarrow> (x \<in> R2 \<longleftrightarrow> x \<in> insert k R)"
        "\<forall>d\<in>set (t_DependsOn t). d \<in> V2 - R2 \<or> taskMap tasks d = None"
      using 1(1) [OF Some run push] by simp_all
    have "k \<in> R2" using ih(3) Some by simp
    then have inv: "dfs_inv tasks st'"
      using dfs_inv_pop [OF ih(1) _ Some ih(4)] st' by simp
    have "k \<notin> R" using 1(3,4) by (auto dest: dfs_inv_stack)
    then have "\<forall>x. taskMap tasks x \<noteq> None \<longrightarrow> (x \<in> snd st' \<longleftrightarrow> x \<in> R)"
      unfolding st' using ih(3) by (metis Diff_iff insert_iff singletonD snd_conv)
    moreover have "V \<subseteq> fst st'" "k \<in> fst st'" using ih(2) st' by auto
    ultimately show ?thesis using inv by simp
  qed
next
  case (2 tasks k st)
  then show ?case by simp
next
  case (3 tasks k d ds V R)
  show ?case
  proof (cases "d \<notin> V")
    case True
    then obtain st1 where st1: "dfs tasks d (V, R) = Ok st1" "dfs_deps tasks k ds st1 = Ok st'"
      using 3(4) by (auto split: sum.splits)
    have a: "dfs_inv tasks st1" "V \<subseteq> fst st1" "d \<in> fst st1"
        "\<forall>x. taskMap tasks x \<noteq> None \<longrightarrow> (x \<in> snd st1 \<longleftrightarrow> x \<in> R)"
      using 3(1) [OF True st1(1) 3(5)] True by simp_all
    have b: "dfs_inv tasks st'" "fst st1 \<subseteq> fst st'"
        "\<forall>x. taskMap tasks x \<noteq> None \<longrightarrow> (x \<in> snd st' \<longleftrightarrow> x \<in> snd st1)"
        "\<forall>d\<in>set ds. d \<in> fst st' - snd st' \<or> taskMap tasks d = None"
      using 3(2) [OF True st1 a(1)] by simp_all
    have stack: "\<forall>x. taskMap tasks x \<noteq> None \<longrightarrow> (x \<in> snd st' \<longleftrightarrow> x \<in> R)"
      using a(4) b(3) by simp
    have "d \<notin> R" using True 3(5) by (auto dest: dfs_inv_stack)
    then have "d \<in> fst st' - snd st' \<or> taskMap tasks d = None"
      using stack a(3) b(2) by blast
    then have "\<forall>x\<in>set (d # ds). x \<in> fst st' - snd st' \<or> taskMap tasks x = None"
      using b(4) by simp
    moreover have "V \<subseteq> fst st'" using a(2) b(2) by (rule order_trans)
    ultimately show ?thesis using b(1) stack by simp
  next
    case False
    then have "d \<notin> R" "dfs_deps tasks k ds (V, R) = Ok st'"
      using 3(4) by (auto split: if_splits)
    then have b: "dfs_inv tasks st'" "V \<subseteq> fst st'"
        "\<forall>x. taskMap tasks x \<noteq> None \<longrightarrow> (x \<in> snd st' \<longleftrightarrow> x \<in> R)"
        "\<forall>d\<in>set ds. d \<in> fst st' - snd st' \<or> taskMap tasks d = None"
      using 3(3) [OF _ _ _ 3(5)] False by simp_all
    have "d \<in> fst st' - snd st' \<or> taskMap tasks d = None"
      using b(2,3) False \<open>d \<notin> R\<close> by blast
    then show ?thesis using b by simp
  qed
qed

lemma dfs_roots_sound:
  "dfs_roots tasks ts st = Ok () \<Longrightarrow> dfs_inv tasks st \<Longrightarrow> \<forall>x\<in>snd st. taskMap tasks x = None \<Longrightarrow>
     \<exists>st'. dfs_inv tasks st' \<and> (\<forall>x\<in>snd st'. taskMap tasks x = None) \<and> fst st \<subseteq> fst st' \<and>
       t_ID ` set ts \<subseteq> fst st'"
proof (induction tasks ts st rule: dfs_roots.induct)
  case (1 tasks st)
  then show ?case by (intro exI [of _ st]) simp
next
  case (2 tasks t ts V R)
  show ?case
  proof (cases "t_ID t \<notin> V")
    case True
    then obtain st1 where st1: "dfs tasks (t_ID t) (V, R) = Ok st1" "dfs_roots tasks ts st1 = Ok ()"
      using 2(3) by (auto split: sum.splits)
    have a: "dfs_inv tasks st1" "V \<subseteq> fst st1" "t_ID t \<in> fst st1"
        "\<forall>x. taskMap tasks x \<noteq> None \<longrightarrow> (x \<in> snd st1 \<longleftrightarrow> x \<in> R)"
      using dfs_sound(1) [OF st1(1) 2(4)] True by auto
    then have "\<forall>x\<in>snd st1. taskMap tasks x = None" using 2(5) by auto
    from 2(1) [OF True st1 a(1) this] obtain st' where "dfs_inv tasks st'"
        "\<forall>x\<in>snd st'. taskMap tasks x = None" "fst st1 \<subseteq> fst st'" "t_ID ` set ts \<subseteq> fst st'"
      by blast
    with a show ?thesis by (intro exI [of _ st']) auto
  next
    case False
    then have "dfs_roots tasks ts (V, R) = Ok ()" using 2(3) by simp
    from 2(2) [OF _ this 2(4,5)] False obtain st' where "dfs_inv tasks st'"
        "\<forall>x\<in>snd st'. taskMap tasks x = None" "V \<subseteq> fst st'" "t_ID ` set ts \<subseteq> fst st'"
      by auto
    with False show ?thesis by (intro exI [of _ st']) auto
  qed
qed

lemma check_self_iff: "check_self ts = Ok () \<longleftrightarrow> (\<forall>t\<in>set ts. t_ID t \<notin> set (t_DependsOn t))"
  by (induction ts) auto

lemma ValidateDAG_sound:
  assumes "ValidateDAG tasks = Ok ()"
  shows "acyclic (dep_rel tasks)"
proof -
  have run: "dfs_roots tasks tasks ({}, {}) = Ok ()"
    using assms by (auto simp: ValidateDAG_def split: sum.splits)
  have init: "dfs_inv tasks ({}, {})"
    by (simp add: dfs_inv_def settled_def finished_def Restr_dom_def acyclic_def)
  obtain st where st: "dfs_inv tasks st" "\<forall>x\<in>snd st. taskMap tasks x = None"
      "t_ID ` set tasks \<subseteq> fst st"
    using dfs_roots_sound [OF run init] by auto
  have "t_ID ` set tasks \<subseteq> finished st"
    using st(2,3) by (auto simp: taskMap_None_iff finished_def)
  then have "Restr_dom (dep_rel tasks) (finished st) = dep_rel tasks"
    by (auto simp: Restr_dom_def dest: dep_rel_domain)
  then show ?thesis using st(1) by (simp add: dfs_inv_def settled_def)
qed

section \<open>Completeness of the search\<close>

text \<open>
  Without a cycle the search never meets a task of the recursion stack: everything on the
  stack reaches the current task.
\<close>

lemma dfs_complete:
  "acyclic (dep_rel tasks) \<Longrightarrow> deps_closed tasks \<Longrightarrow> k \<in> t_ID ` set tasks \<Longrightarrow>
     snd st \<subseteq> fst st \<Longrightarrow> k \<notin> fst st \<Longrightarrow> \<forall>x\<in>snd st. (x, k) \<in> (dep_rel tasks)\<^sup>+ \<Longrightarrow>
     \<exists>V'. dfs tasks k st = Ok (V', snd st) \<and> fst st \<subseteq> V'"
  "acyclic (dep_rel tasks) \<Longrightarrow> deps_closed tasks \<Longrightarrow> \<forall>d\<in>set ds. (k, d) \<in> dep_rel tasks \<Longrightarrow>
     snd st \<subseteq> fst st \<Longrightarrow> \<forall>x\<in>snd st. (x, k) \<in> (dep_rel tasks)\<^sup>* \<Longrightarrow>
     \<exists>V'. dfs_deps tasks k ds st = Ok (V', snd st) \<and> fst st \<subseteq> V'"
proof (induction tasks k st and tasks k ds st rule: dfs_dfs_deps.induct)
  case (1 tasks k V R)
  obtain t where t: "taskMap tasks k = Some t"
    using 1(4) taskMap_None_iff [of tasks k] by (cases "taskMap tasks k") auto
  have "\<exists>V'. dfs_deps tasks k (t_DependsOn t) (insert k V, insert k R) = Ok (V', insert k R)
      \<and> insert k V \<subseteq> V'"
    using 1(1) [OF t 1(2,3)] 1(5,7) t by (auto simp: dep_rel_iff trancl_into_rtrancl)
  moreover have "k \<notin> R" using 1(5,6) by auto
  ultimately show ?case using t by (auto simp: dfs.simps)
next
  case (2 tasks k st)
  then show ?case by (cases st) simp
next
  case (3 tasks k d ds V R)
  have edge: "(k, d) \<in> dep_rel tasks" using 3(6) by simp
  have notR: "d \<notin> R"
  proof
    assume "d \<in> R"
    then have "(d, k) \<in> (dep_rel tasks)\<^sup>*" using 3(8) by simp
    with edge have "(k, k) \<in> (dep_rel tasks)\<^sup>+" by (rule rtrancl_into_trancl2)
    with 3(4) show False by (simp add: acyclic_def)
  qed
  show ?case
  proof (cases "d \<notin> V")
    case True
    have "\<forall>x\<in>R. (x, d) \<in> (dep_rel tasks)\<^sup>+"
      using 3(8) edge by (auto intro: rtrancl_into_trancl1)
    then obtain V1 where V1: "dfs tasks d (V, R) = Ok (V1, R)" "V \<subseteq> V1"
      using 3(1) [OF True 3(4,5) dep_rel_closed [OF 3(5) edge] 3(7)] True by auto
    then have "\<exists>V'. dfs_deps tasks k ds (V1, R) = Ok (V', R) \<and> V1 \<subseteq> V'"
      using 3(2) [OF True V1(1) 3(4,5)] 3(6,7,8) by auto
    then show ?thesis using True V1 by auto
  next
    case False
    then have "\<exists>V'. dfs_deps tasks k ds (V, R) = Ok (V', R) \<and> V \<subseteq> V'"
      using 3(3) [OF _ notR 3(4,5)] 3(6,7,8) by auto
    then show ?thesis using False notR by simp
  qed
qed

lemma dfs_roots_complete:
  assumes "acyclic (dep_rel tasks)" "deps_closed tasks"
  shows "set ts \<subseteq> set tasks \<Longrightarrow> dfs_roots tasks ts (V, {}) = Ok ()"
proof (induction ts arbitrary: V)
  case (Cons t ts)
  then have IH: "\<And>V. dfs_roots tasks ts (V, {}) = Ok ()" by simp
  show ?case
  proof (cases "t_ID t \<notin> V")
    case True
    then obtain V1 where "dfs tasks (t_ID t) (V, {}) = Ok (V1, {})"
      using dfs_complete(1) [OF assms, of "t_ID t" "(V, {})"] Cons.prems by auto
    with True IH show ?thesis by simp
  qed (use IH in simp)
qed simp

lemma ValidateDAG_complete:
  assumes "distinct (map t_ID tasks)" "deps_closed tasks" "acyclic (dep_rel tasks)"
  shows "ValidateDAG tasks = Ok ()"
proof -
  have "t_ID t \<notin> set (t_DependsOn t)" if "t \<in> set tasks" for t
    using assms(3) taskMap_distinct [OF assms(1) that]
    by (auto simp: acyclic_def dep_rel_def dest!: spec [of _ "t_ID t"])
  then have "check_self tasks = Ok ()" by (simp add: check_self_iff)
  moreover have "dfs_roots tasks tasks ({}, {}) = Ok ()"
    using dfs_roots_complete [OF assms(3,2)] by simp
  ultimately show ?thesis by (simp add: ValidateDAG_def)
qed

lemma dfs_err:
  "dfs tasks k st = Err e \<Longrightarrow> errors_Is e ErrCircularDependency"
  "dfs_deps tasks k ds st = Err e \<Longrightarrow> errors_Is e ErrCircularDependency"
proof (induction tasks k st and tasks k ds st rule: dfs_dfs_deps.induct)
  case (1 tasks k V R)
  then show ?case by (auto simp: dfs.simps split: option.splits sum.splits)
next
  case (2 tasks k st)
  then show ?case by simp
next
  case (3 tasks k d ds V R)
  then show ?case by (auto split: if_splits sum.splits)
qed

lemma ValidateDAG_err: "ValidateDAG tasks = Err e \<Longrightarrow> errors_Is e ErrCircularDependency"
proof -
  have self: "check_self ts = Err e \<Longrightarrow> errors_Is e ErrCircularDependency" for ts
    by (induction ts) (auto split: if_splits)
  have roots: "dfs_roots tasks ts st = Err e \<Longrightarrow> errors_Is e ErrCircularDependency" for ts st
    by (induction tasks ts st rule: dfs_roots.induct) (auto split: sum.splits if_splits dest: dfs_err)
  show "ValidateDAG tasks = Err e \<Longrightarrow> errors_Is e ErrCircularDependency"
    by (auto simp: ValidateDAG_def split: sum.splits dest: self roots)
qed

section \<open>Properties\<close>

text \<open>
  C4. For tasks with distinct identifiers whose dependencies all exist, \<open>ValidateDAG\<close> accepts
  exactly the task sets whose dependency relation has no cycle, and what it reports otherwise
  is a circular dependency.
\<close>

theorem ValidateDAG_correct:
  assumes "distinct (map t_ID tasks)" "deps_closed tasks"
  shows "(ValidateDAG tasks = Ok () \<longleftrightarrow> acyclic (dep_rel tasks)) \<and>
    (\<not> acyclic (dep_rel tasks) \<longrightarrow> (\<exists>e. ValidateDAG tasks = Err e \<and> errors_Is e ErrCircularDependency))"
proof -
  have "ValidateDAG tasks = Ok () \<longleftrightarrow> acyclic (dep_rel tasks)"
    using assms ValidateDAG_sound ValidateDAG_complete by blast
  then show ?thesis
    using ValidateDAG_err by (cases "ValidateDAG tasks") auto
qed

lemma ValidateDAG_correct_witness:
  "ValidateDAG [Task_zero\<lparr>t_ID := ''a'', t_DependsOn := [''b'']\<rparr>, Task_zero\<lparr>t_ID := ''b'', t_DependsOn := [''a'']\<rparr>] \<noteq> Ok () \<and>
   \<not> acyclic (dep_rel [Task_zero\<lparr>t_ID := ''a'', t_DependsOn := [''b'']\<rparr>, Task_zero\<lparr>t_ID := ''b'', t_DependsOn := [''a'']\<rparr>])"
proof -
  let ?ts = "[Task_zero\<lparr>t_ID := ''a'', t_DependsOn := [''b'']\<rparr>, Task_zero\<lparr>t_ID := ''b'', t_DependsOn := [''a'']\<rparr>]"
  have "distinct (map t_ID ?ts)" "deps_closed ?ts" by (simp_all add: deps_closed_def)
  from ValidateDAG_correct [OF this]
  have iff: "ValidateDAG ?ts = Ok () \<longleftrightarrow> acyclic (dep_rel ?ts)" by blast
  have "ValidateDAG ?ts \<noteq> Ok ()"
    by (simp add: ValidateDAG_def dfs.simps taskMap_def)
  with iff show ?thesis by blast
qed

text \<open>
  \<open>ValidateDependenciesExist\<close> accepts exactly the task sets in which every dependency
  names a task of the set; its error is a missing dependency.
\<close>

lemma ValidateDependenciesExist_correct:
  "case ValidateDependenciesExist tasks of
     Ok _ \<Rightarrow> deps_closed tasks
   | Err e \<Rightarrow> \<not> deps_closed tasks \<and> errors_Is e ErrMissingDependency"
  using ValidateDependenciesExist_iff [of tasks] ValidateDependenciesExist_err [of tasks]
  by (cases "ValidateDependenciesExist tasks") auto


end
