(* ===== verification/DagSort.thy ===== *)
theory DagSort
  imports Dag
begin

text \<open>
  \<^verbatim>\<open>pkg/dag/validator.go\<close>, second part: the topological sort (Kahn's algorithm) and the
  selection of ready tasks. The source fills the initial queue by ranging over a Go map,
  whose order is not determined: that order is the argument \<open>order\<close>, and the theorems hold
  for every order of the map's keys.
\<close>

section \<open>Definitions\<close>

text \<open>The maps built by the first loop.\<close>

definition inDegree0 :: "Task list \<Rightarrow> string \<Rightarrow> int" where
  "inDegree0 tasks = fold (\<lambda>t m. m(t_ID t := int (length (t_DependsOn t)))) tasks (\<lambda>_. 0)"

definition dependents :: "Task list \<Rightarrow> string \<Rightarrow> string list" where
  "dependents tasks =
     fold (\<lambda>t m. fold (\<lambda>depID m. m(depID := m depID @ [t_ID t])) (t_DependsOn t) m) tasks (\<lambda>_. [])"

text \<open>The loop over \<open>dependents[currentID]\<close>.\<close>

fun release_deps :: "string list \<Rightarrow> (string \<Rightarrow> int) \<Rightarrow> string list \<Rightarrow> (string \<Rightarrow> int) \<times> string list" where
  "release_deps [] inDegree queue = (inDegree, queue)"
| "release_deps (depID # ds) inDegree queue =
     (let inDegree = inDegree(depID := inDegree depID - 1)
      in release_deps ds inDegree (if inDegree depID = 0 then queue @ [depID] else queue))"

text \<open>
  The main loop. A key that is missing from \<open>taskMap\<close> would append the zero task. The loop
  ends: a step either shortens the queue or visits one of the finitely many keys that have
  dependents.
\<close>

definition dep_keys :: "Task list \<Rightarrow> string set" where
  "dep_keys tasks = (\<Union>t\<in>set tasks. set (t_DependsOn t))"

lemma dependents_fold_deps:
  "fold (\<lambda>depID m. m(depID := m depID @ [x])) ds m k = m k @ replicate (count_list ds k) x"
proof (induction ds arbitrary: m)
  case (Cons d ds)
  then show ?case by (simp add: replicate_append_same)
qed simp

lemma dependents_eq:
  "dependents tasks k = concat (map (\<lambda>t. replicate (count_list (t_DependsOn t) k) (t_ID t)) tasks)"
proof -
  have "fold (\<lambda>t m. fold (\<lambda>depID m. m(depID := m depID @ [t_ID t])) (t_DependsOn t) m) ts m k
      = m k @ concat (map (\<lambda>t. replicate (count_list (t_DependsOn t) k) (t_ID t)) ts)" for ts :: "Task list" and m
    by (induction ts arbitrary: m) (simp_all add: dependents_fold_deps)
  then show ?thesis by (simp add: dependents_def)
qed

lemma dependents_outside: "k \<notin> dep_keys tasks \<Longrightarrow> dependents tasks k = []"
  by (simp add: dependents_eq dep_keys_def count_notin)

function kahn :: "Task list \<Rightarrow> string list \<Rightarrow> (string \<Rightarrow> int) \<Rightarrow> string set \<Rightarrow> Task list \<Rightarrow> Task list" where
  "kahn tasks [] inDegree visited result = result"
| "kahn tasks (currentID # queue) inDegree visited result =
     (if currentID \<in> visited then kahn tasks queue inDegree visited result
      else let (inDegree', queue') = release_deps (dependents tasks currentID) inDegree queue
           in kahn tasks queue' inDegree' (insert currentID visited)
                (result @ [case taskMap tasks currentID of None \<Rightarrow> Task_zero | Some t \<Rightarrow> t]))"
  by pat_completeness auto
termination
proof (relation "inv_image (less_than <*lex*> less_than)
    (\<lambda>(tasks, queue, inDegree, visited, result). (card (dep_keys tasks - visited), length queue))", goal_cases)
  case 1
  then show ?case by auto
next
  case (2 tasks currentID queue inDegree visited result)
  then show ?case by simp
next
  case (3 tasks currentID queue inDegree visited result x inDegree' queue')
  have fin: "finite (dep_keys tasks - visited)" by (simp add: dep_keys_def)
  show ?case
  proof (cases "currentID \<in> dep_keys tasks")
    case True
    then have "card (dep_keys tasks - insert currentID visited) < card (dep_keys tasks - visited)"
      using 3(1) fin by (intro psubset_card_mono) auto
    then show ?thesis by simp
  next
    case False
    then have "dep_keys tasks - insert currentID visited = dep_keys tasks - visited" by auto
    then show ?thesis using 3(2,3) False by (simp add: dependents_outside)
  qed
qed

definition TopologicalSort :: "string list \<Rightarrow> Task list \<Rightarrow> Task list result" where
  "TopologicalSort order tasks =
     (case ValidateDependenciesExist tasks of
        Err err \<Rightarrow> Err err
      | Ok _ \<Rightarrow>
          (case ValidateDAG tasks of
             Err err \<Rightarrow> Err err
           | Ok _ \<Rightarrow>
               (let inDegree = inDegree0 tasks;
                    queue = filter (\<lambda>taskID. inDegree taskID = 0) order;
                    res = kahn tasks queue inDegree {} []
                in if length res \<noteq> length tasks
                   then Err (NewError ''topological sort failed: not all tasks processed (possible cycle)'')
                   else Ok res)))"

definition deps_satisfied :: "(string \<rightharpoonup> State) \<Rightarrow> Task \<Rightarrow> bool" where
  "deps_satisfied completed t =
     list_all (\<lambda>depID. case completed depID of None \<Rightarrow> False | Some depState \<Rightarrow> IsTerminal depState)
       (t_DependsOn t)"

definition GetReadyTasks :: "Task list \<Rightarrow> (string \<rightharpoonup> State) \<Rightarrow> Task list" where
  "GetReadyTasks tasks completed =
     filter (\<lambda>t. \<not> IsTerminal (t_State t) \<and> deps_satisfied completed t) tasks"

section \<open>The effect of releasing dependents\<close>

lemma release_deps_inDegree:
  "fst (release_deps ds inDegree queue) k = inDegree k - int (count_list ds k)"
  by (induction ds arbitrary: inDegree queue) (auto simp: Let_def)

text \<open>
  A key is queued exactly when its counter reaches zero, and at most once when the counter
  does not go below zero.
\<close>

lemma release_deps_queue:
  assumes "\<forall>k\<in>set ds. int (count_list ds k) \<le> inDegree k"
  shows "\<exists>new. snd (release_deps ds inDegree queue) = queue @ new \<and> distinct new \<and>
     set new = {k \<in> set ds. inDegree k = int (count_list ds k)}"
  using assms
proof (induction ds arbitrary: inDegree queue)
  case (Cons d ds)
  define deg where "deg = inDegree(d := inDegree d - 1)"
  define q where "q = (if deg d = 0 then queue @ [d] else queue)"
  have deg: "deg k = inDegree k - (if k = d then 1 else 0)" for k by (simp add: deg_def)
  have le: "\<forall>k\<in>set ds. int (count_list ds k) \<le> deg k"
  proof
    fix k assume "k \<in> set ds"
    then show "int (count_list ds k) \<le> deg k"
      using bspec [OF Cons.prems, of k] by (simp add: deg split: if_splits)
  qed
  then obtain new where new: "snd (release_deps ds deg q) = q @ new" "distinct new"
      "set new = {k \<in> set ds. deg k = int (count_list ds k)}"
    using Cons.IH [of deg q] by blast
  have run: "snd (release_deps (d # ds) inDegree queue) = q @ new"
    using new(1) by (simp only: release_deps.simps Let_def q_def deg_def)
  have keep: "deg k = int (count_list ds k) \<longleftrightarrow> inDegree k = int (count_list (d # ds) k)" for k
    by (auto simp: deg)
  show ?case
  proof (cases "deg d = 0")
    case True
    have notin: "d \<notin> set ds"
    proof
      assume "d \<in> set ds"
      then have "0 < count_list ds d" by (metis count_list_0_iff gr0I)
      then show False using bspec [OF le \<open>d \<in> set ds\<close>] True by simp
    qed
    then have "deg d = int (count_list ds d)" using True by simp
    then have "set (d # new) = {k \<in> set (d # ds). inDegree k = int (count_list (d # ds) k)}"
      unfolding keep [symmetric] using new(3) by auto
    moreover have "distinct (d # new)" using new(2,3) notin by simp
    ultimately show ?thesis using run True by (intro exI [of _ "d # new"]) (simp add: q_def)
  next
    case False
    have "d \<in> set ds" if "deg d = int (count_list ds d)"
      using that False count_list_0_iff [of ds d] by auto
    then have "set new = {k \<in> set (d # ds). inDegree k = int (count_list (d # ds) k)}"
      unfolding keep [symmetric] using new(3) by auto
    then show ?thesis using run False new(2) by (intro exI [of _ new]) (simp add: q_def)
  qed
qed simp

section \<open>Kahn's invariant\<close>

text \<open>
  For distinct identifiers and known dependencies: the counter of a task is the number of its
  dependencies not yet visited, the queue holds each unvisited task without such
  dependencies once, and the result lists the visited tasks, dependencies first.
\<close>

definition open_deps :: "Task \<Rightarrow> string set \<Rightarrow> nat" where
  "open_deps t visited = length (filter (\<lambda>d. d \<notin> visited) (t_DependsOn t))"

definition deps_before :: "Task list \<Rightarrow> bool" where
  "deps_before ts \<longleftrightarrow> (\<forall>i < length ts. \<forall>d \<in> set (t_DependsOn (ts ! i)). \<exists>j < i. t_ID (ts ! j) = d)"

definition kahn_inv ::
    "Task list \<Rightarrow> string list \<Rightarrow> (string \<Rightarrow> int) \<Rightarrow> string set \<Rightarrow> Task list \<Rightarrow> bool" where
  "kahn_inv tasks queue inDegree visited result \<longleftrightarrow>
     (\<forall>t\<in>set tasks. inDegree (t_ID t) = int (open_deps t visited)) \<and>
     distinct queue \<and>
     set queue = {t_ID t | t. t \<in> set tasks \<and> t_ID t \<notin> visited \<and> open_deps t visited = 0} \<and>
     set result \<subseteq> set tasks \<and> distinct (map t_ID result) \<and> t_ID ` set result = visited \<and>
     deps_before result"

lemma open_deps_insert:
  "c \<notin> visited \<Longrightarrow> open_deps t visited = open_deps t (insert c visited) + count_list (t_DependsOn t) c"
proof -
  assume "c \<notin> visited"
  then have "length (filter (\<lambda>d. d \<notin> visited) ds)
      = length (filter (\<lambda>d. d \<notin> insert c visited) ds) + count_list ds c" for ds
    by (induction ds) auto
  then show ?thesis by (simp add: open_deps_def)
qed

lemma count_dependents:
  assumes "distinct (map t_ID tasks)" "t \<in> set tasks"
  shows "count_list (dependents tasks c) (t_ID t) = count_list (t_DependsOn t) c"
proof -
  have other: "count_list (concat (map (\<lambda>t. replicate (count_list (t_DependsOn t) c) (t_ID t)) ts)) k = 0"
    if "k \<notin> t_ID ` set ts" for ts :: "Task list" and k
    using that by (induction ts) (auto simp: count_list_append count_list_0_iff)
  have "count_list (concat (map (\<lambda>t. replicate (count_list (t_DependsOn t) c) (t_ID t)) ts)) (t_ID t)
      = count_list (t_DependsOn t) c" if "distinct (map t_ID ts)" "t \<in> set ts" for ts :: "Task list"
    using that
  proof (induction ts)
    case (Cons u us)
    have rep: "count_list (replicate n x) x = n" for n and x :: string by (induction n) auto
    show ?case
    proof (cases "t = u")
      case True
      then show ?thesis using Cons.prems other [of "t_ID t" us] by (simp add: count_list_append rep)
    next
      case False
      then have "t_ID u \<noteq> t_ID t" using Cons.prems by auto
      then have "count_list (replicate n (t_ID u)) (t_ID t) = 0" for n by (simp add: count_list_0_iff)
      then show ?thesis using False Cons by (simp add: count_list_append)
    qed
  qed simp
  then show ?thesis using assms by (simp add: dependents_eq)
qed

lemma dependents_subset: "set (dependents tasks c) \<subseteq> t_ID ` set tasks"
  by (auto simp: dependents_eq)

lemma deps_before_snoc:
  "deps_before (ts @ [t]) \<longleftrightarrow> deps_before ts \<and> set (t_DependsOn t) \<subseteq> t_ID ` set ts"
proof -
  have "(\<exists>j < length ts. t_ID (ts ! j) = d) \<longleftrightarrow> d \<in> t_ID ` set ts" for d
    by (metis (no_types, lifting) image_iff in_set_conv_nth)
  then show ?thesis
    unfolding deps_before_def
    by (auto simp: nth_append less_Suc_eq all_conj_distrib subset_iff cong: conj_cong)
qed

lemma deps_before_closed: "deps_before ts \<Longrightarrow> t \<in> set ts \<Longrightarrow> set (t_DependsOn t) \<subseteq> t_ID ` set ts"
proof
  fix d assume "deps_before ts" "t \<in> set ts" "d \<in> set (t_DependsOn t)"
  then obtain i j where "i < length ts" "j < i" "t_ID (ts ! j) = d"
    by (metis deps_before_def in_set_conv_nth)
  then show "d \<in> t_ID ` set ts" by (metis imageI less_trans nth_mem)
qed

lemma kahn_inv_step:
  assumes dist: "distinct (map t_ID tasks)"
    and inv: "kahn_inv tasks (c # queue) inDegree visited result"
    and rel: "release_deps (dependents tasks c) inDegree queue = (inDegree', queue')"
  shows "c \<notin> visited"
    and "\<exists>t. taskMap tasks c = Some t \<and>
           kahn_inv tasks queue' inDegree' (insert c visited) (result @ [t])"
proof -
  have deg: "inDegree (t_ID t) = int (open_deps t visited)" if "t \<in> set tasks" for t
    using inv that by (simp add: kahn_inv_def)
  have q: "distinct (c # queue)"
      "set (c # queue) = {t_ID t | t. t \<in> set tasks \<and> t_ID t \<notin> visited \<and> open_deps t visited = 0}"
    and res: "set result \<subseteq> set tasks" "distinct (map t_ID result)" "t_ID ` set result = visited"
      "deps_before result"
    using inv by (simp_all add: kahn_inv_def)
  have "c \<in> set (c # queue)" by simp
  then obtain tc where tc: "tc \<in> set tasks" "t_ID tc = c" "open_deps tc visited = 0" and cv: "c \<notin> visited"
    unfolding q(2) by auto
  show "c \<notin> visited" by (fact cv)
  have look: "taskMap tasks c = Some tc" using taskMap_distinct [OF dist tc(1)] tc(2) by simp
  have deps: "set (t_DependsOn tc) \<subseteq> visited"
    using tc(3) by (auto simp: open_deps_def filter_empty_conv)
  have cnt: "count_list (dependents tasks c) (t_ID t) = count_list (t_DependsOn t) c" if "t \<in> set tasks" for t
    using count_dependents [OF dist that] .
  have deg': "inDegree' (t_ID t) = int (open_deps t (insert c visited))" if "t \<in> set tasks" for t
    using release_deps_inDegree [of "dependents tasks c" inDegree queue "t_ID t"] rel deg [OF that]
      cnt [OF that] open_deps_insert [OF cv, of t] by simp
  have inset: "k \<in> set (dependents tasks c) \<longleftrightarrow> (\<exists>t\<in>set tasks. t_ID t = k \<and> c \<in> set (t_DependsOn t))" for k
  proof -
    have "replicate n x = [] \<longleftrightarrow> n = 0" for n and x :: string by simp
    then show ?thesis by (auto simp: dependents_eq count_list_0_iff)
  qed
  have le: "\<forall>k\<in>set (dependents tasks c). int (count_list (dependents tasks c) k) \<le> inDegree k"
    using deg cnt open_deps_insert [OF cv] by (auto simp: inset)
  obtain new where new: "queue' = queue @ new" "distinct new"
      "set new = {k \<in> set (dependents tasks c). inDegree k = int (count_list (dependents tasks c) k)}"
    using release_deps_queue [OF le, of queue] rel by auto
  have new_iff: "set new = {t_ID t | t. t \<in> set tasks \<and> c \<in> set (t_DependsOn t) \<and> open_deps t (insert c visited) = 0}"
    unfolding new(3) using deg cnt open_deps_insert [OF cv] by (fastforce simp: inset)
  have old: "open_deps t visited = 0 \<longleftrightarrow> open_deps t (insert c visited) = 0 \<and> c \<notin> set (t_DependsOn t)" for t
    using open_deps_insert [OF cv, of t] by (simp add: count_list_0_iff)
  have uniq: "t = u" if "t \<in> set tasks" "u \<in> set tasks" "t_ID t = t_ID u" for t u
    using taskMap_distinct [OF dist] that by (metis option.inject)
  have fresh: "t_ID t \<notin> visited" if "t \<in> set tasks" "c \<in> set (t_DependsOn t)" for t
  proof
    assume "t_ID t \<in> visited"
    then obtain u where u: "u \<in> set result" "t_ID u = t_ID t" using res(3) by auto
    then have "u = t" using res(1) that(1) uniq by blast
    with u deps_before_closed [OF res(4)] that(2) res(3) cv show False by blast
  qed
  have self_dep: "c \<notin> set (t_DependsOn tc)" using deps cv by auto
  have cq: "c \<notin> set queue" "set queue = {t_ID t | t. t \<in> set tasks \<and> t_ID t \<notin> insert c visited \<and> open_deps t visited = 0}"
    using q cv by (auto 0 3 dest: equalityD1 [THEN subsetD])
  have queue': "set queue' = {t_ID t | t. t \<in> set tasks \<and> t_ID t \<notin> insert c visited \<and> open_deps t (insert c visited) = 0}"
    unfolding new(1) set_append cq(2) new_iff using old fresh uniq tc self_dep by blast
  have dq: "distinct queue'"
    using q(1) new(2) old uniq unfolding new(1) distinct_append cq(2) new_iff by auto
  have "kahn_inv tasks queue' inDegree' (insert c visited) (result @ [tc])"
    unfolding kahn_inv_def using deg' dq queue' res tc cv deps by (auto simp: deps_before_snoc)
  with look show "\<exists>t. taskMap tasks c = Some t \<and> kahn_inv tasks queue' inDegree' (insert c visited) (result @ [t])"
    by blast
qed

lemma kahn_result:
  "distinct (map t_ID tasks) \<Longrightarrow> kahn_inv tasks queue inDegree visited result \<Longrightarrow>
     \<exists>inDegree' visited'. kahn_inv tasks [] inDegree' visited' (kahn tasks queue inDegree visited result)"
proof (induction tasks queue inDegree visited result rule: kahn.induct)
  case (1 tasks inDegree visited result)
  then show ?case by auto
next
  case (2 tasks c queue inDegree visited result)
  obtain inDegree' queue' where rel: "release_deps (dependents tasks c) inDegree queue = (inDegree', queue')"
    by fastforce
  note step = kahn_inv_step [OF 2(3,4) rel]
  then obtain t where t: "taskMap tasks c = Some t"
      "kahn_inv tasks queue' inDegree' (insert c visited) (result @ [t])" by blast
  then show ?case
    using 2(2) [OF step(1) rel [symmetric] refl 2(3)] step(1) rel by simp
qed

lemma release_deps_subset: "set (snd (release_deps ds inDegree queue)) \<subseteq> set ds \<union> set queue"
proof (induction ds arbitrary: inDegree queue)
  case (Cons d ds)
  define deg where "deg = inDegree(d := inDegree d - 1)"
  have "release_deps (d # ds) inDegree queue = release_deps ds deg (if deg d = 0 then queue @ [d] else queue)"
    by (simp only: release_deps.simps Let_def deg_def)
  then show ?case
    using Cons [of deg "queue @ [d]"] Cons [of deg queue] by (cases "deg d = 0") auto
qed simp

lemma kahn_length:
  "set queue \<subseteq> t_ID ` set tasks \<Longrightarrow> visited \<subseteq> t_ID ` set tasks \<Longrightarrow>
     length (kahn tasks queue inDegree visited result) \<le> length result + card (t_ID ` set tasks - visited)"
proof (induction tasks queue inDegree visited result rule: kahn.induct)
  case (2 tasks c queue inDegree visited result)
  obtain inDegree' queue' where rel: "release_deps (dependents tasks c) inDegree queue = (inDegree', queue')"
    by fastforce
  have "set queue' \<subseteq> set (dependents tasks c) \<union> set queue"
    using release_deps_subset [of "dependents tasks c" inDegree queue] by (simp only: rel snd_conv)
  also have "\<dots> \<subseteq> t_ID ` set tasks"
    using dependents_subset [of tasks c] 2(3) by simp
  finally have q': "set queue' \<subseteq> t_ID ` set tasks" .
  show ?case
  proof (cases "c \<in> visited")
    case True
    then show ?thesis using 2(1) 2(3,4) by simp
  next
    case False
    have c: "c \<in> t_ID ` set tasks - visited" using False 2(3) by simp
    have "card (t_ID ` set tasks - visited) = Suc (card (t_ID ` set tasks - insert c visited))"
      using card_Suc_Diff1 [OF _ c] by (simp only: Diff_insert [of _ c visited] finite_Diff finite_imageI List.finite_set)
    moreover have "insert c visited \<subseteq> t_ID ` set tasks" using c 2(4) by simp
    ultimately show ?thesis
      using 2(2) [OF False rel [symmetric] refl q'] False
      by (simp only: kahn.simps rel Let_def prod.case if_False length_append_singleton add_Suc add_Suc_right)
  qed
qed simp

lemma kahn_inv_done:
  assumes dist: "distinct (map t_ID tasks)" and closed: "deps_closed tasks" and acyc: "acyclic (dep_rel tasks)"
    and inv: "kahn_inv tasks [] inDegree visited result"
  shows "visited = t_ID ` set tasks"
proof (rule ccontr)
  assume "visited \<noteq> t_ID ` set tasks"
  moreover have sub: "visited \<subseteq> t_ID ` set tasks" using inv by (auto simp: kahn_inv_def)
  ultimately have "t_ID ` set tasks - visited \<noteq> {}" by auto
  moreover have "wf ((dep_rel tasks)\<inverse>)"
    using acyc finite_dep_rel finite_acyclic_wf_converse by blast
  ultimately obtain k where k: "k \<in> t_ID ` set tasks - visited"
      "\<And>d. (d, k) \<in> (dep_rel tasks)\<inverse> \<Longrightarrow> d \<notin> t_ID ` set tasks - visited"
    by (meson wfE_min')
  then obtain t where t: "t \<in> set tasks" "t_ID t = k" by auto
  have "d \<in> visited" if "d \<in> set (t_DependsOn t)" for d
    using that k(2) [of d] t closed taskMap_distinct [OF dist t(1)]
    by (auto simp: dep_rel_def deps_closed_def)
  then have "open_deps t visited = 0" by (simp add: open_deps_def)
  then show False using inv t k(1) by (auto simp: kahn_inv_def)
qed

lemma inDegree0_eq:
  assumes "distinct (map t_ID tasks)" "t \<in> set tasks"
  shows "inDegree0 tasks (t_ID t) = int (length (t_DependsOn t))"
proof -
  have "fold (\<lambda>t m. m(t_ID t := int (length (t_DependsOn t)))) ts m (t_ID t) =
      (if t \<in> set ts then int (length (t_DependsOn t)) else m (t_ID t))"
    if "distinct (map t_ID ts)" "t \<in> set ts \<or> t_ID t \<notin> t_ID ` set ts" for ts :: "Task list" and m
    using that by (induction ts arbitrary: m) (auto simp: image_iff)
  then show ?thesis using assms by (simp add: inDegree0_def)
qed

lemma kahn_inv_init:
  assumes "distinct (map t_ID tasks)" "distinct order" "set order = t_ID ` set tasks"
  shows "kahn_inv tasks (filter (\<lambda>k. inDegree0 tasks k = 0) order) (inDegree0 tasks) {} []"
  using assms inDegree0_eq [OF assms(1)]
  by (auto simp: kahn_inv_def open_deps_def deps_before_def)

text \<open>The sort of a valid DAG: a permutation of the tasks, dependencies first.\<close>

lemma kahn_sorts:
  assumes dist: "distinct (map t_ID tasks)" and closed: "deps_closed tasks" and acyc: "acyclic (dep_rel tasks)"
    and order: "distinct order" "set order = t_ID ` set tasks"
  defines "res \<equiv> kahn tasks (filter (\<lambda>k. inDegree0 tasks k = 0) order) (inDegree0 tasks) {} []"
  shows "mset res = mset tasks \<and> deps_before res"
proof -
  obtain inDegree visited where inv: "kahn_inv tasks [] inDegree visited res"
    using kahn_result [OF dist kahn_inv_init [OF dist order]] by (auto simp: res_def)
  then have res: "set res \<subseteq> set tasks" "distinct (map t_ID res)" "t_ID ` set res = t_ID ` set tasks" "deps_before res"
    using kahn_inv_done [OF dist closed acyc inv] by (auto simp: kahn_inv_def)
  have "set tasks \<subseteq> set res"
    using res(1,3) dist by (metis (no_types, opaque_lifting) distinct_map inj_on_image_mem_iff subsetI imageI)
  then show ?thesis
    using res dist by (auto simp: set_eq_iff_mset_eq_distinct [symmetric] distinct_map)
qed

lemma TopologicalSort_Ok:
  assumes order: "distinct order" "set order = t_ID ` set tasks" and ok: "TopologicalSort order tasks = Ok res"
  shows "distinct (map t_ID tasks) \<and> deps_closed tasks \<and> acyclic (dep_rel tasks) \<and>
     mset res = mset tasks \<and> deps_before res"
proof -
  let ?q = "filter (\<lambda>k. inDegree0 tasks k = 0) order"
  have parts: "ValidateDependenciesExist tasks = Ok ()" "ValidateDAG tasks = Ok ()"
      "res = kahn tasks ?q (inDegree0 tasks) {} []" "length res = length tasks"
    using ok by (auto simp: TopologicalSort_def Let_def split: sum.splits if_splits)
  have "length tasks \<le> card (t_ID ` set tasks)"
    using kahn_length [of ?q tasks "{}" "inDegree0 tasks" "[]"] parts(3,4) order by auto
  then have dist: "distinct (map t_ID tasks)"
    by (intro card_distinct) (metis antisym card_length length_map list.set_map)
  moreover have "deps_closed tasks" "acyclic (dep_rel tasks)"
    using parts ValidateDependenciesExist_iff ValidateDAG_sound by auto
  ultimately show ?thesis using kahn_sorts order parts(3) by blast
qed

lemma TopologicalSort_total:
  assumes "distinct order" "set order = t_ID ` set tasks"
    and "distinct (map t_ID tasks)" "deps_closed tasks" "acyclic (dep_rel tasks)"
  shows "\<exists>res. TopologicalSort order tasks = Ok res"
proof -
  have "length (kahn tasks (filter (\<lambda>k. inDegree0 tasks k = 0) order) (inDegree0 tasks) {} []) = length tasks"
    using kahn_sorts assms by (metis size_mset)
  moreover have "ValidateDependenciesExist tasks = Ok ()" "ValidateDAG tasks = Ok ()"
    using assms ValidateDependenciesExist_iff ValidateDAG_complete by auto
  ultimately show ?thesis by (simp add: TopologicalSort_def Let_def)
qed

section \<open>Ready tasks\<close>

lemma deps_satisfied_iff:
  "deps_satisfied completed t \<longleftrightarrow> (\<forall>d\<in>set (t_DependsOn t). \<exists>s. completed d = Some s \<and> IsTerminal s)"
  by (auto simp: deps_satisfied_def list_all_iff split: option.splits)

lemma GetReadyTasks_mem:
  "t \<in> set (GetReadyTasks tasks completed) \<longleftrightarrow>
     t \<in> set tasks \<and> \<not> IsTerminal (t_State t) \<and>
     (\<forall>d\<in>set (t_DependsOn t). \<exists>s. completed d = Some s \<and> IsTerminal s)"
  by (auto simp: GetReadyTasks_def deps_satisfied_iff)

section \<open>Properties\<close>

text \<open>
  C3. For every order in which the map of in-degrees is visited, \<open>TopologicalSort\<close> succeeds
  exactly when identifiers are distinct, dependencies exist and there is no cycle, and then
  returns a permutation of the tasks in which every task comes after its dependencies.
\<close>

theorem TopologicalSort_correct:
  assumes "distinct order" "set order = t_ID ` set tasks"
  shows "case TopologicalSort order tasks of
      Ok res \<Rightarrow> distinct (map t_ID tasks) \<and> deps_closed tasks \<and> acyclic (dep_rel tasks) \<and>
        mset res = mset tasks \<and> deps_before res
    | Err e \<Rightarrow> \<not> (distinct (map t_ID tasks) \<and> deps_closed tasks \<and> acyclic (dep_rel tasks))"
  using TopologicalSort_Ok [OF assms] TopologicalSort_total [OF assms]
  by (cases "TopologicalSort order tasks") auto

lemma TopologicalSort_correct_witness:
  "\<exists>res. TopologicalSort [''a'', ''b''] [Task_zero\<lparr>t_ID := ''a'', t_DependsOn := [''b'']\<rparr>, Task_zero\<lparr>t_ID := ''b''\<rparr>] = Ok res \<and>
     map t_ID res = [''b'', ''a''] \<and> deps_before res"
proof -
  let ?ts = "[Task_zero\<lparr>t_ID := ''a'', t_DependsOn := [''b'']\<rparr>, Task_zero\<lparr>t_ID := ''b''\<rparr>]"
  have ok: "TopologicalSort [''a'', ''b''] ?ts
      = Ok [Task_zero\<lparr>t_ID := ''b''\<rparr>, Task_zero\<lparr>t_ID := ''a'', t_DependsOn := [''b'']\<rparr>]"
    by (simp add: TopologicalSort_def ValidateDependenciesExist_def ValidateDAG_def dfs.simps taskMap_def
        Task_zero_def inDegree0_def dependents_def Let_def)
  have "distinct [''a'', ''b'']" "set [''a'', ''b''] = t_ID ` set ?ts" by auto
  from TopologicalSort_correct [OF this] ok show ?thesis by simp
qed

text \<open>
  C25. \<open>GetReadyTasks\<close> keeps the order of its input and returns exactly the tasks that are not
  finished and all of whose dependencies are recorded as finished; on a valid DAG with
  unfinished tasks whose finished tasks are recorded there is always one, so a workflow never
  stalls for lack of a ready task.
\<close>

theorem GetReadyTasks_progress:
  assumes "distinct (map t_ID tasks)" "deps_closed tasks" "acyclic (dep_rel tasks)"
    and "\<forall>t\<in>set tasks. IsTerminal (t_State t) \<longrightarrow> completed (t_ID t) = Some (t_State t)"
    and "\<exists>t\<in>set tasks. \<not> IsTerminal (t_State t)"
  shows "\<exists>t\<in>set (GetReadyTasks tasks completed). \<not> IsTerminal (t_State t) \<and>
    (\<forall>d\<in>set (t_DependsOn t). \<exists>s. completed d = Some s \<and> IsTerminal s)"
proof -
  let ?open = "t_ID ` {t \<in> set tasks. \<not> IsTerminal (t_State t)}"
  have "wf ((dep_rel tasks)\<inverse>)"
    using assms(3) finite_dep_rel finite_acyclic_wf_converse by blast
  moreover have "?open \<noteq> {}" using assms(5) by auto
  ultimately obtain k where k: "k \<in> ?open" "\<And>d. (d, k) \<in> (dep_rel tasks)\<inverse> \<Longrightarrow> d \<notin> ?open"
    by (meson wfE_min')
  then obtain t where t: "t \<in> set tasks" "t_ID t = k" "\<not> IsTerminal (t_State t)" by auto
  have "\<exists>s. completed d = Some s \<and> IsTerminal s" if d: "d \<in> set (t_DependsOn t)" for d
  proof -
    have "(k, d) \<in> dep_rel tasks"
      using d t taskMap_distinct [OF assms(1) t(1)] by (simp add: dep_rel_def)
    then have "d \<notin> ?open" using k(2) by simp
    moreover obtain u where u: "u \<in> set tasks" "t_ID u = d"
      using d t(1) assms(2) by (force simp: deps_closed_def)
    ultimately have "IsTerminal (t_State u)" by auto
    with u assms(4) show ?thesis by auto
  qed
  with t show ?thesis by (auto simp: GetReadyTasks_mem)
qed

lemma GetReadyTasks_progress_witness:
  "GetReadyTasks [Task_zero\<lparr>t_ID := ''a''\<rparr>] Map.empty = [Task_zero\<lparr>t_ID := ''a''\<rparr>] \<and>
   (\<exists>t\<in>set (GetReadyTasks [Task_zero\<lparr>t_ID := ''a''\<rparr>] Map.empty). \<not> IsTerminal (t_State t))"
proof -
  have "dep_rel [Task_zero\<lparr>t_ID := ''a''\<rparr>] = {}"
    by (auto simp: dep_rel_def taskMap_def Task_zero_def split: if_splits)
  then have "acyclic (dep_rel [Task_zero\<lparr>t_ID := ''a''\<rparr>])" by (simp add: acyclic_def)
  from GetReadyTasks_progress [OF _ _ this, of Map.empty] show ?thesis
    by (simp add: deps_closed_def Task_zero_def GetReadyTasks_def deps_satisfied_def)
qed

end
