(* ===== verification/Storage.thy ===== *)
theory Storage
  imports Prelude
begin

text \<open>
  The key-value store under every in-memory repository (\<^verbatim>\<open>pkg/storage/memory.go\<close>) and the
  contract \<^verbatim>\<open>pkg/storage/storage.go\<close> gives it. The Go map is an association list without
  duplicate keys; no operation depends on its order, since \<open>List\<close> sorts the keys. The mutex
  makes each operation atomic: an operation is one function of the state.
\<close>

section \<open>Definitions\<close>

type_synonym 'v storage = "(string \<times> 'v) list"

definition NewInMemoryStorage :: "'v storage" where
  "NewInMemoryStorage = []"

definition storage_Create :: "string \<Rightarrow> 'v \<Rightarrow> 'v storage \<Rightarrow> unit result \<times> 'v storage" where
  "storage_Create key v s =
     (if key = [] then (Err (Sentinel ErrEmptyKey), s)
      else case map_of s key of
             Some _ \<Rightarrow> (Err (Sentinel ErrEntityExists), s)
           | None \<Rightarrow> (Ok (), AList.update key v s))"

definition storage_Get :: "string \<Rightarrow> 'v storage \<Rightarrow> 'v result" where
  "storage_Get key s =
     (if key = [] then Err (Sentinel ErrEmptyKey)
      else case map_of s key of
             Some v \<Rightarrow> Ok v
           | None \<Rightarrow> Err (Sentinel ErrNotFound))"

definition storage_Update :: "string \<Rightarrow> 'v \<Rightarrow> 'v storage \<Rightarrow> unit result \<times> 'v storage" where
  "storage_Update key v s =
     (if key = [] then (Err (Sentinel ErrEmptyKey), s)
      else case map_of s key of
             None \<Rightarrow> (Err (Sentinel ErrNotFound), s)
           | Some _ \<Rightarrow> (Ok (), AList.update key v s))"

text \<open>The keys in sorted order, and the values in that order.\<close>

definition storage_keys :: "'v storage \<Rightarrow> string list" where
  "storage_keys s = sort (map fst s)"

definition storage_values :: "'v storage \<Rightarrow> 'v list" where
  "storage_values s = map (\<lambda>k. the (map_of s k)) (storage_keys s)"

text \<open>
  \<open>offset+limit\<close> is unsigned 64-bit arithmetic. When it wraps around, \<open>end\<close> is below \<open>offset\<close>
  and \<open>make([]any, end-offset)\<close> panics on the length.
\<close>

definition storage_List :: "u64 \<Rightarrow> u64 \<Rightarrow> 'v storage \<Rightarrow> ('v list \<times> u64) result" where
  "storage_List offset limit s =
     (let keys = storage_keys s;
          total = u64_len keys
      in if total \<le> offset then Ok ([], total)
         else let hi = min (offset + limit) total
              in case slice_u64 keys offset hi of
                   Err e \<Rightarrow> Err e
                 | Ok ks \<Rightarrow> Ok (map (\<lambda>k. the (map_of s k)) ks, total))"

definition storage_Delete :: "string \<Rightarrow> 'v storage \<Rightarrow> unit result \<times> 'v storage" where
  "storage_Delete key s =
     (if key = [] then (Err (Sentinel ErrEmptyKey), s) else (Ok (), AList.delete key s))"

section \<open>The invariant of the representation\<close>

definition storage_inv :: "'v storage \<Rightarrow> bool" where
  "storage_inv s \<longleftrightarrow> distinct (map fst s) \<and> [] \<notin> fst ` set s"

lemma storage_inv_empty [simp]: "storage_inv NewInMemoryStorage" "map_of NewInMemoryStorage = Map.empty"
  by (simp_all add: storage_inv_def NewInMemoryStorage_def)

lemma storage_inv_update: "storage_inv s \<Longrightarrow> k \<noteq> [] \<Longrightarrow> storage_inv (AList.update k v s)"
  by (simp add: storage_inv_def distinct_update flip: dom_map_of_conv_image_fst)
    (simp add: update_conv')

lemma storage_inv_delete: "storage_inv s \<Longrightarrow> storage_inv (AList.delete k s)"
  by (simp add: storage_inv_def distinct_delete flip: dom_map_of_conv_image_fst)
    (simp add: delete_conv')

lemma storage_Create_inv: "storage_inv s \<Longrightarrow> storage_inv (snd (storage_Create k v s))"
  by (auto simp: storage_Create_def storage_inv_update split: option.splits)

lemma storage_Update_inv: "storage_inv s \<Longrightarrow> storage_inv (snd (storage_Update k v s))"
  by (auto simp: storage_Update_def storage_inv_update split: option.splits)

lemma storage_Delete_inv: "storage_inv s \<Longrightarrow> storage_inv (snd (storage_Delete k s))"
  by (auto simp: storage_Delete_def storage_inv_delete)

section \<open>The contract\<close>

text \<open>
  What a key-value store promises to its client: it behaves as a partial function from
  non-empty keys to values, and \<open>list\<close> pages through the values in the order of the keys.
\<close>

locale kv_store =
  fixes create :: "string \<Rightarrow> 'v \<Rightarrow> 's \<Rightarrow> unit result \<times> 's"
    and get :: "string \<Rightarrow> 's \<Rightarrow> 'v result"
    and upd :: "string \<Rightarrow> 'v \<Rightarrow> 's \<Rightarrow> unit result \<times> 's"
    and del :: "string \<Rightarrow> 's \<Rightarrow> unit result \<times> 's"
    and list :: "u64 \<Rightarrow> u64 \<Rightarrow> 's \<Rightarrow> ('v list \<times> u64) result"
    and abs :: "'s \<Rightarrow> string \<Rightarrow> 'v option"
    and inv :: "'s \<Rightarrow> bool"
  assumes create_ok: "inv s \<Longrightarrow> k \<noteq> [] \<Longrightarrow> abs s k = None \<Longrightarrow>
      fst (create k v s) = Ok () \<and> inv (snd (create k v s)) \<and> abs (snd (create k v s)) = (abs s)(k \<mapsto> v)"
    and create_err: "inv s \<Longrightarrow> k = [] \<or> abs s k \<noteq> None \<Longrightarrow>
      create k v s = (Err (Sentinel (if k = [] then ErrEmptyKey else ErrEntityExists)), s)"
    and get_abs: "inv s \<Longrightarrow> get k s = (if k = [] then Err (Sentinel ErrEmptyKey) else
      case abs s k of None \<Rightarrow> Err (Sentinel ErrNotFound) | Some v \<Rightarrow> Ok v)"
    and upd_ok: "inv s \<Longrightarrow> k \<noteq> [] \<Longrightarrow> abs s k \<noteq> None \<Longrightarrow>
      fst (upd k v s) = Ok () \<and> inv (snd (upd k v s)) \<and> abs (snd (upd k v s)) = (abs s)(k \<mapsto> v)"
    and upd_err: "inv s \<Longrightarrow> k = [] \<or> abs s k = None \<Longrightarrow>
      upd k v s = (Err (Sentinel (if k = [] then ErrEmptyKey else ErrNotFound)), s)"
    and del_abs: "inv s \<Longrightarrow> k \<noteq> [] \<Longrightarrow>
      fst (del k s) = Ok () \<and> inv (snd (del k s)) \<and> abs (snd (del k s)) = (abs s)(k := None)"
    and del_err: "del [] s = (Err (Sentinel ErrEmptyKey), s)"
    and finite_abs: "inv s \<Longrightarrow> finite (dom (abs s))"
    and list_abs: "inv s \<Longrightarrow> card (dom (abs s)) < 2 ^ 64 \<Longrightarrow> unat off + unat lim < 2 ^ 64 \<Longrightarrow>
      list off lim s = Ok (take (unat lim) (drop (unat off)
          (map (\<lambda>k. the (abs s k)) (sorted_list_of_set (dom (abs s))))),
        word_of_nat (card (dom (abs s))))"
begin

lemma get_after_create:
  assumes "inv s" "k \<noteq> []" "abs s k = None"
  shows "get k' (snd (create k v s)) = (if k' = k then Ok v else get k' s)"
  using create_ok [OF assms, of v] get_abs [of s k'] get_abs [of "snd (create k v s)" k'] assms by auto

lemma get_after_upd:
  assumes "inv s" "k \<noteq> []" "abs s k \<noteq> None"
  shows "get k' (snd (upd k v s)) = (if k' = k then Ok v else get k' s)"
  using upd_ok [OF assms, of v] get_abs [of s k'] get_abs [of "snd (upd k v s)" k'] assms by auto

lemma get_after_del:
  assumes "inv s" "k \<noteq> []"
  shows "get k' (snd (del k s)) = (if k' = k then Err (Sentinel ErrNotFound) else get k' s)"
  using del_abs [OF assms] get_abs [of s k'] get_abs [of "snd (del k s)" k'] assms by auto

text \<open>Deleting a freshly created entry restores every answer.\<close>

lemma create_del_undo:
  assumes "inv s" "k \<noteq> []" "abs s k = None"
  shows "abs (snd (del k (snd (create k v s)))) = abs s"
proof -
  have "abs (snd (del k (snd (create k v s)))) = ((abs s)(k \<mapsto> v))(k := None)"
    using create_ok [OF assms, of v] del_abs [of "snd (create k v s)" k] assms(2) by simp
  with assms(3) show ?thesis by auto
qed

end

section \<open>The in-memory store keeps the contract\<close>

lemma storage_keys_sorted: "storage_inv s \<Longrightarrow> storage_keys s = sorted_list_of_set (dom (map_of s))"
  by (metis dom_map_of_conv_image_fst list.set_map sorted_list_of_set_sort_remdups distinct_remdups_id
      storage_inv_def storage_keys_def)

lemma storage_keys_set [simp]: "set (storage_keys s) = dom (map_of s)"
  by (simp add: storage_keys_def dom_map_of_conv_image_fst)

lemma storage_keys_length [simp]: "length (storage_keys s) = length s"
  by (simp add: storage_keys_def)

lemma storage_keys_distinct [simp]: "storage_inv s \<Longrightarrow> distinct (storage_keys s)"
  by (simp add: storage_keys_def storage_inv_def)

lemma storage_List_page:
  assumes "length s < 2 ^ 64" "unat off + unat lim < 2 ^ 64"
  shows "storage_List off lim s =
    Ok (take (unat lim) (drop (unat off) (storage_values s)), u64_len (storage_values s))"
proof (cases "u64_len (storage_keys s) \<le> off")
  case True
  then have "length s \<le> unat off"
    using assms(1) by (simp add: word_le_nat_alt)
  then show ?thesis
    using True by (simp add: storage_List_def Let_def storage_values_def u64_len_def)
next
  case False
  then show ?thesis
    using slice_page [of "storage_keys s" off lim] assms
    by (simp add: storage_List_def Let_def storage_values_def u64_len_def take_map drop_map)
qed

lemma storage_card: "storage_inv s \<Longrightarrow> card (dom (map_of s)) = length s"
  by (metis distinct_card length_map list.set_map dom_map_of_conv_image_fst storage_inv_def)

interpretation mem: kv_store storage_Create storage_Get storage_Update storage_Delete storage_List map_of storage_inv
proof (unfold_locales, goal_cases)
  case (1 s k v)
  then show ?case by (simp add: storage_Create_def storage_inv_update update_conv')
next
  case (2 s k v)
  then show ?case by (auto simp: storage_Create_def)
next
  case (3 s k)
  then show ?case by (simp add: storage_Get_def)
next
  case (4 s k v)
  then show ?case by (auto simp: storage_Update_def storage_inv_update update_conv')
next
  case (5 s k v)
  then show ?case by (auto simp: storage_Update_def)
next
  case (6 s k)
  then show ?case by (simp add: storage_Delete_def storage_inv_delete delete_conv')
next
  case (7 s)
  then show ?case by (simp add: storage_Delete_def)
next
  case (8 s)
  then show ?case by (simp add: finite_dom_map_of)
next
  case (9 s off lim)
  then show ?case
    using storage_List_page [of s off lim] storage_card [of s]
    by (simp add: storage_values_def storage_keys_sorted u64_len_def)
qed

lemma storage_keys_update:
  "storage_inv s \<Longrightarrow> map_of s k \<noteq> None \<Longrightarrow>
     storage_keys (AList.update k v s) = storage_keys s"
  by (simp add: storage_keys_def update_keys map_of_eq_None_iff)

lemma storage_values_set:
  "storage_inv s \<Longrightarrow> set (storage_values s) = ran (map_of s)"
  by (force simp: storage_values_def ran_def image_iff dom_def)

section \<open>Refinement of a partial function\<close>

text \<open>
  The abstract specification: a partial function from non-empty keys to values, changed by
  one operation at a time.
\<close>

datatype 'v kv_op = OpCreate string 'v | OpUpdate string 'v | OpDelete string

fun kv_step :: "'v kv_op \<Rightarrow> 'v storage \<Rightarrow> unit result \<times> 'v storage" where
  "kv_step (OpCreate k v) s = storage_Create k v s"
| "kv_step (OpUpdate k v) s = storage_Update k v s"
| "kv_step (OpDelete k) s = storage_Delete k s"

fun spec_step :: "'v kv_op \<Rightarrow> (string \<rightharpoonup> 'v) \<Rightarrow> unit result \<times> (string \<rightharpoonup> 'v)" where
  "spec_step (OpCreate k v) m =
     (if k = [] then (Err (Sentinel ErrEmptyKey), m)
      else if k \<in> dom m then (Err (Sentinel ErrEntityExists), m) else (Ok (), m(k \<mapsto> v)))"
| "spec_step (OpUpdate k v) m =
     (if k = [] then (Err (Sentinel ErrEmptyKey), m)
      else if k \<in> dom m then (Ok (), m(k \<mapsto> v)) else (Err (Sentinel ErrNotFound), m))"
| "spec_step (OpDelete k) m =
     (if k = [] then (Err (Sentinel ErrEmptyKey), m) else (Ok (), m(k := None)))"

fun run_ops :: "('op \<Rightarrow> 's \<Rightarrow> 'r \<times> 's) \<Rightarrow> 'op list \<Rightarrow> 's \<Rightarrow> 'r list \<times> 's" where
  "run_ops step [] s = ([], s)"
| "run_ops step (x # xs) s =
     (let (r, s) = step x s; (rs, s) = run_ops step xs s in (r # rs, s))"

lemma kv_step_refines:
  assumes "storage_inv s"
  shows "storage_inv (snd (kv_step x s))"
    and "spec_step x (map_of s) = (fst (kv_step x s), map_of (snd (kv_step x s)))"
proof -
  show "storage_inv (snd (kv_step x s))"
    using assms by (cases x) (simp_all add: storage_Create_inv storage_Update_inv storage_Delete_inv)
  show "spec_step x (map_of s) = (fst (kv_step x s), map_of (snd (kv_step x s)))"
    by (cases x) (auto simp: storage_Create_def storage_Update_def storage_Delete_def update_conv' delete_conv'
        split: option.splits)
qed

lemma run_ops_refines:
  "storage_inv s \<Longrightarrow> storage_inv (snd (run_ops kv_step xs s)) \<and>
   run_ops spec_step xs (map_of s) = (fst (run_ops kv_step xs s), map_of (snd (run_ops kv_step xs s)))"
proof (induction xs arbitrary: s)
  case (Cons x xs)
  obtain r s1 where step: "kv_step x s = (r, s1)" by fastforce
  then have "storage_inv s1" "spec_step x (map_of s) = (r, map_of s1)"
    using kv_step_refines [OF Cons.prems, of x] by simp_all
  then show ?case
    using Cons.IH [of s1] step by (simp add: Let_def case_prod_beta)
qed simp

section \<open>Properties\<close>

text \<open>
  C23. Refinement: from the empty store, every sequence of creations, updates and deletions
  returns the results of the abstract partial function, and \<open>Get\<close> then answers from that
  function.
\<close>

theorem storage_refines_map:
  "let (rs, s) = run_ops kv_step xs NewInMemoryStorage; (rs', m) = run_ops spec_step xs Map.empty
   in rs = rs' \<and> (\<forall>k. storage_Get k s = (if k = [] then Err (Sentinel ErrEmptyKey)
        else case m k of None \<Rightarrow> Err (Sentinel ErrNotFound) | Some v \<Rightarrow> Ok v))"
  using run_ops_refines [of NewInMemoryStorage xs] by (auto simp: mem.get_abs Let_def split: prod.splits)

text \<open>
  C24. \<open>List\<close> panics exactly when the offset lies inside the collection and the 64-bit sum of
  offset and limit wraps around; otherwise it returns the values of the keys in order, from
  the offset and at most \<open>limit\<close> of them, with the number of all values.
\<close>

theorem storage_List_overflow:
  assumes "length s < 2 ^ 64"
  shows "storage_List off lim s =
    (if unat off < length s \<and> 2 ^ 64 \<le> unat off + unat lim then Err GoPanic
     else Ok (take (unat lim) (drop (unat off) (storage_values s)), u64_len (storage_values s)))"
proof (cases "2 ^ 64 \<le> unat off + unat lim")
  case False
  then show ?thesis using storage_List_page [OF assms, of off lim] by simp
next
  case wrap: True
  show ?thesis
  proof (cases "unat off < length s")
    case True
    have lt: "\<not> u64_len (storage_keys s) \<le> off"
      using True assms by (simp add: word_le_nat_alt)
    have "unat (off + lim) = (unat off + unat lim) mod 2 ^ 64" by (simp add: unat_word_ariths)
    also have "\<dots> = unat off + unat lim - 2 ^ 64"
    proof -
      have "unat off + unat lim - 2 ^ 64 < 2 ^ 64"
        using unat_u64_less [of off] unat_u64_less [of lim] by simp
      then show ?thesis using le_mod_geq [OF wrap] by simp
    qed
    finally have "unat (off + lim) < unat off" using unat_u64_less [of lim] wrap by simp
    then have "\<not> off \<le> off + lim" by (simp add: word_le_nat_alt)
    with lt True wrap show ?thesis by (simp add: storage_List_def Let_def slice_u64_def)
  next
    case False
    then have "u64_len (storage_keys s) \<le> off" "length (storage_values s) \<le> unat off"
      using assms by (simp_all add: word_le_nat_alt storage_values_def)
    then show ?thesis using False by (simp add: storage_List_def Let_def storage_values_def u64_len_def)
  qed
qed

lemma storage_List_overflow_witness:
  "storage_List 1 MaxUint64 [(''a'', True), (''b'', False)] = Err GoPanic"
  using storage_List_overflow [of "[(''a'', True), (''b'', False)]" 1 MaxUint64]
  by (simp add: MaxUint64_def unsigned_minus_1_eq_mask mask_nat_def)

end
