(* ===== verification/Metrics.thy ===== *)
theory Metrics
  imports Prelude
begin

text \<open>
  Typed reading of untyped messages: the accessors of \<^verbatim>\<open>pkg/maps/maps.go\<close>, the metric records of
  \<^verbatim>\<open>pkg/proplet/metrics.go\<close> and \<^verbatim>\<open>pkg/storage/metrics_types.go\<close>, and the parsers of
  \<^verbatim>\<open>manager/service.go\<close> that fill them from the float64 numbers of a decoded JSON message.
\<close>

section \<open>pkg/maps\<close>

text \<open>A nil map is \<^const>\<open>None\<close>.\<close>

definition GetString :: "anymap option \<Rightarrow> string \<Rightarrow> string \<Rightarrow> string" where
  "GetString m key def =
     (case m of
        None \<Rightarrow> def
      | Some m \<Rightarrow> (case map_of m key of
          None \<Rightarrow> def
        | Some value \<Rightarrow> (case value of AString str \<Rightarrow> str | _ \<Rightarrow> def)))"

fun strings_of :: "any list \<Rightarrow> string list" where
  "strings_of [] = []"
| "strings_of (AString s # xs) = s # strings_of xs"
| "strings_of (_ # xs) = strings_of xs"

definition GetStringSlice :: "anymap option \<Rightarrow> string \<Rightarrow> string list" where
  "GetStringSlice m key =
     (case m of
        None \<Rightarrow> []
      | Some m \<Rightarrow> (case map_of m key of
          None \<Rightarrow> []
        | Some value \<Rightarrow> (case value of
            AStrSlice ms \<Rightarrow> ms
          | ASlice mi \<Rightarrow> strings_of mi
          | _ \<Rightarrow> [])))"

definition GetMap :: "anymap option \<Rightarrow> string \<Rightarrow> anymap" where
  "GetMap m key =
     (case m of
        None \<Rightarrow> []
      | Some m \<Rightarrow> (case map_of m key of
          None \<Rightarrow> []
        | Some value \<Rightarrow> (case value of AMap sub \<Rightarrow> sub | _ \<Rightarrow> [])))"

text \<open>The conversions \<open>uint64(i)\<close> keep the bit pattern; a float64 is none of the four types.\<close>

definition GetUint64 :: "anymap option \<Rightarrow> string \<Rightarrow> u64" where
  "GetUint64 m key =
     (case m of
        None \<Rightarrow> 0
      | Some m \<Rightarrow> (case map_of m key of
          None \<Rightarrow> 0
        | Some value \<Rightarrow> (case value of
            AUint64 u \<Rightarrow> u
          | AUint u \<Rightarrow> u
          | AInt64 i \<Rightarrow> i
          | AInt i \<Rightarrow> i
          | _ \<Rightarrow> 0)))"

section \<open>Conversions of float64\<close>

text \<open>
  A float64 is read from its bit pattern: sign, 11 bits of exponent, 52 bits of fraction.
  Conversion to an integer type truncates toward zero. When the truncated value does not fit,
  the language leaves the result to the implementation: it is the argument \<open>wild\<close>.
\<close>

definition f64_neg :: "u64 \<Rightarrow> bool" where "f64_neg f \<longleftrightarrow> 2 ^ 63 \<le> unat f"
definition f64_exp :: "u64 \<Rightarrow> nat" where "f64_exp f = unat f div 2 ^ 52 mod 2 ^ 11"
definition f64_frac :: "u64 \<Rightarrow> nat" where "f64_frac f = unat f mod 2 ^ 52"

definition f64_mant :: "u64 \<Rightarrow> nat" where
  "f64_mant f = (if f64_exp f = 0 then f64_frac f else 2 ^ 52 + f64_frac f)"

definition f64_trunc :: "u64 \<Rightarrow> int option" where
  "f64_trunc f =
     (if f64_exp f = 2047 then None
      else let ex = max 1 (f64_exp f);
               n = (if 1075 \<le> ex then f64_mant f * 2 ^ (ex - 1075) else f64_mant f div 2 ^ (1075 - ex))
           in Some (if f64_neg f then - int n else int n))"

type_synonym wild = "u64 \<Rightarrow> int"

definition conv_int :: "wild \<Rightarrow> int \<Rightarrow> int \<Rightarrow> u64 \<Rightarrow> int" where
  "conv_int wild lo hi f =
     (case f64_trunc f of
        None \<Rightarrow> wild f
      | Some i \<Rightarrow> if lo \<le> i \<and> i \<le> hi then i else wild f)"

definition uint64_of :: "wild \<Rightarrow> u64 \<Rightarrow> u64" where
  "uint64_of wild f = word_of_int (conv_int wild 0 (2 ^ 64 - 1) f)"

definition int64_of :: "wild \<Rightarrow> u64 \<Rightarrow> 64 word" where
  "int64_of wild f = word_of_int (conv_int wild (- (2 ^ 63)) (2 ^ 63 - 1) f)"

definition int32_of :: "wild \<Rightarrow> u64 \<Rightarrow> 32 word" where
  "int32_of wild f = word_of_int (conv_int wild (- (2 ^ 31)) (2 ^ 31 - 1) f)"

text \<open>\<open>float32(val)\<close>: rounding to the nearest value of 24 bits, ties to even.\<close>

definition round_even :: "nat \<Rightarrow> nat \<Rightarrow> nat" where
  "round_even m k =
     (let q = m div 2 ^ k; r = m mod 2 ^ k
      in if 2 ^ k < 2 * r \<or> (2 ^ k = 2 * r \<and> odd q) then q + 1 else q)"

definition float32_of :: "u64 \<Rightarrow> 32 word" where
  "float32_of f =
     (let s = (if f64_neg f then 2 ^ 31 else 0);
          e = f64_exp f;
          inf = 255 * 2 ^ 23
      in word_of_nat (s +
           (if e = 2047 then (if f64_frac f = 0 then inf else inf + 2 ^ 22 + f64_frac f div 2 ^ 29 mod 2 ^ 22)
            else if e \<le> 896 then round_even (f64_mant f) (29 + (897 - max 1 e))
            else min inf ((e - 896) * 2 ^ 23 + round_even (f64_mant f) 29 - 2 ^ 23))))"

section \<open>Metric records\<close>

record CPUMetrics =
  cm_UserSeconds :: u64
  cm_SystemSeconds :: u64
  cm_Percent :: u64

record MemoryMetrics =
  mm_RSSBytes :: u64
  mm_HeapAllocBytes :: u64
  mm_HeapSysBytes :: u64
  mm_HeapInuseBytes :: u64
  mm_ContainerUsageBytes :: "u64 option"
  mm_ContainerLimitBytes :: "u64 option"

record ProcessMetrics =
  pr_CPUPercent :: u64
  pr_MemoryBytes :: u64
  pr_MemoryPercent :: "32 word"
  pr_DiskReadBytes :: u64
  pr_DiskWriteBytes :: u64
  pr_UptimeSeconds :: "64 word"
  pr_ThreadCount :: "32 word"
  pr_FileDescriptorCount :: "32 word"

record AggregatedMetrics =
  ag_AvgCPUUsage :: u64
  ag_MaxCPUUsage :: u64
  ag_AvgMemoryUsage :: u64
  ag_MaxMemoryUsage :: u64
  ag_TotalDiskRead :: u64
  ag_TotalDiskWrite :: u64
  ag_SampleCount :: "64 word"

definition CPUMetrics_zero :: CPUMetrics where
  "CPUMetrics_zero = \<lparr>cm_UserSeconds = 0, cm_SystemSeconds = 0, cm_Percent = 0\<rparr>"

definition MemoryMetrics_zero :: MemoryMetrics where
  "MemoryMetrics_zero = \<lparr>mm_RSSBytes = 0, mm_HeapAllocBytes = 0, mm_HeapSysBytes = 0,
     mm_HeapInuseBytes = 0, mm_ContainerUsageBytes = None, mm_ContainerLimitBytes = None\<rparr>"

definition ProcessMetrics_zero :: ProcessMetrics where
  "ProcessMetrics_zero = \<lparr>pr_CPUPercent = 0, pr_MemoryBytes = 0, pr_MemoryPercent = 0,
     pr_DiskReadBytes = 0, pr_DiskWriteBytes = 0, pr_UptimeSeconds = 0, pr_ThreadCount = 0,
     pr_FileDescriptorCount = 0\<rparr>"

record TaskMetrics =
  tm_TaskID :: string
  tm_PropletID :: string
  tm_Metrics :: ProcessMetrics
  tm_Aggregated :: "AggregatedMetrics option"
  tm_Timestamp :: gotime

record PropletMetrics =
  px_PropletID :: string
  px_Namespace :: string
  px_Timestamp :: gotime
  px_CPU :: CPUMetrics
  px_Memory :: MemoryMetrics

record TaskMetricsPage =
  tmp_Offset :: u64
  tmp_Limit :: u64
  tmp_Total :: u64
  tmp_Metrics :: "TaskMetrics list"

record PropletMetricsPage =
  pmp_Offset :: u64
  pmp_Limit :: u64
  pmp_Total :: u64
  pmp_Metrics :: "PropletMetrics list"

section \<open>Parsers\<close>

text \<open>\<open>if val, ok := data[key].(float64); ok\<close>: the field is set from the value, else kept at zero.\<close>

definition on_float :: "anymap \<Rightarrow> string \<Rightarrow> 'a \<Rightarrow> (u64 \<Rightarrow> 'a) \<Rightarrow> 'a" where
  "on_float data key dflt f = (case as_float64 (map_of data key) of None \<Rightarrow> dflt | Some val \<Rightarrow> f val)"

definition parseProcessMetrics :: "wild \<Rightarrow> anymap \<Rightarrow> ProcessMetrics" where
  "parseProcessMetrics wild data =
     \<lparr>pr_CPUPercent = on_float data ''cpu_percent'' 0 id,
      pr_MemoryBytes = on_float data ''memory_bytes'' 0 (uint64_of wild),
      pr_MemoryPercent = on_float data ''memory_percent'' 0 float32_of,
      pr_DiskReadBytes = on_float data ''disk_read_bytes'' 0 (uint64_of wild),
      pr_DiskWriteBytes = on_float data ''disk_write_bytes'' 0 (uint64_of wild),
      pr_UptimeSeconds = on_float data ''uptime_seconds'' 0 (int64_of wild),
      pr_ThreadCount = on_float data ''thread_count'' 0 (int32_of wild),
      pr_FileDescriptorCount = on_float data ''file_descriptor_count'' 0 (int32_of wild)\<rparr>"

definition parseAggregatedMetrics :: "wild \<Rightarrow> anymap \<Rightarrow> AggregatedMetrics" where
  "parseAggregatedMetrics wild data =
     \<lparr>ag_AvgCPUUsage = on_float data ''avg_cpu_usage'' 0 id,
      ag_MaxCPUUsage = on_float data ''max_cpu_usage'' 0 id,
      ag_AvgMemoryUsage = on_float data ''avg_memory_usage'' 0 (uint64_of wild),
      ag_MaxMemoryUsage = on_float data ''max_memory_usage'' 0 (uint64_of wild),
      ag_TotalDiskRead = on_float data ''total_disk_read'' 0 (uint64_of wild),
      ag_TotalDiskWrite = on_float data ''total_disk_write'' 0 (uint64_of wild),
      ag_SampleCount = on_float data ''sample_count'' 0 (int64_of wild)\<rparr>"

definition parseCPUMetrics :: "anymap \<Rightarrow> CPUMetrics" where
  "parseCPUMetrics data =
     \<lparr>cm_UserSeconds = on_float data ''user_seconds'' 0 id,
      cm_SystemSeconds = on_float data ''system_seconds'' 0 id,
      cm_Percent = on_float data ''percent'' 0 id\<rparr>"

definition parseMemoryMetrics :: "wild \<Rightarrow> anymap \<Rightarrow> MemoryMetrics" where
  "parseMemoryMetrics wild data =
     \<lparr>mm_RSSBytes = on_float data ''rss_bytes'' 0 (uint64_of wild),
      mm_HeapAllocBytes = on_float data ''heap_alloc_bytes'' 0 (uint64_of wild),
      mm_HeapSysBytes = on_float data ''heap_sys_bytes'' 0 (uint64_of wild),
      mm_HeapInuseBytes = on_float data ''heap_inuse_bytes'' 0 (uint64_of wild),
      mm_ContainerUsageBytes = on_float data ''container_usage_bytes'' None (\<lambda>v. Some (uint64_of wild v)),
      mm_ContainerLimitBytes = on_float data ''container_limit_bytes'' None (\<lambda>v. Some (uint64_of wild v))\<rparr>"

section \<open>Lemmas\<close>

lemma strings_of_eq: "strings_of xs = [s. AString s \<leftarrow> xs]"
  by (induction xs rule: strings_of.induct) auto

text \<open>
  Every counter below \<open>2 ^ 53\<close> is an exact float64: the pattern of \<open>n = m * 2 ^ k\<close> with a
  53-bit \<open>m\<close> truncates to \<open>n\<close> itself.
\<close>

definition f64_of_mant :: "nat \<Rightarrow> nat \<Rightarrow> u64" where
  "f64_of_mant m k = word_of_nat ((1075 - k) * 2 ^ 52 + (m - 2 ^ 52))"

lemma f64_fields:
  assumes "e < 2 ^ 11" "fr < 2 ^ 52"
  shows "unat (word_of_nat (e * 2 ^ 52 + fr) :: u64) = e * 2 ^ 52 + fr"
proof -
  have "e * 2 ^ 52 + fr < 2 ^ 64" using assms by simp
  moreover have "unat (word_of_nat n :: u64) = n" if "n < 2 ^ 64" for n
    using that by (simp add: unat_of_nat take_bit_nat_eq_self)
  ultimately show ?thesis by blast
qed

lemma f64_trunc_of_mant:
  assumes "2 ^ 52 \<le> m" "m < 2 ^ 53" "k \<le> 1074"
  shows "f64_trunc (f64_of_mant m k) = Some (int (m div 2 ^ k))"
proof -
  have fr: "m - 2 ^ 52 < 2 ^ 52" and e: "1075 - k < 2 ^ 11" using assms by simp_all
  note u = f64_fields [OF e fr]
  have "(1075 - k) * 2 ^ 52 + (m - 2 ^ 52) < 2 ^ 63" using fr by simp
  then have neg: "\<not> f64_neg (f64_of_mant m k)"
    unfolding f64_neg_def f64_of_mant_def u by simp
  have ex: "f64_exp (f64_of_mant m k) = 1075 - k"
    unfolding f64_exp_def f64_of_mant_def u using fr e by simp
  have frac: "f64_frac (f64_of_mant m k) = m - 2 ^ 52"
    unfolding f64_frac_def f64_of_mant_def u using fr by simp
  have mant: "f64_mant (f64_of_mant m k) = m"
    using assms ex frac by (simp add: f64_mant_def)
  show ?thesis
  proof (cases "k = 0")
    case True
    then show ?thesis using neg mant ex by (simp add: f64_trunc_def Let_def)
  next
    case False
    then have "1075 - (1075 - k) = k" "max 1 (1075 - k) = 1075 - k" "\<not> 1075 \<le> 1075 - k"
      using assms(3) by auto
    then show ?thesis using neg mant ex by (simp add: f64_trunc_def Let_def)
  qed
qed

lemma uint64_of_mant:
  assumes "2 ^ 52 \<le> m" "m < 2 ^ 53" "k \<le> 1074"
  shows "uint64_of wild (f64_of_mant m k) = word_of_nat (m div 2 ^ k)"
proof -
  have "m div 2 ^ k < 2 ^ 53"
    by (rule le_less_trans [OF div_le_dividend assms(2)])
  then have "int (m div 2 ^ k) < 2 ^ 53"
    by (metis of_nat_less_iff of_nat_numeral of_nat_power)
  then have "int (m div 2 ^ k) \<le> 2 ^ 64 - 1" by simp
  then show ?thesis
    using f64_trunc_of_mant [OF assms] by (simp add: uint64_of_def conv_int_def)
qed

end
