(* ===== verification/MemoryRepos.thy ===== *)
theory MemoryRepos
  imports Storage Task Proplet Metrics GoSort
begin

text \<open>
  The in-memory repositories of \<^verbatim>\<open>pkg/storage/memory_adapter.go\<close>: typed views of the key-value
  store, the metadata index of the task repository, the filtered and paged listings, and the
  scan loops of the metrics repository.
\<close>

section \<open>Stored values\<close>

text \<open>The dynamic types the repositories put into a store, and the type assertions on them.\<close>

datatype dval =
    DTask Task
  | DProplet Proplet
  | DString string
  | DJob Job
  | DTaskMetrics TaskMetrics
  | DPropletMetrics PropletMetrics

fun as_Task :: "dval \<Rightarrow> Task option" where
  "as_Task (DTask t) = Some t"
| "as_Task _ = None"

fun as_Proplet :: "dval \<Rightarrow> Proplet option" where
  "as_Proplet (DProplet p) = Some p"
| "as_Proplet _ = None"

fun as_String :: "dval \<Rightarrow> string option" where
  "as_String (DString s) = Some s"
| "as_String _ = None"

fun as_Job :: "dval \<Rightarrow> Job option" where
  "as_Job (DJob j) = Some j"
| "as_Job _ = None"

fun as_TaskMetrics :: "dval \<Rightarrow> TaskMetrics option" where
  "as_TaskMetrics (DTaskMetrics m) = Some m"
| "as_TaskMetrics _ = None"

fun as_PropletMetrics :: "dval \<Rightarrow> PropletMetrics option" where
  "as_PropletMetrics (DPropletMetrics m) = Some m"
| "as_PropletMetrics _ = None"

section \<open>The metadata index\<close>

text \<open>
  \<open>metaIdx[key][value]\<close> is a set of task ids. The ranges over Go maps visit each key once;
  their order does not matter for the result.
\<close>

type_synonym metaIdx = "(string \<times> (string \<times> string list) list) list"

text \<open>\<open>fmt.Sprint\<close> on a decoded JSON value; the formatting of a float64 is the argument \<open>ff\<close>.\<close>

fun join_with :: "string \<Rightarrow> string list \<Rightarrow> string" where
  "join_with sep [] = []"
| "join_with sep [x] = x"
| "join_with sep (x # y # ys) = x @ sep @ join_with sep (y # ys)"

fun Sprint :: "(u64 \<Rightarrow> string) \<Rightarrow> any \<Rightarrow> string" where
  "Sprint ff ANil = ''<nil>''"
| "Sprint ff (ABool b) = (if b then ''true'' else ''false'')"
| "Sprint ff (AString s) = s"
| "Sprint ff (AFloat64 f) = ff f"
| "Sprint ff (AInt i) = show_int (sint i)"
| "Sprint ff (AInt64 i) = show_int (sint i)"
| "Sprint ff (AUint u) = show_nat (unat u)"
| "Sprint ff (AUint64 u) = show_nat (unat u)"
| "Sprint ff (ASlice xs) = ''['' @ join_with '' '' (map (Sprint ff) xs) @ '']''"
| "Sprint ff (AStrSlice xs) = ''['' @ join_with '' '' xs @ '']''"
| "Sprint ff (AMap m) = ''map['' @ join_with '' ''
     (map (\<lambda>(k, v). k @ '':'' @ v)
       (sort_key fst (AList.clearjunk (map (\<lambda>(k, v). (k, Sprint ff v)) m)))) @ '']''"

definition metaValueStr :: "(u64 \<Rightarrow> string) \<Rightarrow> any \<Rightarrow> string" where
  "metaValueStr ff v = (case v of AString s \<Rightarrow> s | _ \<Rightarrow> Sprint ff v)"

definition idx_put :: "string \<Rightarrow> string \<Rightarrow> string \<Rightarrow> metaIdx \<Rightarrow> metaIdx" where
  "idx_put k s tid idx =
     (let vals = (case map_of idx k of None \<Rightarrow> [] | Some vals \<Rightarrow> vals);
          ids = (case map_of vals s of None \<Rightarrow> [] | Some ids \<Rightarrow> ids)
      in AList.update k (AList.update s (List.insert tid ids) vals) idx)"

definition idx_del :: "string \<Rightarrow> string \<Rightarrow> string \<Rightarrow> metaIdx \<Rightarrow> metaIdx" where
  "idx_del k s tid idx =
     (case map_of idx k of
        None \<Rightarrow> idx
      | Some vals \<Rightarrow>
          (case map_of vals s of
             None \<Rightarrow> idx
           | Some ids \<Rightarrow>
               (let ids = removeAll tid ids;
                    vals = (if ids = [] then AList.delete s vals else AList.update s ids vals)
                in if vals = [] then AList.delete k idx else AList.update k vals idx)))"

definition entries :: "anymap option \<Rightarrow> (string \<times> any) list" where
  "entries m = AList.clearjunk (nil_list m)"

definition indexTask :: "(u64 \<Rightarrow> string) \<Rightarrow> Task \<Rightarrow> metaIdx \<Rightarrow> metaIdx" where
  "indexTask ff t idx =
     fold (\<lambda>(k, v) idx. idx_put k (metaValueStr ff v) (t_ID t) idx) (entries (t_Metadata t)) idx"

definition deindexTask :: "(u64 \<Rightarrow> string) \<Rightarrow> Task \<Rightarrow> metaIdx \<Rightarrow> metaIdx" where
  "deindexTask ff t idx =
     fold (\<lambda>(k, v) idx. idx_del k (metaValueStr ff v) (t_ID t) idx) (entries (t_Metadata t)) idx"

section \<open>The task repository\<close>

record memoryTaskRepo =
  r_storage :: "dval storage"
  r_metaIdx :: metaIdx

definition newMemoryTaskRepository :: memoryTaskRepo where
  "newMemoryTaskRepository = \<lparr>r_storage = NewInMemoryStorage, r_metaIdx = []\<rparr>"

definition tasks_Create ::
    "(u64 \<Rightarrow> string) \<Rightarrow> Task \<Rightarrow> memoryTaskRepo \<Rightarrow> Task result \<times> memoryTaskRepo" where
  "tasks_Create ff t r =
     (case storage_Create (t_ID t) (DTask t) (r_storage r) of
        (Err err, s) \<Rightarrow> (Err err, r\<lparr>r_storage := s\<rparr>)
      | (Ok _, s) \<Rightarrow> (Ok t, r\<lparr>r_storage := s, r_metaIdx := indexTask ff t (r_metaIdx r)\<rparr>))"

definition tasks_Get :: "string \<Rightarrow> memoryTaskRepo \<Rightarrow> Task result" where
  "tasks_Get tid r =
     (case storage_Get tid (r_storage r) of
        Err err \<Rightarrow> Err err
      | Ok data \<Rightarrow> (case as_Task data of None \<Rightarrow> Err (Sentinel ErrInvalidData) | Some t \<Rightarrow> Ok t))"

definition deindex_old :: "(u64 \<Rightarrow> string) \<Rightarrow> string \<Rightarrow> memoryTaskRepo \<Rightarrow> memoryTaskRepo" where
  "deindex_old ff tid r =
     (case storage_Get tid (r_storage r) of
        Err _ \<Rightarrow> r
      | Ok old \<Rightarrow> (case as_Task old of
          None \<Rightarrow> r
        | Some oldTask \<Rightarrow> r\<lparr>r_metaIdx := deindexTask ff oldTask (r_metaIdx r)\<rparr>))"

definition tasks_Update ::
    "(u64 \<Rightarrow> string) \<Rightarrow> Task \<Rightarrow> memoryTaskRepo \<Rightarrow> unit result \<times> memoryTaskRepo" where
  "tasks_Update ff t r =
     (let r = deindex_old ff (t_ID t) r
      in case storage_Update (t_ID t) (DTask t) (r_storage r) of
           (Err err, s) \<Rightarrow> (Err err, r\<lparr>r_storage := s\<rparr>)
         | (Ok _, s) \<Rightarrow> (Ok (), r\<lparr>r_storage := s, r_metaIdx := indexTask ff t (r_metaIdx r)\<rparr>))"

definition tasks_Delete ::
    "(u64 \<Rightarrow> string) \<Rightarrow> string \<Rightarrow> memoryTaskRepo \<Rightarrow> unit result \<times> memoryTaskRepo" where
  "tasks_Delete ff tid r =
     (let r = deindex_old ff tid r
      in case storage_Delete tid (r_storage r) of (res, s) \<Rightarrow> (res, r\<lparr>r_storage := s\<rparr>))"

definition listAll :: "u64 \<Rightarrow> u64 \<Rightarrow> memoryTaskRepo \<Rightarrow> (Task list \<times> u64) result" where
  "listAll offset limit r =
     (case storage_List offset limit (r_storage r) of
        Err err \<Rightarrow> Err err
      | Ok (data, tot) \<Rightarrow>
          (case those (map as_Task data) of
             None \<Rightarrow> Err (Sentinel ErrInvalidData)
           | Some tasks \<Rightarrow> Ok (tasks, tot)))"

text \<open>The loop over the filter; \<open>matchIDs\<close> is nil before the first entry. \<^const>\<open>None\<close> is \<open>(nil, false)\<close>.\<close>

fun filter_ids ::
    "(u64 \<Rightarrow> string) \<Rightarrow> metaIdx \<Rightarrow> (string \<times> any) list \<Rightarrow> string list option \<Rightarrow> string list option" where
  "filter_ids ff idx [] matchIDs = Some (nil_list matchIDs)"
| "filter_ids ff idx ((k, v) # rest) matchIDs =
     (case map_of idx k of
        None \<Rightarrow> None
      | Some vals \<Rightarrow>
          (case map_of vals (metaValueStr ff v) of
             None \<Rightarrow> None
           | Some taskIDs \<Rightarrow>
               (let ids = (case matchIDs of
                             None \<Rightarrow> taskIDs
                           | Some ids \<Rightarrow> filter (\<lambda>i. i \<in> set taskIDs) ids)
                in if ids = [] then None else filter_ids ff idx rest (Some ids))))"

definition filterIDsByMetadata ::
    "(u64 \<Rightarrow> string) \<Rightarrow> anymap option \<Rightarrow> memoryTaskRepo \<Rightarrow> string list option" where
  "filterIDsByMetadata ff filt r = filter_ids ff (r_metaIdx r) (entries filt) None"

definition cmp_ID :: "Task \<Rightarrow> Task \<Rightarrow> int" where
  "cmp_ID a b = (if t_ID a < t_ID b then -1 else if t_ID b < t_ID a then 1 else 0)"

definition tasks_by_ids :: "string list \<Rightarrow> memoryTaskRepo \<Rightarrow> Task list" where
  "tasks_by_ids ids r =
     List.map_filter (\<lambda>i. case storage_Get i (r_storage r) of Err _ \<Rightarrow> None | Ok data \<Rightarrow> as_Task data) ids"

definition listByMetadata ::
    "(u64 \<Rightarrow> string) \<Rightarrow> anymap option \<Rightarrow> u64 \<Rightarrow> u64 \<Rightarrow> memoryTaskRepo \<Rightarrow> (Task list \<times> u64) result" where
  "listByMetadata ff filt offset limit r =
     (case filterIDsByMetadata ff filt r of
        None \<Rightarrow> Ok ([], 0)
      | Some matchIDs \<Rightarrow>
          if matchIDs = [] then Ok ([], 0)
          else let tasks = slices_SortFunc cmp_ID (tasks_by_ids matchIDs r);
                   tot = u64_len tasks
               in if tot \<le> offset then Ok ([], tot)
                  else case slice_u64 tasks offset (min (offset + limit) tot) of
                         Err e \<Rightarrow> Err e
                       | Ok page \<Rightarrow> Ok (page, tot))"

definition tasks_List ::
    "(u64 \<Rightarrow> string) \<Rightarrow> anymap option \<Rightarrow> u64 \<Rightarrow> u64 \<Rightarrow> memoryTaskRepo \<Rightarrow> (Task list \<times> u64) result" where
  "tasks_List ff filt offset limit r =
     (if entries filt = [] then listAll offset limit r else listByMetadata ff filt offset limit r)"

definition ListByWorkflowID :: "string \<Rightarrow> memoryTaskRepo \<Rightarrow> Task list result" where
  "ListByWorkflowID workflowID r =
     (case storage_List 0 MaxUint64 (r_storage r) of
        Err err \<Rightarrow> Err err
      | Ok (data, _) \<Rightarrow> Ok (filter (\<lambda>t. t_WorkflowID t = workflowID) (List.map_filter as_Task data)))"

definition ListByJobID :: "string \<Rightarrow> memoryTaskRepo \<Rightarrow> Task list result" where
  "ListByJobID jobID r =
     (case storage_List 0 MaxUint64 (r_storage r) of
        Err err \<Rightarrow> Err err
      | Ok (data, _) \<Rightarrow> Ok (filter (\<lambda>t. t_JobID t = jobID) (List.map_filter as_Task data)))"

section \<open>The proplet repository\<close>

definition proplets_Create :: "Proplet \<Rightarrow> dval storage \<Rightarrow> unit result \<times> dval storage" where
  "proplets_Create p s = storage_Create (p_ID p) (DProplet p) s"

text \<open>The copy of the history that \<open>Get\<close> makes has the same elements.\<close>

definition proplets_Get :: "string \<Rightarrow> dval storage \<Rightarrow> Proplet result" where
  "proplets_Get pid s =
     (case storage_Get pid s of
        Err err \<Rightarrow> Err err
      | Ok data \<Rightarrow> (case as_Proplet data of None \<Rightarrow> Err (Sentinel ErrInvalidData) | Some p \<Rightarrow> Ok p))"

definition proplets_Update :: "Proplet \<Rightarrow> dval storage \<Rightarrow> unit result \<times> dval storage" where
  "proplets_Update p s = storage_Update (p_ID p) (DProplet p) s"

definition proplets_List :: "u64 \<Rightarrow> u64 \<Rightarrow> dval storage \<Rightarrow> (Proplet list \<times> u64) result" where
  "proplets_List offset limit s =
     (case storage_List offset limit s of
        Err err \<Rightarrow> Err err
      | Ok (data, tot) \<Rightarrow>
          (case those (map as_Proplet data) of
             None \<Rightarrow> Err (Sentinel ErrInvalidData)
           | Some proplets \<Rightarrow> Ok (proplets, tot)))"

definition alive_since :: "gotime \<Rightarrow> Proplet \<Rightarrow> bool" where
  "alive_since since p \<longleftrightarrow> p_AliveHistory p \<noteq> [] \<and> \<not> last (p_AliveHistory p) < since"

definition ListByAlive ::
    "u64 \<Rightarrow> u64 \<Rightarrow> bool \<Rightarrow> gotime \<Rightarrow> dval storage \<Rightarrow> (Proplet list \<times> u64) result" where
  "ListByAlive offset limit alive since s =
     (case storage_List 0 MaxUint64 s of
        Err err \<Rightarrow> Err err
      | Ok (data, _) \<Rightarrow>
          (let filtered = filter (\<lambda>p. alive_since since p = alive) (List.map_filter as_Proplet data);
               tot = u64_len filtered
           in if tot \<le> offset then Ok ([], tot)
              else case slice_u64 filtered offset (min (offset + limit) tot) of
                     Err e \<Rightarrow> Err e
                   | Ok page \<Rightarrow> Ok (page, tot)))"

definition proplets_Delete :: "string \<Rightarrow> dval storage \<Rightarrow> unit result \<times> dval storage" where
  "proplets_Delete pid s = storage_Delete pid s"

definition GetAliveHistory :: "string \<Rightarrow> u64 \<Rightarrow> u64 \<Rightarrow> dval storage \<Rightarrow> (gotime list \<times> u64) result" where
  "GetAliveHistory pid offset limit s =
     (case proplets_Get pid s of
        Err err \<Rightarrow> Err err
      | Ok p \<Rightarrow>
          (let tot = u64_len (p_AliveHistory p)
           in if tot \<le> offset then Ok ([], tot)
              else case slice_u64 (p_AliveHistory p) offset (min (offset + limit) tot) of
                     Err e \<Rightarrow> Err e
                   | Ok page \<Rightarrow> Ok (page, tot)))"

section \<open>The task to proplet mapping and the job repository\<close>

definition taskProplets_Create :: "string \<Rightarrow> string \<Rightarrow> dval storage \<Rightarrow> unit result \<times> dval storage" where
  "taskProplets_Create taskID propletID s = storage_Create taskID (DString propletID) s"

definition taskProplets_Get :: "string \<Rightarrow> dval storage \<Rightarrow> string result" where
  "taskProplets_Get taskID s =
     (case storage_Get taskID s of
        Err err \<Rightarrow> Err err
      | Ok data \<Rightarrow> (case as_String data of None \<Rightarrow> Err (Sentinel ErrInvalidData) | Some pid \<Rightarrow> Ok pid))"

definition taskProplets_Delete :: "string \<Rightarrow> dval storage \<Rightarrow> unit result \<times> dval storage" where
  "taskProplets_Delete taskID s = storage_Delete taskID s"

definition jobs_Create :: "Job \<Rightarrow> dval storage \<Rightarrow> Job result \<times> dval storage" where
  "jobs_Create j s =
     (case storage_Create (j_ID j) (DJob j) s of
        (Err err, s) \<Rightarrow> (Err err, s)
      | (Ok _, s) \<Rightarrow> (Ok j, s))"

definition jobs_Get :: "string \<Rightarrow> dval storage \<Rightarrow> Job result" where
  "jobs_Get jid s =
     (case storage_Get jid s of
        Err err \<Rightarrow> Err err
      | Ok data \<Rightarrow> (case as_Job data of None \<Rightarrow> Err (Sentinel ErrInvalidData) | Some j \<Rightarrow> Ok j))"

definition jobs_List :: "u64 \<Rightarrow> u64 \<Rightarrow> dval storage \<Rightarrow> (Job list \<times> u64) result" where
  "jobs_List offset limit s =
     (case storage_List offset limit s of
        Err err \<Rightarrow> Err err
      | Ok (data, tot) \<Rightarrow> Ok (List.map_filter as_Job data, tot))"

definition jobs_Delete :: "string \<Rightarrow> dval storage \<Rightarrow> unit result \<times> dval storage" where
  "jobs_Delete jid s = storage_Delete jid s"

section \<open>The metrics repository\<close>

text \<open>
  \<open>UnixNano\<close> counts from 1970, which is 62135596800 seconds after the zero time, in a signed
  64-bit integer that wraps around outside the years 1678 to 2262.
\<close>

definition UnixNano :: "gotime \<Rightarrow> int" where
  "UnixNano t = sint (word_of_int (t - 62135596800 * Second) :: 64 word)"

definition metrics_key :: "string \<Rightarrow> gotime \<Rightarrow> string" where
  "metrics_key i ts = i @ '':'' @ show_int (UnixNano ts)"

definition CreateTaskMetrics :: "TaskMetrics \<Rightarrow> dval storage \<Rightarrow> unit result \<times> dval storage" where
  "CreateTaskMetrics m s = storage_Create (metrics_key (tm_TaskID m) (tm_Timestamp m)) (DTaskMetrics m) s"

definition CreatePropletMetrics :: "PropletMetrics \<Rightarrow> dval storage \<Rightarrow> unit result \<times> dval storage" where
  "CreatePropletMetrics m s =
     storage_Create (metrics_key (px_PropletID m) (px_Timestamp m)) (DPropletMetrics m) s"

definition memoryScanPageSize :: u64 where
  "memoryScanPageSize = 100"

text \<open>
  The scan loop of \<open>ListTaskMetrics\<close> and \<open>ListPropletMetrics\<close>; \<open>pick\<close> is the type assertion
  followed by the test on the identifier.
\<close>

fun scan_page ::
    "(dval \<Rightarrow> 'm option) \<Rightarrow> u64 \<Rightarrow> u64 \<Rightarrow> dval list \<Rightarrow> u64 \<Rightarrow> 'm list \<Rightarrow> u64 \<times> 'm list" where
  "scan_page pick offset limit [] tot filtered = (tot, filtered)"
| "scan_page pick offset limit (d # ds) tot filtered =
     (case pick d of
        None \<Rightarrow> scan_page pick offset limit ds tot filtered
      | Some m \<Rightarrow> scan_page pick offset limit ds (tot + 1)
          (if offset \<le> tot \<and> u64_len filtered < limit then filtered @ [m] else filtered))"

lemma storage_List_advance:
  assumes "storage_List off lim s = Ok (data, tot)" "data \<noteq> []"
  shows "off < off + u64_len data" "off + u64_len data \<le> tot" "tot = u64_len s"
proof -
  let ?keys = "storage_keys s"
  define hi where "hi = min (off + lim) (u64_len ?keys)"
  have tot: "tot = u64_len ?keys" and lt: "off < u64_len ?keys"
    using assms by (auto simp: storage_List_def Let_def split: if_splits sum.splits)
  obtain ks where ks: "slice_u64 ?keys off hi = Ok ks" "data = map (\<lambda>k. the (map_of s k)) ks"
    using assms lt by (auto simp: storage_List_def Let_def hi_def split: if_splits sum.splits)
  have hi: "off \<le> hi" "unat hi \<le> length s" "length data = unat hi - unat off"
    using ks by (auto simp: slice_u64_def split: if_splits)
  have "u64_len data = word_of_nat (unat (hi - off))"
    using hi by (simp add: u64_len_def unat_sub)
  then have eq: "off + u64_len data = hi" by simp
  have "length data > 0" using assms(2) by simp
  then have "unat off < unat hi" using hi by simp
  then show "off < off + u64_len data" by (simp add: eq word_less_nat_alt)
  show "off + u64_len data \<le> tot" by (simp add: eq hi_def tot)
  show "tot = u64_len s" using tot by (simp add: u64_len_def)
qed

function scan_loop ::
    "(dval \<Rightarrow> 'm option) \<Rightarrow> u64 \<Rightarrow> u64 \<Rightarrow> dval storage \<Rightarrow> u64 \<Rightarrow> u64 \<Rightarrow> 'm list \<Rightarrow> (u64 \<times> 'm list) result" where
  "scan_loop pick offset limit s scanOffset tot filtered =
     (case storage_List scanOffset memoryScanPageSize s of
        Err err \<Rightarrow> Err err
      | Ok (data, allTotal) \<Rightarrow>
          if data = [] then Ok (tot, filtered)
          else let (tot, filtered) = scan_page pick offset limit data tot filtered;
                   scanOffset = scanOffset + u64_len data
               in if allTotal \<le> scanOffset then Ok (tot, filtered)
                  else scan_loop pick offset limit s scanOffset tot filtered)"
  by pat_completeness auto
termination
proof (relation "measure (\<lambda>(pick, offset, limit, s, scanOffset, tot, filtered). unat (u64_len s) - unat scanOffset)",
    goal_cases)
  case (2 pick offset limit s scanOffset tot filtered res data allTotal pg tot' filtered' so)
  then show ?case
    using storage_List_advance [of scanOffset memoryScanPageSize s data allTotal]
    by (auto simp: word_less_nat_alt word_le_nat_alt)
qed simp

declare scan_loop.simps [simp del]

definition scan_all :: "(dval \<Rightarrow> 'm option) \<Rightarrow> u64 \<Rightarrow> u64 \<Rightarrow> dval storage \<Rightarrow> ('m list \<times> u64) result" where
  "scan_all pick offset limit s =
     (case scan_loop pick offset limit s 0 0 [] of
        Err err \<Rightarrow> Err err
      | Ok (tot, filtered) \<Rightarrow> if tot \<le> offset then Ok ([], tot) else Ok (filtered, tot))"

definition ListTaskMetrics :: "string \<Rightarrow> u64 \<Rightarrow> u64 \<Rightarrow> dval storage \<Rightarrow> (TaskMetrics list \<times> u64) result" where
  "ListTaskMetrics taskID offset limit s =
     scan_all (\<lambda>d. case as_TaskMetrics d of None \<Rightarrow> None
                   | Some m \<Rightarrow> if tm_TaskID m \<noteq> taskID then None else Some m) offset limit s"

definition ListPropletMetrics ::
    "string \<Rightarrow> u64 \<Rightarrow> u64 \<Rightarrow> dval storage \<Rightarrow> (PropletMetrics list \<times> u64) result" where
  "ListPropletMetrics propletID offset limit s =
     scan_all (\<lambda>d. case as_PropletMetrics d of None \<Rightarrow> None
                   | Some m \<Rightarrow> if px_PropletID m \<noteq> propletID then None else Some m) offset limit s"

end
