(* ===== verification/RepoLaws.thy ===== *)
theory RepoLaws
  imports MemoryRepos
begin

text \<open>
  What the in-memory repositories promise to the service. Each repository is, for its client,
  a partial function from identifiers to records (its \<open>view\<close>): the locales \<open>entity_store\<close> and
  \<open>repository\<close> state the laws, and the interpretations discharge them for the task, proplet
  and job repositories. The task repository's metadata index is proved consistent with its
  storage, so that a filtered listing returns the matching tasks and no others.
\<close>

section \<open>Contracts\<close>

locale entity_store =
  fixes create :: "'a \<Rightarrow> 's \<Rightarrow> 'a result \<times> 's"
    and get :: "string \<Rightarrow> 's \<Rightarrow> 'a result"
    and del :: "string \<Rightarrow> 's \<Rightarrow> unit result \<times> 's"
    and key :: "'a \<Rightarrow> string"
    and view :: "'s \<Rightarrow> string \<Rightarrow> 'a option"
    and inv :: "'s \<Rightarrow> bool"
  assumes view_key: "inv s \<Longrightarrow> view s k = Some a \<Longrightarrow> key a = k \<and> k \<noteq> []"
    and create_ok: "inv s \<Longrightarrow> key a \<noteq> [] \<Longrightarrow> view s (key a) = None \<Longrightarrow>
      fst (create a s) = Ok a \<and> inv (snd (create a s)) \<and> view (snd (create a s)) = (view s)(key a \<mapsto> a)"
    and create_err: "inv s \<Longrightarrow> key a = [] \<or> view s (key a) \<noteq> None \<Longrightarrow>
      create a s = (Err (Sentinel (if key a = [] then ErrEmptyKey else ErrEntityExists)), s)"
    and get_view: "inv s \<Longrightarrow> get k s = (if k = [] then Err (Sentinel ErrEmptyKey) else
      case view s k of None \<Rightarrow> Err (Sentinel ErrNotFound) | Some a \<Rightarrow> Ok a)"
    and del_ok: "inv s \<Longrightarrow> k \<noteq> [] \<Longrightarrow>
      fst (del k s) = Ok () \<and> inv (snd (del k s)) \<and> view (snd (del k s)) = (view s)(k := None)"
    and del_err: "inv s \<Longrightarrow> del [] s = (Err (Sentinel ErrEmptyKey), s)"
begin

lemma get_Ok_iff: "inv s \<Longrightarrow> get k s = Ok a \<longleftrightarrow> view s k = Some a"
  using get_view [of s k] view_key [of s k a] by (auto split: option.splits)

lemma view_empty: "inv s \<Longrightarrow> view s [] = None"
  using view_key [of s "[]"] by (cases "view s []") auto

lemma create_inv: "inv s \<Longrightarrow> inv (snd (create a s))"
  using create_ok [of s a] create_err [of s a] by (cases "key a = [] \<or> view s (key a) \<noteq> None") auto

lemma create_Ok_iff: "inv s \<Longrightarrow> fst (create a s) = Ok x \<longleftrightarrow> x = a \<and> key a \<noteq> [] \<and> view s (key a) = None"
  using create_ok [of s a] create_err [of s a] by (cases "key a = [] \<or> view s (key a) \<noteq> None") auto

lemma create_get: "inv s \<Longrightarrow> fst (create a s) = Ok x \<Longrightarrow> get (key a) (snd (create a s)) = Ok a"
  using create_Ok_iff [of s a x] create_ok [of s a] get_Ok_iff [of "snd (create a s)" "key a" a] by auto

lemma del_inv: "inv s \<Longrightarrow> inv (snd (del k s))"
  using del_ok [of s k] del_err [of s] by (cases "k = []") auto

lemma del_view: "inv s \<Longrightarrow> view (snd (del k s)) = (view s)(k := None)"
  using del_ok [of s k] del_err [of s] view_empty [of s] by (cases "k = []") auto

end

locale repository = entity_store create get del key view inv
  for create :: "'a \<Rightarrow> 's \<Rightarrow> 'a result \<times> 's" and get and del and key and view and inv +
  fixes upd :: "'a \<Rightarrow> 's \<Rightarrow> unit result \<times> 's"
  assumes upd_ok: "inv s \<Longrightarrow> view s (key a) \<noteq> None \<Longrightarrow>
      fst (upd a s) = Ok () \<and> inv (snd (upd a s)) \<and> view (snd (upd a s)) = (view s)(key a \<mapsto> a)"
    and upd_err: "inv s \<Longrightarrow> view s (key a) = None \<Longrightarrow>
      upd a s = (Err (Sentinel (if key a = [] then ErrEmptyKey else ErrNotFound)), s)"
begin

lemma upd_inv: "inv s \<Longrightarrow> inv (snd (upd a s))"
  using upd_ok [of s a] upd_err [of s a] by (cases "view s (key a) = None") auto

lemma upd_Ok_iff: "inv s \<Longrightarrow> fst (upd a s) = Ok () \<longleftrightarrow> view s (key a) \<noteq> None"
  using upd_ok [of s a] upd_err [of s a] by (cases "view s (key a) = None") auto

lemma upd_view:
  "inv s \<Longrightarrow> view (snd (upd a s)) = (if view s (key a) = None then view s else (view s)(key a \<mapsto> a))"
  using upd_ok [of s a] upd_err [of s a] by auto

lemma upd_dom: "inv s \<Longrightarrow> dom (view (snd (upd a s))) = dom (view s)"
  by (auto simp: upd_view)

end

section \<open>Proplets and jobs\<close>

definition typed_inv :: "(dval \<Rightarrow> 'a option) \<Rightarrow> ('a \<Rightarrow> string) \<Rightarrow> dval storage \<Rightarrow> bool" where
  "typed_inv prj key s \<longleftrightarrow>
     storage_inv s \<and> (\<forall>k d. map_of s k = Some d \<longrightarrow> (\<exists>a. prj d = Some a \<and> key a = k))"

definition typed_view :: "(dval \<Rightarrow> 'a option) \<Rightarrow> dval storage \<Rightarrow> string \<Rightarrow> 'a option" where
  "typed_view prj s k = (case map_of s k of None \<Rightarrow> None | Some d \<Rightarrow> prj d)"

abbreviation proplets_inv :: "dval storage \<Rightarrow> bool" where
  "proplets_inv \<equiv> typed_inv as_Proplet p_ID"

abbreviation proplet_view :: "dval storage \<Rightarrow> string \<Rightarrow> Proplet option" where
  "proplet_view \<equiv> typed_view as_Proplet"

abbreviation jobs_inv :: "dval storage \<Rightarrow> bool" where
  "jobs_inv \<equiv> typed_inv as_Job j_ID"

abbreviation job_view :: "dval storage \<Rightarrow> string \<Rightarrow> Job option" where
  "job_view \<equiv> typed_view as_Job"

lemma typed_inv_empty: "typed_inv prj key NewInMemoryStorage"
  by (simp add: typed_inv_def)

lemma map_of_key_ne: "storage_inv s \<Longrightarrow> map_of s k = Some d \<Longrightarrow> k \<noteq> []"
  by (metis domI dom_map_of_conv_image_fst storage_inv_def)

lemma typed_view_key: "typed_inv prj key s \<Longrightarrow> typed_view prj s k = Some a \<Longrightarrow> key a = k \<and> k \<noteq> []"
  unfolding typed_inv_def typed_view_def
  by (auto split: option.splits dest: map_of_key_ne) (metis option.inject)

lemma typed_view_None: "typed_inv prj key s \<Longrightarrow> typed_view prj s k = None \<longleftrightarrow> map_of s k = None"
  by (fastforce simp: typed_inv_def typed_view_def split: option.splits)

lemma typed_inv_update:
  "typed_inv prj key s \<Longrightarrow> prj d = Some a \<Longrightarrow> key a \<noteq> [] \<Longrightarrow> typed_inv prj key (AList.update (key a) d s)"
  by (auto simp: typed_inv_def storage_inv_update update_conv')

lemma typed_inv_delete: "typed_inv prj key s \<Longrightarrow> typed_inv prj key (AList.delete k s)"
  by (auto simp: typed_inv_def storage_inv_delete delete_conv')

lemma typed_view_update [simp]:
  "typed_view prj (AList.update k d s) = (typed_view prj s)(k := prj d)"
  by (auto simp: typed_view_def update_conv')

lemma typed_view_delete [simp]:
  "typed_view prj (AList.delete k s) = (typed_view prj s)(k := None)"
  by (auto simp: typed_view_def delete_conv')

lemma typed_get:
  "typed_inv prj key s \<Longrightarrow>
     (case storage_Get k s of Err err \<Rightarrow> Err err
      | Ok data \<Rightarrow> (case prj data of None \<Rightarrow> Err (Sentinel ErrInvalidData) | Some a \<Rightarrow> Ok a))
     = (if k = [] then Err (Sentinel ErrEmptyKey) else
        case typed_view prj s k of None \<Rightarrow> Err (Sentinel ErrNotFound) | Some a \<Rightarrow> Ok a)"
  by (fastforce simp: typed_inv_def typed_view_def storage_Get_def split: option.splits)

interpretation props: repository
  "\<lambda>p s. case proplets_Create p s of (Err e, s) \<Rightarrow> (Err e, s) | (Ok _, s) \<Rightarrow> (Ok p, s)"
  proplets_Get proplets_Delete p_ID proplet_view proplets_inv proplets_Update
proof (unfold_locales, goal_cases)
  case (1 s k a)
  then show ?case by (rule typed_view_key)
next
  case (2 s a)
  then show ?case
    by (simp add: proplets_Create_def storage_Create_def typed_view_None typed_inv_update)
next
  case (3 s a)
  then show ?case
    by (auto simp: proplets_Create_def storage_Create_def typed_view_None split: option.splits)
next
  case (4 s k)
  then show ?case unfolding proplets_Get_def by (rule typed_get)
next
  case (5 s k)
  then show ?case by (simp add: proplets_Delete_def storage_Delete_def typed_inv_delete)
next
  case (6 s)
  then show ?case by (simp add: proplets_Delete_def storage_Delete_def)
next
  case (7 s a)
  then have "p_ID a \<noteq> []" by (metis option.exhaust typed_view_key)
  with 7 show ?case
    by (auto simp: proplets_Update_def storage_Update_def typed_view_None typed_inv_update)
next
  case (8 s a)
  then show ?case by (simp add: proplets_Update_def storage_Update_def typed_view_None)
qed

interpretation jobs: entity_store jobs_Create jobs_Get jobs_Delete j_ID job_view jobs_inv
proof (unfold_locales, goal_cases)
  case (1 s k a)
  then show ?case by (rule typed_view_key)
next
  case (2 s a)
  then show ?case
    by (simp add: jobs_Create_def storage_Create_def typed_view_None typed_inv_update)
next
  case (3 s a)
  then show ?case
    by (auto simp: jobs_Create_def storage_Create_def typed_view_None split: option.splits)
next
  case (4 s k)
  then show ?case unfolding jobs_Get_def by (rule typed_get)
next
  case (5 s k)
  then show ?case by (simp add: jobs_Delete_def storage_Delete_def typed_inv_delete)
next
  case (6 s)
  then show ?case by (simp add: jobs_Delete_def storage_Delete_def)
qed

section \<open>The metadata index\<close>

definition ids_at :: "metaIdx \<Rightarrow> string \<Rightarrow> string \<Rightarrow> string set" where
  "ids_at idx k s =
     (case map_of idx k of
        None \<Rightarrow> {}
      | Some vals \<Rightarrow> (case map_of vals s of None \<Rightarrow> {} | Some ids \<Rightarrow> set ids))"

text \<open>The task carries the metadata entry \<open>k\<close> with a value that prints as \<open>s\<close>.\<close>

definition has_meta :: "(u64 \<Rightarrow> string) \<Rightarrow> Task \<Rightarrow> string \<Rightarrow> string \<Rightarrow> bool" where
  "has_meta ff t k s \<longleftrightarrow>
     (case map_of (nil_list (t_Metadata t)) k of None \<Rightarrow> False | Some v \<Rightarrow> metaValueStr ff v = s)"

lemma ids_at_put [simp]:
  "ids_at (idx_put k s i idx) k' s' = (if k' = k \<and> s' = s then insert i (ids_at idx k s) else ids_at idx k' s')"
  by (auto simp: ids_at_def idx_put_def Let_def update_conv' split: option.splits)

lemma ids_at_del [simp]:
  "ids_at (idx_del k s i idx) k' s' = (if k' = k \<and> s' = s then ids_at idx k s - {i} else ids_at idx k' s')"
proof (cases "map_of idx k")
  case None
  then show ?thesis by (auto simp: ids_at_def idx_del_def)
next
  case (Some vals)
  show ?thesis
  proof (cases "map_of vals s")
    case None
    then show ?thesis using Some by (auto simp: ids_at_def idx_del_def)
  next
    case (Some ids)
    define vals' where
      "vals' = (if removeAll i ids = [] then AList.delete s vals else AList.update s (removeAll i ids) vals)"
    have look: "(case map_of vals' s' of None \<Rightarrow> {} | Some ids \<Rightarrow> set ids)
        = (if s' = s then set ids - {i} else case map_of vals s' of None \<Rightarrow> {} | Some ids \<Rightarrow> set ids)"
      using Some by (auto simp: vals'_def update_conv' delete_conv' removeAll_filter_not_eq filter_empty_conv
          split: option.splits)
    have del: "idx_del k s i idx = (if vals' = [] then AList.delete k idx else AList.update k vals' idx)"
      using Some \<open>map_of idx k = Some vals\<close> by (simp add: idx_del_def Let_def vals'_def)
    show ?thesis
    proof (cases "k' = k")
      case True
      have "map_of (idx_del k s i idx) k = (if vals' = [] then None else Some vals')"
        unfolding del by (simp add: update_conv' delete_conv')
      then have "ids_at (idx_del k s i idx) k s' = (case map_of vals' s' of None \<Rightarrow> {} | Some ids \<Rightarrow> set ids)"
        by (simp add: ids_at_def)
      then show ?thesis
        using True look Some \<open>map_of idx k = Some vals\<close> by (simp add: ids_at_def)
    next
      case False
      have "map_of (idx_del k s i idx) k' = map_of idx k'"
        unfolding del using False by (simp add: update_conv' delete_conv')
      then show ?thesis using False by (simp add: ids_at_def)
    qed
  qed
qed

lemma ids_at_fold_put:
  "distinct (map fst es) \<Longrightarrow>
   ids_at (fold (\<lambda>(k, v) idx. idx_put k (f v) i idx) es idx) k s
     = (if \<exists>v. map_of es k = Some v \<and> f v = s then insert i (ids_at idx k s) else ids_at idx k s)"
proof (induction es arbitrary: idx)
  case (Cons e es)
  obtain k0 v0 where e: "e = (k0, v0)" by fastforce
  have "map_of es k0 = None" using Cons.prems e by (simp add: map_of_eq_None_iff)
  then show ?case using Cons e by auto
qed simp

lemma ids_at_fold_del:
  "distinct (map fst es) \<Longrightarrow>
   ids_at (fold (\<lambda>(k, v) idx. idx_del k (f v) i idx) es idx) k s
     = (if \<exists>v. map_of es k = Some v \<and> f v = s then ids_at idx k s - {i} else ids_at idx k s)"
proof (induction es arbitrary: idx)
  case (Cons e es)
  obtain k0 v0 where e: "e = (k0, v0)" by fastforce
  have "map_of es k0 = None" using Cons.prems e by (simp add: map_of_eq_None_iff)
  then show ?case using Cons e by auto
qed simp

lemma entries_distinct [simp]: "distinct (map fst (entries m))"
  by (simp add: entries_def distinct_clearjunk)

lemma map_of_entries [simp]: "map_of (entries m) = map_of (nil_list m)"
  by (simp add: entries_def map_of_clearjunk)

lemma has_meta_iff: "has_meta ff t k s \<longleftrightarrow> (\<exists>v. map_of (nil_list (t_Metadata t)) k = Some v \<and> metaValueStr ff v = s)"
  by (auto simp: has_meta_def split: option.splits)

lemma ids_at_indexTask [simp]:
  "ids_at (indexTask ff t idx) k s = (if has_meta ff t k s then insert (t_ID t) (ids_at idx k s) else ids_at idx k s)"
  by (simp add: indexTask_def ids_at_fold_put has_meta_iff)

lemma ids_at_deindexTask [simp]:
  "ids_at (deindexTask ff t idx) k s = (if has_meta ff t k s then ids_at idx k s - {t_ID t} else ids_at idx k s)"
  by (simp add: deindexTask_def ids_at_fold_del has_meta_iff)

text \<open>The lists that stand for sets of identifiers have no duplicates.\<close>

definition idx_wf :: "metaIdx \<Rightarrow> bool" where
  "idx_wf idx \<longleftrightarrow> (\<forall>k vals s ids. map_of idx k = Some vals \<longrightarrow> map_of vals s = Some ids \<longrightarrow> distinct ids)"

definition vals_wf :: "(string \<times> string list) list \<Rightarrow> bool" where
  "vals_wf vals \<longleftrightarrow> (\<forall>s ids. map_of vals s = Some ids \<longrightarrow> distinct ids)"

lemma idx_wf_vals: "idx_wf idx \<longleftrightarrow> (\<forall>k vals. map_of idx k = Some vals \<longrightarrow> vals_wf vals)"
  by (auto simp: idx_wf_def vals_wf_def)

text \<open>A predicate on the values of an association list survives updates and deletions.\<close>

lemma alist_all_update:
  "(\<forall>k v. map_of al k = Some v \<longrightarrow> P v) \<Longrightarrow> P w \<Longrightarrow> map_of (AList.update k w al) k' = Some v \<Longrightarrow> P v"
  by (cases "k' = k") (simp_all add: update_conv')

lemma alist_all_delete:
  "(\<forall>k v. map_of al k = Some v \<longrightarrow> P v) \<Longrightarrow> map_of (AList.delete k al) k' = Some v \<Longrightarrow> P v"
  by (cases "k' = k") (simp_all add: delete_conv')

lemma vals_wf_update: "vals_wf vals \<Longrightarrow> distinct ids \<Longrightarrow> vals_wf (AList.update s ids vals)"
  unfolding vals_wf_def by (blast intro: alist_all_update)

lemma vals_wf_delete: "vals_wf vals \<Longrightarrow> vals_wf (AList.delete s vals)"
  unfolding vals_wf_def by (blast intro: alist_all_delete)

lemma idx_wf_update: "idx_wf idx \<Longrightarrow> vals_wf vals \<Longrightarrow> idx_wf (AList.update k vals idx)"
  unfolding idx_wf_vals by (blast intro: alist_all_update)

lemma idx_wf_delete: "idx_wf idx \<Longrightarrow> idx_wf (AList.delete k idx)"
  unfolding idx_wf_vals by (blast intro: alist_all_delete)

lemma idx_wf_put:
  assumes "idx_wf idx"
  shows "idx_wf (idx_put k s i idx)"
proof -
  define vals where "vals = (case map_of idx k of None \<Rightarrow> [] | Some vals \<Rightarrow> vals)"
  define ids where "ids = (case map_of vals s of None \<Rightarrow> [] | Some ids \<Rightarrow> ids)"
  have vals: "vals_wf vals"
  proof (cases "map_of idx k")
    case None
    then show ?thesis by (simp add: vals_def vals_wf_def)
  next
    case (Some v)
    then have "vals = v" by (simp add: vals_def)
    with Some assms show ?thesis unfolding idx_wf_vals by blast
  qed
  have "distinct ids"
  proof (cases "map_of vals s")
    case None
    then show ?thesis by (simp add: ids_def)
  next
    case (Some x)
    then have "ids = x" by (simp add: ids_def)
    with Some vals show ?thesis unfolding vals_wf_def by blast
  qed
  then have "idx_wf (AList.update k (AList.update s (List.insert i ids) vals) idx)"
    using assms vals by (simp add: idx_wf_update vals_wf_update)
  then show ?thesis by (simp only: idx_put_def Let_def vals_def ids_def)
qed

lemma idx_wf_del:
  assumes "idx_wf idx"
  shows "idx_wf (idx_del k s i idx)"
proof (cases "\<exists>vals ids. map_of idx k = Some vals \<and> map_of vals s = Some ids")
  case True
  then obtain vals ids where look: "map_of idx k = Some vals" "map_of vals s = Some ids" by blast
  define ids' where "ids' = removeAll i ids"
  define vals' where "vals' = (if ids' = [] then AList.delete s vals else AList.update s ids' vals)"
  have vals: "vals_wf vals" using assms look unfolding idx_wf_vals by blast
  then have "distinct ids" using look unfolding vals_wf_def by blast
  then have "distinct ids'" by (simp add: ids'_def distinct_removeAll)
  then have "vals_wf vals'" using vals by (simp add: vals'_def vals_wf_update vals_wf_delete)
  moreover have "idx_del k s i idx = (if vals' = [] then AList.delete k idx else AList.update k vals' idx)"
    using look by (simp add: idx_del_def Let_def vals'_def ids'_def)
  ultimately show ?thesis using assms by (simp add: idx_wf_update idx_wf_delete)
next
  case False
  then have "idx_del k s i idx = idx" by (auto simp: idx_del_def split: option.splits)
  then show ?thesis using assms by simp
qed

lemma idx_wf_indexTask: "idx_wf idx \<Longrightarrow> idx_wf (indexTask ff t idx)"
proof -
  have "idx_wf idx \<Longrightarrow> idx_wf (fold (\<lambda>(k, v) idx. idx_put k (metaValueStr ff v) (t_ID t) idx) es idx)" for es
    by (induction es arbitrary: idx) (auto intro: idx_wf_put)
  then show "idx_wf idx \<Longrightarrow> idx_wf (indexTask ff t idx)" by (simp add: indexTask_def)
qed

lemma idx_wf_deindexTask: "idx_wf idx \<Longrightarrow> idx_wf (deindexTask ff t idx)"
proof -
  have "idx_wf idx \<Longrightarrow> idx_wf (fold (\<lambda>(k, v) idx. idx_del k (metaValueStr ff v) (t_ID t) idx) es idx)" for es
    by (induction es arbitrary: idx) (auto intro: idx_wf_del)
  then show "idx_wf idx \<Longrightarrow> idx_wf (deindexTask ff t idx)" by (simp add: deindexTask_def)
qed

section \<open>The task repository\<close>

definition task_view :: "memoryTaskRepo \<Rightarrow> string \<Rightarrow> Task option" where
  "task_view r = typed_view as_Task (r_storage r)"

definition tasks_inv :: "(u64 \<Rightarrow> string) \<Rightarrow> memoryTaskRepo \<Rightarrow> bool" where
  "tasks_inv ff r \<longleftrightarrow>
     typed_inv as_Task t_ID (r_storage r) \<and> idx_wf (r_metaIdx r) \<and>
     (\<forall>k s. ids_at (r_metaIdx r) k s = {i. \<exists>t. task_view r i = Some t \<and> has_meta ff t k s})"

lemma tasks_inv_new [simp]: "tasks_inv ff newMemoryTaskRepository"
  using typed_inv_empty [of as_Task t_ID]
  by (simp add: tasks_inv_def newMemoryTaskRepository_def task_view_def typed_view_def ids_at_def idx_wf_def)

lemma task_view_key: "tasks_inv ff r \<Longrightarrow> task_view r k = Some t \<Longrightarrow> t_ID t = k \<and> k \<noteq> []"
  by (auto simp: tasks_inv_def task_view_def dest: typed_view_key)

lemma task_view_None: "tasks_inv ff r \<Longrightarrow> task_view r k = None \<longleftrightarrow> map_of (r_storage r) k = None"
  by (auto simp: tasks_inv_def task_view_def typed_view_None)

lemma tasks_inv_put:
  assumes inv: "tasks_inv ff r" and t: "t_ID t \<noteq> []" and wf: "idx_wf idx"
    and gone: "\<And>k s. ids_at idx k s = {i. i \<noteq> t_ID t \<and> (\<exists>u. task_view r i = Some u \<and> has_meta ff u k s)}"
    and r': "r' = \<lparr>r_storage = AList.update (t_ID t) (DTask t) (r_storage r), r_metaIdx = indexTask ff t idx\<rparr>"
  shows "tasks_inv ff r'" and "task_view r' = (task_view r)(t_ID t \<mapsto> t)"
proof -
  show view: "task_view r' = (task_view r)(t_ID t \<mapsto> t)" by (simp add: r' task_view_def)
  have "typed_inv as_Task t_ID (r_storage r')"
    using inv t by (simp add: r' tasks_inv_def typed_inv_update)
  moreover have "ids_at (r_metaIdx r') k s = {i. \<exists>u. task_view r' i = Some u \<and> has_meta ff u k s}" for k s
    unfolding view by (auto simp: r' gone)
  ultimately show "tasks_inv ff r'" using wf by (simp add: tasks_inv_def r' idx_wf_indexTask)
qed

lemma deindex_old_storage [simp]: "r_storage (deindex_old ff k r) = r_storage r"
  by (simp add: deindex_old_def split: sum.splits option.splits)

lemma deindex_old_wf: "tasks_inv ff r \<Longrightarrow> idx_wf (r_metaIdx (deindex_old ff k r))"
  by (simp add: deindex_old_def tasks_inv_def idx_wf_deindexTask split: sum.splits option.splits)

lemma deindex_old_ids:
  assumes "tasks_inv ff r"
  shows "ids_at (r_metaIdx (deindex_old ff k r)) key s =
    {i. i \<noteq> k \<and> (\<exists>u. task_view r i = Some u \<and> has_meta ff u key s)}"
proof -
  have idx: "ids_at (r_metaIdx r) key s = {i. \<exists>u. task_view r i = Some u \<and> has_meta ff u key s}"
    using assms by (simp add: tasks_inv_def)
  show ?thesis
  proof (cases "task_view r k")
    case None
    then have "map_of (r_storage r) k = None" using assms by (simp add: task_view_None)
    then have "deindex_old ff k r = r" by (simp add: deindex_old_def storage_Get_def)
    then show ?thesis using idx None by auto
  next
    case (Some t)
    then have "map_of (r_storage r) k = Some (DTask t)" "t_ID t = k" "k \<noteq> []"
      using assms task_view_key
      by (fastforce simp: task_view_def typed_view_def split: option.splits elim: as_Task.elims)+
    then have "r_metaIdx (deindex_old ff k r) = deindexTask ff t (r_metaIdx r)"
      by (simp add: deindex_old_def storage_Get_def)
    then show ?thesis using idx Some \<open>t_ID t = k\<close> by auto
  qed
qed

lemma tasks_put_eq:
  "r\<lparr>r_storage := s, r_metaIdx := idx\<rparr> = \<lparr>r_storage = s, r_metaIdx = idx\<rparr>"
  by simp

interpretation tasks: repository "tasks_Create ff" tasks_Get "tasks_Delete ff" t_ID task_view "tasks_inv ff" "tasks_Update ff"
  for ff
proof (unfold_locales, goal_cases)
  case (1 r k t)
  then show ?case by (rule task_view_key)
next
  case (2 r t)
  let ?r = "\<lparr>r_storage = AList.update (t_ID t) (DTask t) (r_storage r), r_metaIdx = indexTask ff t (r_metaIdx r)\<rparr>"
  have "tasks_Create ff t r = (Ok t, ?r)"
    using 2 by (simp add: tasks_Create_def storage_Create_def task_view_None)
  moreover have ids: "ids_at (r_metaIdx r) k s = {i. i \<noteq> t_ID t \<and> (\<exists>u. task_view r i = Some u \<and> has_meta ff u k s)}" for k s
    using 2 by (auto simp: tasks_inv_def)
  have wf: "idx_wf (r_metaIdx r)" using 2(1) by (simp add: tasks_inv_def)
  ultimately show ?case using tasks_inv_put [OF 2(1,2) wf ids refl] by simp
next
  case (3 r t)
  then show ?case
    by (auto simp: tasks_Create_def storage_Create_def task_view_None split: option.splits)
next
  case (4 r k)
  then have "typed_inv as_Task t_ID (r_storage r)" by (simp add: tasks_inv_def)
  then show ?case unfolding tasks_Get_def task_view_def by (rule typed_get)
next
  case (5 r k)
  have view: "task_view (snd (tasks_Delete ff k r)) = (task_view r)(k := None)"
    using 5 by (simp add: tasks_Delete_def storage_Delete_def Let_def task_view_def)
  moreover have "typed_inv as_Task t_ID (r_storage (snd (tasks_Delete ff k r)))"
    using 5 by (simp add: tasks_Delete_def storage_Delete_def Let_def tasks_inv_def typed_inv_delete)
  moreover have "r_metaIdx (snd (tasks_Delete ff k r)) = r_metaIdx (deindex_old ff k r)"
    by (simp add: tasks_Delete_def storage_Delete_def Let_def)
  moreover have "fst (tasks_Delete ff k r) = Ok ()"
    using 5 by (simp add: tasks_Delete_def storage_Delete_def Let_def)
  ultimately show ?case
    using deindex_old_ids [OF 5(1), of k] deindex_old_wf [OF 5(1), of k] unfolding tasks_inv_def by auto
next
  case (6 r)
  then show ?case by (simp add: tasks_Delete_def storage_Delete_def Let_def deindex_old_def storage_Get_def)
next
  case (7 r t)
  let ?idx = "r_metaIdx (deindex_old ff (t_ID t) r)"
  let ?r = "\<lparr>r_storage = AList.update (t_ID t) (DTask t) (r_storage r), r_metaIdx = indexTask ff t ?idx\<rparr>"
  have ne: "t_ID t \<noteq> []" using 7 by (metis option.exhaust task_view_key)
  have "tasks_Update ff t r = (Ok (), ?r)"
    using 7 ne by (auto simp: tasks_Update_def storage_Update_def task_view_None Let_def)
  then show ?case using tasks_inv_put [OF 7(1) ne deindex_old_wf [OF 7(1)] deindex_old_ids [OF 7(1)] refl] by simp
next
  case (8 r t)
  then have "map_of (r_storage r) (t_ID t) = None" by (simp add: task_view_None)
  then have "deindex_old ff (t_ID t) r = r" by (simp add: deindex_old_def storage_Get_def)
  with \<open>map_of _ _ = None\<close> show ?case by (simp add: tasks_Update_def storage_Update_def Let_def)
qed

section \<open>Listings\<close>

text \<open>The records of a repository in the order of their identifiers.\<close>

definition typed_values :: "(dval \<Rightarrow> 'a option) \<Rightarrow> dval storage \<Rightarrow> 'a list" where
  "typed_values prj s = List.map_filter prj (storage_values s)"

definition all_tasks :: "memoryTaskRepo \<Rightarrow> Task list" where
  "all_tasks r = typed_values as_Task (r_storage r)"

lemma typed_values_eq:
  assumes "typed_inv prj key s"
  shows "typed_values prj s = map (\<lambda>k. the (typed_view prj s k)) (storage_keys s)"
proof -
  have some: "prj (the (map_of s k)) \<noteq> None \<and> typed_view prj s k = prj (the (map_of s k))"
    if "k \<in> set (storage_keys s)" for k
    using that assms by (fastforce simp: typed_inv_def typed_view_def)
  then have "filter (\<lambda>k. prj (the (map_of s k)) \<noteq> None) (storage_keys s) = storage_keys s"
    by (simp add: filter_id_conv)
  then show ?thesis
    using some by (simp add: typed_values_def storage_values_def map_filter_def filter_map comp_def)
qed

lemma typed_values_some:
  assumes "typed_inv prj key s"
  shows "map prj (storage_values s) = map Some (typed_values prj s)"
proof -
  have "prj (the (map_of s k)) = Some (the (typed_view prj s k))" if "k \<in> set (storage_keys s)" for k
    using that assms by (fastforce simp: typed_inv_def typed_view_def)
  then show ?thesis using typed_values_eq [OF assms] by (simp add: storage_values_def)
qed

lemma typed_values_length: "typed_inv prj key s \<Longrightarrow> length (typed_values prj s) = length s"
  by (simp add: typed_values_eq)

lemma storage_values_length [simp]: "length (storage_values s) = length s"
  by (simp add: storage_values_def)

lemma typed_view_Some_keys:
  "typed_inv prj key s \<Longrightarrow> k \<in> set (storage_keys s) \<longleftrightarrow> (\<exists>a. typed_view prj s k = Some a \<and> key a = k)"
  by (fastforce simp: typed_inv_def typed_view_def split: option.splits)

lemma typed_values_keys:
  assumes "typed_inv prj key s"
  shows "map key (typed_values prj s) = storage_keys s"
  using typed_view_Some_keys [OF assms] unfolding typed_values_eq [OF assms]
  by (force intro: map_idI simp del: storage_keys_set)

lemma typed_values_mem:
  assumes "typed_inv prj key s"
  shows "a \<in> set (typed_values prj s) \<longleftrightarrow> typed_view prj s (key a) = Some a"
proof -
  have "a \<in> set (typed_values prj s) \<longleftrightarrow> (\<exists>k. k \<in> set (storage_keys s) \<and> a = the (typed_view prj s k))"
    by (auto simp: typed_values_eq [OF assms] simp del: storage_keys_set)
  also have "\<dots> \<longleftrightarrow> typed_view prj s (key a) = Some a"
    using typed_view_key [OF assms] unfolding typed_view_Some_keys [OF assms]
    by (metis option.sel)
  finally show ?thesis .
qed

lemma typed_values_distinct: "typed_inv prj key s \<Longrightarrow> distinct (map key (typed_values prj s))"
  by (simp add: typed_values_keys typed_inv_def)

lemma typed_values_sorted: "typed_inv prj key s \<Longrightarrow> sorted (map key (typed_values prj s))"
  by (simp add: typed_values_keys storage_keys_def)

lemma those_map_Some [simp]: "those (map Some xs) = Some xs"
  by (induction xs) auto

lemma map_filter_Some [simp]: "List.map_filter id (map Some xs) = xs"
  by (induction xs) (auto simp: map_filter_def)

lemma typed_page:
  assumes "typed_inv prj key s"
  shows "map prj (take n (drop i (storage_values s))) = map Some (take n (drop i (typed_values prj s)))"
  using typed_values_some [OF assms] by (simp add: take_map drop_map flip: take_map drop_map)

lemma map_filter_page:
  assumes "typed_inv prj key s"
  shows "List.map_filter prj (take n (drop i (storage_values s))) = take n (drop i (typed_values prj s))"
proof -
  have "List.map_filter prj xs = List.map_filter id (map prj xs)" for xs
    by (induction xs) (auto simp: map_filter_def)
  then show ?thesis by (simp only: typed_page [OF assms] map_filter_Some)
qed

lemma MaxUint64_unat [simp]: "unat MaxUint64 = 2 ^ 64 - 1"
  by (simp add: MaxUint64_def unsigned_minus_1_eq_mask mask_nat_def)

lemma storage_List_all:
  assumes "length s < 2 ^ 64"
  shows "storage_List 0 MaxUint64 s = Ok (storage_values s, u64_len s)"
proof -
  have "storage_List 0 MaxUint64 s
      = Ok (take (unat MaxUint64) (storage_values s), u64_len (storage_values s))"
    using storage_List_page [OF assms, of 0 MaxUint64] by simp
  moreover have "length s \<le> unat MaxUint64" using assms by simp
  ultimately show ?thesis by (simp add: u64_len_def)
qed

lemma proplets_List_page:
  assumes "proplets_inv s" "length s < 2 ^ 64" "unat off + unat lim < 2 ^ 64"
  shows "proplets_List off lim s =
    Ok (take (unat lim) (drop (unat off) (typed_values as_Proplet s)), u64_len s)"
  by (simp add: proplets_List_def storage_List_page [OF assms(2,3)] typed_page [OF assms(1)] u64_len_def)

lemma listAll_page:
  assumes "tasks_inv ff r" "length (r_storage r) < 2 ^ 64" "unat off + unat lim < 2 ^ 64"
  shows "listAll off lim r = Ok (take (unat lim) (drop (unat off) (all_tasks r)), u64_len (r_storage r))"
proof -
  have "typed_inv as_Task t_ID (r_storage r)" using assms(1) by (simp add: tasks_inv_def)
  from typed_page [OF this] show ?thesis
    by (simp add: listAll_def storage_List_page [OF assms(2,3)] all_tasks_def u64_len_def)
qed

lemma jobs_List_page:
  assumes "jobs_inv s" "length s < 2 ^ 64" "unat off + unat lim < 2 ^ 64"
  shows "jobs_List off lim s = Ok (take (unat lim) (drop (unat off) (typed_values as_Job s)), u64_len s)"
  by (simp add: jobs_List_def storage_List_page [OF assms(2,3)] map_filter_page [OF assms(1)] u64_len_def)

lemma ListByWorkflowID_eq:
  assumes "length (r_storage r) < 2 ^ 64"
  shows "ListByWorkflowID wid r = Ok (filter (\<lambda>t. t_WorkflowID t = wid) (all_tasks r))"
  by (simp add: ListByWorkflowID_def storage_List_all [OF assms] all_tasks_def typed_values_def)

lemma ListByJobID_eq:
  assumes "length (r_storage r) < 2 ^ 64"
  shows "ListByJobID jid r = Ok (filter (\<lambda>t. t_JobID t = jid) (all_tasks r))"
  by (simp add: ListByJobID_def storage_List_all [OF assms] all_tasks_def typed_values_def)

lemma page_result:
  assumes "length xs < 2 ^ 64" "unat off + unat lim < 2 ^ 64"
  shows "(if u64_len xs \<le> off then Ok ([], u64_len xs)
     else case slice_u64 xs off (min (off + lim) (u64_len xs)) of Err e \<Rightarrow> Err e | Ok page \<Rightarrow> Ok (page, u64_len xs))
    = Ok (take (unat lim) (drop (unat off) xs), u64_len xs)"
proof (cases "u64_len xs \<le> off")
  case True
  then show ?thesis using assms(1) by (simp add: word_le_nat_alt)
next
  case False
  then show ?thesis using slice_page [OF assms] by simp
qed

lemma ListByAlive_page:
  assumes "length s < 2 ^ 64" "unat off + unat lim < 2 ^ 64"
    and ps_def: "ps = filter (\<lambda>p. alive_since since p = alive) (typed_values as_Proplet s)"
  shows "ListByAlive off lim alive since s = Ok (take (unat lim) (drop (unat off) ps), u64_len ps)"
proof -
  have "length (typed_values as_Proplet s) \<le> length (storage_values s)"
    unfolding typed_values_def map_filter_def length_map by (rule length_filter_le)
  then have "length (typed_values as_Proplet s) < 2 ^ 64" using assms(1) by simp
  then have "length ps < 2 ^ 64"
    unfolding ps_def by (rule le_less_trans [OF length_filter_le])
  from page_result [OF this assms(2)] show ?thesis
    unfolding ListByAlive_def storage_List_all [OF assms(1)] sum.case prod.case Let_def
      typed_values_def [symmetric] ps_def [symmetric] .
qed

lemma GetAliveHistory_page:
  assumes "proplets_Get pid s = Ok p" "length (p_AliveHistory p) < 2 ^ 64" "unat off + unat lim < 2 ^ 64"
  shows "GetAliveHistory pid off lim s =
    Ok (take (unat lim) (drop (unat off) (p_AliveHistory p)), u64_len (p_AliveHistory p))"
  using page_result [OF assms(2,3)] by (simp add: GetAliveHistory_def assms(1) Let_def)

section \<open>Listing by metadata\<close>

definition matches :: "(u64 \<Rightarrow> string) \<Rightarrow> anymap option \<Rightarrow> Task \<Rightarrow> bool" where
  "matches ff filt t \<longleftrightarrow> list_all (\<lambda>(k, v). has_meta ff t k (metaValueStr ff v)) (entries filt)"

interpretation by_id: cmp_by_key cmp_ID t_ID
  by unfold_locales (auto simp: cmp_ID_def)

definition ids_for :: "(u64 \<Rightarrow> string) \<Rightarrow> metaIdx \<Rightarrow> (string \<times> any) list \<Rightarrow> string set" where
  "ids_for ff idx es = (\<Inter>(k, v)\<in>set es. ids_at idx k (metaValueStr ff v))"

definition candidates :: "string list option \<Rightarrow> string set" where
  "candidates m = (case m of None \<Rightarrow> UNIV | Some ids \<Rightarrow> set ids)"

lemma filter_ids_set:
  assumes "idx_wf idx"
  shows "(case matchIDs of None \<Rightarrow> es \<noteq> [] | Some ids \<Rightarrow> distinct ids \<and> ids \<noteq> []) \<Longrightarrow>
    (case filter_ids ff idx es matchIDs of
       None \<Rightarrow> candidates matchIDs \<inter> ids_for ff idx es = {}
     | Some ids' \<Rightarrow> distinct ids' \<and> ids' \<noteq> [] \<and> set ids' = candidates matchIDs \<inter> ids_for ff idx es)"
proof (induction es arbitrary: matchIDs)
  case Nil
  then show ?case by (cases matchIDs) (simp_all add: candidates_def ids_for_def)
next
  case (Cons e es)
  obtain k v where e: "e = (k, v)" by fastforce
  have step: "ids_for ff idx (e # es) = ids_at idx k (metaValueStr ff v) \<inter> ids_for ff idx es"
    by (simp add: ids_for_def e)
  show ?case
  proof (cases "\<exists>vals ids. map_of idx k = Some vals \<and> map_of vals (metaValueStr ff v) = Some ids")
    case False
    then have "ids_at idx k (metaValueStr ff v) = {}" and "filter_ids ff idx (e # es) matchIDs = None"
      using e by (auto simp: ids_at_def split: option.splits)
    then show ?thesis by (simp add: step)
  next
    case True
    then obtain vals taskIDs where look: "map_of idx k = Some vals" "map_of vals (metaValueStr ff v) = Some taskIDs"
      by blast
    define ids where "ids = (case matchIDs of None \<Rightarrow> taskIDs | Some ids \<Rightarrow> filter (\<lambda>i. i \<in> set taskIDs) ids)"
    have at: "ids_at idx k (metaValueStr ff v) = set taskIDs" using look by (simp add: ids_at_def)
    have "distinct taskIDs" using assms look unfolding idx_wf_def by blast
    then have d: "distinct ids" using Cons.prems by (cases matchIDs) (simp_all add: ids_def)
    have set: "candidates (Some ids) = candidates matchIDs \<inter> ids_at idx k (metaValueStr ff v)"
      by (cases matchIDs) (auto simp: ids_def candidates_def at)
    have run: "filter_ids ff idx (e # es) matchIDs = (if ids = [] then None else filter_ids ff idx es (Some ids))"
      using look e by (simp add: ids_def Let_def)
    have goal: "candidates matchIDs \<inter> ids_for ff idx (e # es) = candidates (Some ids) \<inter> ids_for ff idx es"
      by (simp only: step set Int_assoc)
    show ?thesis
    proof (cases "ids = []")
      case True
      then have "candidates (Some ids) = {}" by (simp add: candidates_def)
      then show ?thesis unfolding goal run using True by simp
    next
      case False
      then show ?thesis unfolding goal run using Cons.IH [of "Some ids"] d by simp
    qed
  qed
qed

lemma tasks_by_ids_set:
  assumes "tasks_inv ff r"
  shows "set (tasks_by_ids ids r) = {t. task_view r (t_ID t) = Some t \<and> t_ID t \<in> set ids}"
    and "distinct ids \<Longrightarrow> distinct (map t_ID (tasks_by_ids ids r))"
proof -
  let ?f = "\<lambda>i. case storage_Get i (r_storage r) of Err _ \<Rightarrow> None | Ok data \<Rightarrow> as_Task data"
  have f: "?f i = task_view r i" for i
    using assms map_of_key_ne [of "r_storage r" i]
    by (auto simp: storage_Get_def task_view_def typed_view_def tasks_inv_def typed_inv_def split: option.splits)
  have key: "task_view r i = Some t \<Longrightarrow> t_ID t = i" for i t using task_view_key [OF assms] by blast
  have eq: "tasks_by_ids ids r = map (\<lambda>i. the (task_view r i)) (filter (\<lambda>i. task_view r i \<noteq> None) ids)" for ids
    unfolding tasks_by_ids_def f map_filter_def by (simp add: comp_def)
  show "set (tasks_by_ids ids r) = {t. task_view r (t_ID t) = Some t \<and> t_ID t \<in> set ids}"
  proof (intro set_eqI iffI)
    fix t assume "t \<in> set (tasks_by_ids ids r)"
    then obtain i where "i \<in> set ids" "task_view r i = Some t" unfolding eq by auto
    then show "t \<in> {t. task_view r (t_ID t) = Some t \<and> t_ID t \<in> set ids}" using key by auto
  next
    fix t assume "t \<in> {t. task_view r (t_ID t) = Some t \<and> t_ID t \<in> set ids}"
    then show "t \<in> set (tasks_by_ids ids r)" unfolding eq by force
  qed
  have "map t_ID (tasks_by_ids ids r) = filter (\<lambda>i. task_view r i \<noteq> None) ids"
    unfolding eq map_map by (rule map_idI) (auto dest: key)
  then show "distinct ids \<Longrightarrow> distinct (map t_ID (tasks_by_ids ids r))" by simp
qed

lemma all_tasks_mem: "tasks_inv ff r \<Longrightarrow> t \<in> set (all_tasks r) \<longleftrightarrow> task_view r (t_ID t) = Some t"
  by (simp add: all_tasks_def task_view_def tasks_inv_def typed_values_mem [of as_Task t_ID])

lemma all_tasks_sorted:
  "tasks_inv ff r \<Longrightarrow> sorted (map t_ID (all_tasks r)) \<and> distinct (map t_ID (all_tasks r))"
  by (simp add: all_tasks_def tasks_inv_def typed_values_sorted [of as_Task t_ID] typed_values_distinct [of as_Task t_ID])

text \<open>Two lists of tasks in strictly increasing order of identifiers with the same elements are equal.\<close>

lemma sorted_tasks_unique:
  fixes xs ys :: "Task list"
  assumes "sorted (map t_ID xs)" "distinct (map t_ID xs)" "sorted (map t_ID ys)" "distinct (map t_ID ys)"
    "set xs = set ys"
  shows "xs = ys"
proof -
  have "map t_ID xs = map t_ID ys"
    using assms by (intro sorted_distinct_set_unique) simp_all
  moreover have "inj_on t_ID (set xs \<union> set ys)"
    using assms by (simp add: distinct_map)
  ultimately show ?thesis by (rule map_inj_on)
qed

lemma matches_ids:
  assumes "tasks_inv ff r" "task_view r i = Some t"
  shows "i \<in> ids_for ff (r_metaIdx r) (entries filt) \<longleftrightarrow> matches ff filt t"
proof -
  have "ids_at (r_metaIdx r) k s = {i. \<exists>t. task_view r i = Some t \<and> has_meta ff t k s}" for k s
    using assms(1) by (simp add: tasks_inv_def)
  then show ?thesis using assms(2) by (auto simp: ids_for_def matches_def list_all_iff)
qed

lemma filtered_tasks:
  assumes inv: "tasks_inv ff r" and d: "distinct ids"
    and ids: "set ids = ids_for ff (r_metaIdx r) (entries filt)"
  shows "slices_SortFunc cmp_ID (tasks_by_ids ids r) = filter (matches ff filt) (all_tasks r)"
proof (rule sorted_tasks_unique)
  let ?ts = "slices_SortFunc cmp_ID (tasks_by_ids ids r)"
  show "sorted (map t_ID ?ts)" by (rule by_id.sort_sorted)
  have "mset (map t_ID ?ts) = mset (map t_ID (tasks_by_ids ids r))" by simp
  then show "distinct (map t_ID ?ts)"
    using tasks_by_ids_set(2) [OF inv d] mset_eq_imp_distinct_iff by blast
  show "sorted (map t_ID (filter (matches ff filt) (all_tasks r)))"
    using all_tasks_sorted [OF inv] by (simp add: sorted_filter)
  show "distinct (map t_ID (filter (matches ff filt) (all_tasks r)))"
    using all_tasks_sorted [OF inv] by (simp add: distinct_map_filter)
  show "set ?ts = set (filter (matches ff filt) (all_tasks r))"
    using tasks_by_ids_set(1) [OF inv, of ids] matches_ids [OF inv] all_tasks_mem [OF inv]
    by (auto simp: ids)
qed

lemma length_all_tasks: "tasks_inv ff r \<Longrightarrow> length (all_tasks r) = length (r_storage r)"
  by (simp add: all_tasks_def tasks_inv_def typed_values_length [of as_Task t_ID])

lemma listByMetadata_page:
  assumes inv: "tasks_inv ff r" and filt: "entries filt \<noteq> []"
    and bounds: "length (r_storage r) < 2 ^ 64" "unat off + unat lim < 2 ^ 64"
    and ts: "ts = filter (matches ff filt) (all_tasks r)"
  shows "listByMetadata ff filt off lim r = Ok (take (unat lim) (drop (unat off) ts), u64_len ts)"
proof -
  have wf: "idx_wf (r_metaIdx r)" using inv by (simp add: tasks_inv_def)
  have "length ts \<le> length (all_tasks r)" unfolding ts by (rule length_filter_le)
  then have len: "length ts < 2 ^ 64" using bounds(1) length_all_tasks [OF inv] by simp
  show ?thesis
  proof (cases "filterIDsByMetadata ff filt r")
    case None
    then have "ids_for ff (r_metaIdx r) (entries filt) = {}"
      using filter_ids_set [OF wf, of "entries filt" None ff] filt
      by (simp add: filterIDsByMetadata_def candidates_def)
    then have "ts = []"
      unfolding ts filter_empty_conv using all_tasks_mem [OF inv] matches_ids [OF inv] by blast
    then show ?thesis using None by (simp add: listByMetadata_def u64_len_def)
  next
    case (Some ids)
    then have ids: "distinct ids" "ids \<noteq> []" "set ids = ids_for ff (r_metaIdx r) (entries filt)"
      using filter_ids_set [OF wf, of "entries filt" None ff] filt
      by (simp_all add: filterIDsByMetadata_def candidates_def)
    have "slices_SortFunc cmp_ID (tasks_by_ids ids r) = ts"
      unfolding ts by (rule filtered_tasks [OF inv ids(1,3)])
    then show ?thesis
      using page_result [OF len bounds(2)] Some ids(2) by (simp add: listByMetadata_def Let_def)
  qed
qed

lemma tasks_List_page:
  assumes inv: "tasks_inv ff r" and bounds: "length (r_storage r) < 2 ^ 64" "unat off + unat lim < 2 ^ 64"
    and ts: "ts = filter (matches ff filt) (all_tasks r)"
  shows "tasks_List ff filt off lim r = Ok (take (unat lim) (drop (unat off) ts), u64_len ts)"
proof (cases "entries filt = []")
  case True
  then have "ts = all_tasks r" by (simp add: ts matches_def)
  then show ?thesis
    using True listAll_page [OF inv bounds] length_all_tasks [OF inv]
    by (simp add: tasks_List_def u64_len_def)
next
  case False
  then show ?thesis using listByMetadata_page [OF inv False bounds ts] by (simp add: tasks_List_def)
qed

section \<open>The scan loops of the metrics repository\<close>

lemma take_drop_snoc:
  "take n (drop i (xs @ [x])) =
     (if i \<le> length xs \<and> length (take n (drop i xs)) < n then take n (drop i xs) @ [x] else take n (drop i xs))"
  by (cases "i \<le> length xs") (auto simp: take_Cons' min_def)

lemma scan_page_result:
  assumes "length prev + length (List.map_filter pick data) < 2 ^ 64"
  shows "scan_page pick off lim data (u64_len prev) (take (unat lim) (drop (unat off) prev)) =
    (u64_len (prev @ List.map_filter pick data),
     take (unat lim) (drop (unat off) (prev @ List.map_filter pick data)))"
  using assms
proof (induction data arbitrary: prev)
  case Nil
  then show ?case by (simp add: map_filter_def)
next
  case (Cons d ds)
  show ?case
  proof (cases "pick d")
    case None
    then show ?thesis using Cons by (simp add: map_filter_simps)
  next
    case (Some m)
    let ?f = "take (unat lim) (drop (unat off) prev)"
    have len: "length prev < 2 ^ 64" "length ?f < 2 ^ 64" using Cons.prems by simp_all
    have "off \<le> u64_len prev \<longleftrightarrow> unat off \<le> length prev" using len by (simp add: word_le_nat_alt)
    moreover have "u64_len ?f < lim \<longleftrightarrow> length ?f < unat lim"
      using unat_u64_len [OF len(2)] by (simp add: word_less_nat_alt)
    ultimately have step: "(if off \<le> u64_len prev \<and> u64_len ?f < lim then ?f @ [m] else ?f)
        = take (unat lim) (drop (unat off) (prev @ [m]))"
      using take_drop_snoc [of "unat lim" "unat off" prev m] by simp
    have "u64_len prev + 1 = u64_len (prev @ [m])" by (simp add: u64_len_def)
    then show ?thesis
      using Cons.IH [of "prev @ [m]"] Cons.prems Some step by (simp add: map_filter_simps)
  qed
qed

lemma map_filter_length_le: "length (List.map_filter f xs) \<le> length xs"
  by (simp add: map_filter_def)

lemma map_filter_append: "List.map_filter f (xs @ ys) = List.map_filter f xs @ List.map_filter f ys"
  by (simp add: map_filter_def)

lemma scan_loop_result:
  assumes len: "length s < 2 ^ 64 - 100"
  shows "unat so \<le> length s \<Longrightarrow> prev = List.map_filter pick (take (unat so) (storage_values s)) \<Longrightarrow>
    tot = u64_len prev \<Longrightarrow> filtered = take (unat lim) (drop (unat off) prev) \<Longrightarrow>
    scan_loop pick off lim s so tot filtered =
      Ok (u64_len (List.map_filter pick (storage_values s)),
          take (unat lim) (drop (unat off) (List.map_filter pick (storage_values s))))"
  using len
proof (induction pick off lim s so tot filtered arbitrary: prev rule: scan_loop.induct)
  case (1 pick off lim s so tot filtered)
  let ?V = "storage_values s"
  define data where "data = take 100 (drop (unat so) ?V)"
  have page: "storage_List so memoryScanPageSize s = Ok (data, u64_len ?V)"
    using storage_List_page [of s so memoryScanPageSize] "1.prems"(1,5)
    by (simp add: memoryScanPageSize_def data_def)
  show ?case
  proof (cases "data = []")
    case True
    then have "length s \<le> unat so" by (simp add: data_def)
    then have "take (unat so) ?V = ?V" by simp
    then show ?thesis using True page "1.prems" by (simp add: scan_loop.simps [of pick off lim s so])
  next
    case False
    define prev' where "prev' = prev @ List.map_filter pick data"
    define so' where "so' = so + u64_len data"
    have lens: "length data \<le> 100" "length data + unat so \<le> length s"
      using "1.prems"(1) by (auto simp: data_def)
    have so': "unat so' = unat so + length data"
      using lens "1.prems"(5) by (simp add: so'_def unat_add_no_wrap)
    have split: "take (unat so') ?V = take (unat so) ?V @ data"
    proof -
      have "take (unat so + length data) ?V = take (unat so) ?V @ take (length data) (drop (unat so) ?V)"
        by (rule take_add)
      moreover have "take (length data) (drop (unat so) ?V) = data" by (auto simp: data_def min_def)
      ultimately show ?thesis using so' by simp
    qed
    have prev': "prev' = List.map_filter pick (take (unat so') ?V)"
      using "1.prems"(2) by (simp add: split prev'_def map_filter_append)
    have "length prev' \<le> length s"
      unfolding prev' using map_filter_length_le [of pick "take (unat so') ?V"] by simp
    then have run: "scan_page pick off lim data tot filtered = (u64_len prev', take (unat lim) (drop (unat off) prev'))"
      using scan_page_result [of prev pick data off lim] "1.prems"(3,4,5) by (simp add: prev'_def)
    have unfold: "scan_loop pick off lim s so tot filtered =
        (if u64_len ?V \<le> so' then Ok (u64_len prev', take (unat lim) (drop (unat off) prev'))
         else scan_loop pick off lim s so' (u64_len prev') (take (unat lim) (drop (unat off) prev')))"
      using page False run by (simp add: scan_loop.simps [of pick off lim s so] so'_def)
    show ?thesis
    proof (cases "u64_len ?V \<le> so'")
      case True
      then have "length s \<le> unat so'" using "1.prems"(5) by (simp add: word_le_nat_alt)
      then have "prev' = List.map_filter pick ?V" using prev' by simp
      then show ?thesis using unfold True by simp
    next
      case more: False
      have "unat so' \<le> length s" using so' lens by simp
      then show ?thesis
        using "1.IH" [OF page refl False run [symmetric] refl so'_def, of prev'] more unfold prev' "1.prems"(5) by simp
    qed
  qed
qed

lemma scan_all_page:
  assumes "length s < 2 ^ 64 - 100" and ms: "ms = List.map_filter pick (storage_values s)"
  shows "scan_all pick off lim s = Ok (take (unat lim) (drop (unat off) ms), u64_len ms)"
proof -
  have "scan_loop pick off lim s 0 0 [] = Ok (u64_len ms, take (unat lim) (drop (unat off) ms))"
    using scan_loop_result [OF assms(1), where so = 0 and prev = "[]" and tot = 0 and filtered = "[]" and lim = lim]
    by (simp add: ms u64_len_def map_filter_def)
  moreover have "length ms < 2 ^ 64"
    using assms(1) map_filter_length_le [of pick "storage_values s"] by (simp add: ms)
  ultimately show ?thesis by (simp add: scan_all_def word_le_nat_alt)
qed

lemma ListTaskMetrics_page:
  assumes "length s < 2 ^ 64 - 100"
    and "ms = filter (\<lambda>m. tm_TaskID m = taskID) (List.map_filter as_TaskMetrics (storage_values s))"
  shows "ListTaskMetrics taskID off lim s = Ok (take (unat lim) (drop (unat off) ms), u64_len ms)"
proof -
  have "List.map_filter (\<lambda>d. case as_TaskMetrics d of None \<Rightarrow> None | Some m \<Rightarrow> if tm_TaskID m \<noteq> taskID then None else Some m) ds
      = filter (\<lambda>m. tm_TaskID m = taskID) (List.map_filter as_TaskMetrics ds)" for ds
    by (induction ds) (auto simp: map_filter_simps split: option.splits)
  then show ?thesis
    unfolding ListTaskMetrics_def assms(2) by (simp add: scan_all_page [OF assms(1)])
qed

section \<open>Properties\<close>

text \<open>
  C8. The metadata index of the task repository agrees with its storage: this holds for the
  empty repository and every creation, update and deletion keeps it, whether the operation
  succeeds or fails.
\<close>

theorem task_repository_invariant:
  "tasks_inv ff newMemoryTaskRepository \<and>
   (tasks_inv ff r \<longrightarrow> tasks_inv ff (snd (tasks_Create ff t r)) \<and> tasks_inv ff (snd (tasks_Update ff t r)) \<and>
     tasks_inv ff (snd (tasks_Delete ff i r)))"
  by (simp add: tasks.create_inv tasks.upd_inv tasks.del_inv)

lemma task_repository_invariant_witness:
  "tasks_inv (\<lambda>_. []) (snd (tasks_Update (\<lambda>_. []) (Task_zero\<lparr>t_ID := ''a''\<rparr>) newMemoryTaskRepository))"
  using task_repository_invariant [of "\<lambda>_. []" newMemoryTaskRepository "Task_zero\<lparr>t_ID := ''a''\<rparr>" "[]"] by simp

text \<open>
  C9. Listing with a metadata filter through the index returns what a scan of all tasks
  would: the tasks that carry every entry of the filter, in the order of their identifiers,
  from the offset and at most \<open>limit\<close> of them, with the number of all matches.
\<close>

theorem tasks_List_equals_scan:
  assumes "tasks_inv ff r" "length (r_storage r) < 2 ^ 64" "unat off + unat lim < 2 ^ 64"
  shows "tasks_List ff filt off lim r =
    (let found = filter (matches ff filt) (all_tasks r)
     in Ok (take (unat lim) (drop (unat off) found), u64_len found))"
  using tasks_List_page [OF assms refl] by (simp add: Let_def)

lemma tasks_List_equals_scan_witness:
  "let t = Task_zero\<lparr>t_ID := ''a'', t_Metadata := Some [(''k'', AString ''v'')]\<rparr>;
       r = snd (tasks_Create (\<lambda>_. []) t newMemoryTaskRepository)
   in tasks_List (\<lambda>_. []) (Some [(''k'', AString ''v'')]) 0 10 r = Ok ([t], 1)"
proof -
  let ?t = "Task_zero\<lparr>t_ID := ''a'', t_Metadata := Some [(''k'', AString ''v'')]\<rparr>"
  let ?r = "snd (tasks_Create (\<lambda>_. []) ?t newMemoryTaskRepository)"
  have st: "r_storage ?r = [(''a'', DTask ?t)]"
    by (simp add: tasks_Create_def storage_Create_def newMemoryTaskRepository_def NewInMemoryStorage_def)
  have "all_tasks ?r = [?t]"
    unfolding all_tasks_def st by (simp add: typed_values_def storage_values_def storage_keys_def map_filter_def)
  moreover have "tasks_inv (\<lambda>_. []) ?r" by (simp add: tasks.create_inv)
  ultimately show ?thesis
    using tasks_List_equals_scan [of "\<lambda>_. []" ?r 0 10 "Some [(''k'', AString ''v'')]"] st
    by (simp add: Let_def matches_def entries_def has_meta_def metaValueStr_def u64_len_def)
qed

text \<open>
  C29. The paged scan over the metrics store ends, and returns the requested page of the
  metrics of one task, in the order of their keys, with the number of all of them.
\<close>

theorem ListTaskMetrics_correct:
  assumes "length s < 2 ^ 64 - 100"
  shows "ListTaskMetrics taskID off lim s =
    (let ms = filter (\<lambda>m. tm_TaskID m = taskID) (List.map_filter as_TaskMetrics (storage_values s))
     in Ok (take (unat lim) (drop (unat off) ms), u64_len ms))"
  using ListTaskMetrics_page [OF assms refl] by (simp add: Let_def)

lemma ListTaskMetrics_correct_witness: "ListTaskMetrics ''t'' 0 10 NewInMemoryStorage = Ok ([], 0)"
  using ListTaskMetrics_correct [of NewInMemoryStorage "''t''" 0 10]
  by (simp add: NewInMemoryStorage_def storage_values_def storage_keys_def map_filter_def u64_len_def)

end
