(* ===== verification/Plugin.thy ===== *)
theory Plugin
  imports Task Proplet
begin

text \<open>
  The plugin interface of \<^verbatim>\<open>pkg/plugin\<close> and what the manager does with the answers of its
  plugins: the merged placement constraints and the dispatch hook of \<^verbatim>\<open>manager/service.go\<close>, the
  authorisation and the enrichment of \<^verbatim>\<open>manager/middleware/plugin.go\<close>.

  A plugin is a WebAssembly guest and not part of the sources: it is a record of functions.
  Their first argument is a call number, so that a guest may answer the same request
  differently at different times; the loops below thread the number of the next call.
\<close>

section \<open>Requests and responses\<close>

type_synonym strmap = "(string \<times> string) list"

text \<open>\<open>maps.Copy(dst, src)\<close>.\<close>

definition maps_Copy :: "strmap \<Rightarrow> strmap \<Rightarrow> strmap" where
  "maps_Copy dst src = fold (\<lambda>(k, v) m. AList.update k v m) (AList.clearjunk src) dst"

record TaskInfo =
  ti_ID :: string
  ti_Name :: string
  ti_Kind :: string
  ti_ImageURL :: string
  ti_Inputs :: "string list option"
  ti_CLIArgs :: "string list"
  ti_Env :: "strmap option"
  ti_PropletID :: string
  ti_Priority :: int
  ti_Daemon :: bool
  ti_Encrypted :: bool
  ti_CreatedAt :: gotime

definition NewTaskInfo :: "Task \<Rightarrow> TaskInfo" where
  "NewTaskInfo t = \<lparr>ti_ID = t_ID t, ti_Name = t_Name t, ti_Kind = t_Kind t, ti_ImageURL = t_ImageURL t,
     ti_Inputs = t_Inputs t, ti_CLIArgs = t_CLIArgs t, ti_Env = t_Env t, ti_PropletID = t_PropletID t,
     ti_Priority = t_Priority t, ti_Daemon = t_Daemon t, ti_Encrypted = t_Encrypted t,
     ti_CreatedAt = t_CreatedAt t\<rparr>"

type_synonym Action = string

definition ActionCreate :: Action where "ActionCreate = ''create''"
definition ActionStart :: Action where "ActionStart = ''start''"
definition ActionStop :: Action where "ActionStop = ''stop''"
definition ActionInvoke :: Action where "ActionInvoke = ''invoke''"
definition ActionDelete :: Action where "ActionDelete = ''delete''"
definition ActionUpdate :: Action where "ActionUpdate = ''update''"

record AuthContext =
  ac_UserID :: string
  ac_Token :: string
  ac_Action :: Action

definition AuthContext_zero :: AuthContext where
  "AuthContext_zero = \<lparr>ac_UserID = [], ac_Token = [], ac_Action = []\<rparr>"

text \<open>The two values the code stores in a \<open>context.Context\<close>.\<close>

record ctx =
  cx_auth :: "AuthContext option"
  cx_system :: bool

definition SystemUserID :: string where "SystemUserID = ''system''"

definition ContextWithAuth :: "ctx \<Rightarrow> AuthContext \<Rightarrow> ctx" where
  "ContextWithAuth c auth = c\<lparr>cx_auth := Some auth\<rparr>"

definition AuthFromContext :: "ctx \<Rightarrow> AuthContext" where
  "AuthFromContext c = (case cx_auth c of None \<Rightarrow> AuthContext_zero | Some v \<Rightarrow> v)"

definition ContextWithSystem :: "ctx \<Rightarrow> ctx" where
  "ContextWithSystem c = ContextWithAuth (c\<lparr>cx_system := True\<rparr>) (AuthContext_zero\<lparr>ac_UserID := SystemUserID\<rparr>)"

definition IsSystemInitiated :: "ctx \<Rightarrow> bool" where
  "IsSystemInitiated c = cx_system c"

record AuthorizeRequest =
  ar_Context :: AuthContext
  ar_Task :: TaskInfo

record AuthorizeResponse =
  as_Allow :: bool
  as_Reason :: string

record EnrichRequest =
  er_Context :: AuthContext
  er_Task :: TaskInfo

record EnrichResponse =
  en_Env :: "strmap option"
  en_Priority :: "int option"
  en_Inputs :: "string list"
  en_ImageURL :: string

record TaskEvent =
  ev_Task :: TaskInfo
  ev_Success :: bool
  ev_Result :: string
  ev_Error :: string

record PropletInfo =
  pi_ID :: string
  pi_Name :: string
  pi_Tags :: "string list"
  pi_TotalMemoryBytes :: u64
  pi_Location :: string

record PropletSelectRequest =
  sr_Context :: AuthContext
  sr_Task :: TaskInfo

record PropletSelectResponse =
  sp_Allow :: bool
  sp_Reason :: string
  sp_RequiredTags :: "string list"
  sp_MinMemoryBytes :: "u64 option"

record DispatchRequest =
  dr_Context :: AuthContext
  dr_Task :: TaskInfo
  dr_Proplet :: PropletInfo

record DispatchResponse =
  dp_Allow :: bool
  dp_Reason :: string
  dp_ExtraEnv :: strmap

record plugin =
  pl_Name :: string
  pl_Authorize :: "nat \<Rightarrow> AuthorizeRequest \<Rightarrow> AuthorizeResponse result"
  pl_Enrich :: "nat \<Rightarrow> EnrichRequest \<Rightarrow> EnrichResponse result"
  pl_OnBeforePropletSelect :: "nat \<Rightarrow> PropletSelectRequest \<Rightarrow> PropletSelectResponse result"
  pl_OnBeforeDispatch :: "nat \<Rightarrow> DispatchRequest \<Rightarrow> DispatchResponse result"

section \<open>Placement constraints\<close>

text \<open>The loop over \<open>resp.RequiredTags\<close>: tags that are not there yet are appended.\<close>

definition append_missing :: "string list \<Rightarrow> string list \<Rightarrow> string list" where
  "append_missing xs ys = fold (\<lambda>v acc. if v \<in> set acc then acc else acc @ [v]) ys xs"

definition merge_select :: "PropletSelectResponse \<Rightarrow> PropletSelectResponse \<Rightarrow> PropletSelectResponse" where
  "merge_select merged resp =
     merged\<lparr>sp_RequiredTags := append_missing (sp_RequiredTags merged) (sp_RequiredTags resp),
            sp_MinMemoryBytes :=
              (case sp_MinMemoryBytes resp of
                 None \<Rightarrow> sp_MinMemoryBytes merged
               | Some b \<Rightarrow>
                   (case sp_MinMemoryBytes merged of
                      None \<Rightarrow> Some b
                    | Some a \<Rightarrow> if b > a then Some b else Some a))\<rparr>"

fun select_loop ::
    "plugin list \<Rightarrow> PropletSelectRequest \<Rightarrow> nat \<Rightarrow> PropletSelectResponse \<Rightarrow> PropletSelectResponse result \<times> nat" where
  "select_loop [] req n merged = (Ok merged, n)"
| "select_loop (p # ps) req n merged =
     (case pl_OnBeforePropletSelect p n req of
        Err err \<Rightarrow> (Err (Wrap (''plugin '' @ pl_Name p @ '' on_before_proplet_select: '') err []), Suc n)
      | Ok resp \<Rightarrow>
          if \<not> sp_Allow resp
          then (Err (NewError (if sp_Reason resp = [] then ''proplet selection blocked by plugin'' else sp_Reason resp)), Suc n)
          else select_loop ps req (Suc n) (merge_select merged resp))"

definition propletMatchesConstraints :: "Proplet \<Rightarrow> PropletSelectResponse \<Rightarrow> bool" where
  "propletMatchesConstraints p c =
     (if (case sp_MinMemoryBytes c of None \<Rightarrow> False | Some b \<Rightarrow> pm_TotalMemoryBytes (p_Metadata p) < b)
      then False
      else list_all (\<lambda>tag. tag \<in> set (pm_Tags (p_Metadata p))) (sp_RequiredTags c))"

section \<open>The dispatch hook\<close>

text \<open>
  \<open>stdmaps.Copy(t.Env, resp.ExtraEnv)\<close> writes into the map that \<open>t.Env\<close> points to. The request
  built before the loop holds the same map, unless it was nil then: \<open>shared\<close> says whether later
  plugins see the additions. On an error the additions made so far stay in the task.
\<close>

fun dispatch_loop ::
    "plugin list \<Rightarrow> bool \<Rightarrow> DispatchRequest \<Rightarrow> nat \<Rightarrow> Task \<Rightarrow> unit result \<times> Task \<times> nat" where
  "dispatch_loop [] shared req n t = (Ok (), t, n)"
| "dispatch_loop (pl # pls) shared req n t =
     (case pl_OnBeforeDispatch pl n req of
        Err err \<Rightarrow> (Err (Wrap (''plugin '' @ pl_Name pl @ '' on_before_dispatch: '') err []), t, Suc n)
      | Ok resp \<Rightarrow>
          if \<not> dp_Allow resp
          then (Err (NewError (if dp_Reason resp = [] then ''dispatch blocked by plugin'' else dp_Reason resp)), t, Suc n)
          else
            (let t = (if dp_ExtraEnv resp \<noteq> []
                      then t\<lparr>t_Env := Some (maps_Copy (nil_list (t_Env t)) (dp_ExtraEnv resp))\<rparr> else t);
                 req = (if shared then req\<lparr>dr_Task := (dr_Task req)\<lparr>ti_Env := t_Env t\<rparr>\<rparr> else req)
             in dispatch_loop pls shared req (Suc n) t))"

section \<open>Authorisation and enrichment\<close>

definition withAction :: "AuthContext \<Rightarrow> Action \<Rightarrow> AuthContext" where
  "withAction auth action = auth\<lparr>ac_Action := action\<rparr>"

fun authorize_loop :: "plugin list \<Rightarrow> AuthorizeRequest \<Rightarrow> nat \<Rightarrow> unit result \<times> nat" where
  "authorize_loop [] req n = (Ok (), n)"
| "authorize_loop (p # ps) req n =
     (case pl_Authorize p n req of
        Err err \<Rightarrow> (Err (Wrap (''plugin '' @ pl_Name p @ '' authorize: '') err []), Suc n)
      | Ok resp \<Rightarrow>
          if \<not> as_Allow resp
          then (Err (NewError (if as_Reason resp = [] then ''denied by plugin'' else as_Reason resp)), Suc n)
          else authorize_loop ps req (Suc n))"

definition EnrichResponse_zero :: EnrichResponse where
  "EnrichResponse_zero = \<lparr>en_Env = None, en_Priority = None, en_Inputs = [], en_ImageURL = []\<rparr>"

definition merge_enrich :: "EnrichResponse \<Rightarrow> EnrichResponse \<Rightarrow> EnrichResponse" where
  "merge_enrich merged resp =
     merged\<lparr>en_Env := (if nil_list (en_Env resp) \<noteq> []
                       then Some (maps_Copy (nil_list (en_Env merged)) (nil_list (en_Env resp)))
                       else en_Env merged),
            en_Priority := (case en_Priority resp of None \<Rightarrow> en_Priority merged | Some p \<Rightarrow> Some p),
            en_Inputs := append_missing (en_Inputs merged) (en_Inputs resp),
            en_ImageURL := (if en_ImageURL resp \<noteq> [] then en_ImageURL resp else en_ImageURL merged)\<rparr>"

fun enrich_loop :: "plugin list \<Rightarrow> EnrichRequest \<Rightarrow> nat \<Rightarrow> EnrichResponse \<Rightarrow> EnrichResponse \<times> nat" where
  "enrich_loop [] req n merged = (merged, n)"
| "enrich_loop (p # ps) req n merged =
     (case pl_Enrich p n req of
        Err _ \<Rightarrow> enrich_loop ps req (Suc n) merged
      | Ok resp \<Rightarrow> enrich_loop ps req (Suc n) (merge_enrich merged resp))"

text \<open>\<open>append\<close> on a nil slice of inputs makes a slice only when something is appended.\<close>

definition applyEnrichment :: "Task \<Rightarrow> EnrichResponse \<Rightarrow> Task" where
  "applyEnrichment t e =
     t\<lparr>t_Env := (if nil_list (en_Env e) \<noteq> []
                 then Some (maps_Copy (nil_list (t_Env t)) (nil_list (en_Env e))) else t_Env t),
       t_Priority := (case en_Priority e of None \<Rightarrow> t_Priority t | Some p \<Rightarrow> p),
       t_Inputs := (let inputs = append_missing (nil_list (t_Inputs t)) (en_Inputs e)
                    in if inputs = nil_list (t_Inputs t) then t_Inputs t else Some inputs),
       t_ImageURL := (if en_ImageURL e \<noteq> [] then en_ImageURL e else t_ImageURL t)\<rparr>"

section \<open>Lemmas\<close>

lemma append_missing_set [simp]: "set (append_missing xs ys) = set xs \<union> set ys"
proof -
  have "set (fold (\<lambda>v acc. if v \<in> set acc then acc else acc @ [v]) ys acc) = set acc \<union> set ys" for acc
    by (induction ys arbitrary: acc) auto
  then show ?thesis by (simp add: append_missing_def)
qed

lemma append_missing_distinct: "distinct xs \<Longrightarrow> distinct (append_missing xs ys)"
proof -
  have "distinct acc \<Longrightarrow> distinct (fold (\<lambda>v acc. if v \<in> set acc then acc else acc @ [v]) ys acc)" for acc
    by (induction ys arbitrary: acc) auto
  then show "distinct xs \<Longrightarrow> distinct (append_missing xs ys)" by (simp add: append_missing_def)
qed

lemma maps_Copy_lookup: "map_of (maps_Copy dst src) = map_of dst ++ map_of src"
proof -
  have "distinct (map fst es) \<Longrightarrow> map_of (fold (\<lambda>(k, v) m. AList.update k v m) es dst) = map_of dst ++ map_of es" for es
  proof (induction es arbitrary: dst)
    case (Cons e es)
    obtain k v where e: "e = (k, v)" by fastforce
    have "map_of es k = None" using Cons.prems e by (simp add: map_of_eq_None_iff)
    then show ?case using Cons e by (auto simp: fun_eq_iff map_add_def update_conv' split: option.splits)
  qed simp
  then show ?thesis by (simp add: maps_Copy_def distinct_clearjunk map_of_clearjunk)
qed

lemma matches_merge_select:
  "propletMatchesConstraints p (merge_select a b) \<longleftrightarrow>
     propletMatchesConstraints p a \<and> propletMatchesConstraints p b"
  by (auto simp: propletMatchesConstraints_def merge_select_def list_all_iff split: option.splits if_splits)

text \<open>Plugin number \<open>i\<close> of the loop is asked with call number \<open>n + i\<close>.\<close>

lemma select_loop_Ok:
  "select_loop ps req n merged = (Ok c, n') \<Longrightarrow>
   n' = n + length ps \<and>
   (\<forall>i < length ps. \<exists>resp. pl_OnBeforePropletSelect (ps ! i) (n + i) req = Ok resp \<and> sp_Allow resp) \<and>
   (\<forall>p. propletMatchesConstraints p c \<longleftrightarrow> propletMatchesConstraints p merged \<and>
     (\<forall>i < length ps. \<forall>resp. pl_OnBeforePropletSelect (ps ! i) (n + i) req = Ok resp \<longrightarrow>
        propletMatchesConstraints p resp))"
proof (induction ps arbitrary: n merged)
  case (Cons pl ps)
  then obtain resp where resp: "pl_OnBeforePropletSelect pl n req = Ok resp" "sp_Allow resp"
      "select_loop ps req (Suc n) (merge_select merged resp) = (Ok c, n')"
    by (auto split: sum.splits if_splits)
  show ?case
    using Cons.IH [OF resp(3)] resp(1,2)
    by (auto simp: matches_merge_select nth_Cons less_Suc_eq_0_disj split: nat.splits)
qed simp

lemma authorize_loop_Ok_iff:
  "(\<exists>n'. authorize_loop ps req n = (Ok (), n')) \<longleftrightarrow>
   (\<forall>i < length ps. \<exists>resp. pl_Authorize (ps ! i) (n + i) req = Ok resp \<and> as_Allow resp)"
proof (induction ps arbitrary: n)
  case (Cons p ps)
  show ?case
    using Cons [of "Suc n"]
    by (cases "pl_Authorize p n req") (auto simp: nth_Cons less_Suc_eq_0_disj split: nat.splits)
qed simp

lemma authorize_loop_count: "n \<le> snd (authorize_loop ps req n)"
  by (induction ps arbitrary: n) (auto split: sum.splits intro: order_trans [OF _ Suc_leD])

lemma dispatch_loop_frame:
  "dispatch_loop pls shared req n t = (r, t', n') \<Longrightarrow> \<exists>e. t' = t\<lparr>t_Env := e\<rparr> \<and> (t_Env t \<noteq> None \<longrightarrow> e \<noteq> None)"
proof (induction pls arbitrary: req n t)
  case Nil
  then show ?case by (intro exI [of _ "t_Env t"]) simp
next
  case (Cons pl pls)
  show ?case
  proof (cases "\<exists>resp. pl_OnBeforeDispatch pl n req = Ok resp \<and> dp_Allow resp")
    case False
    then have "t' = t" using Cons.prems by (auto split: sum.splits if_splits)
    then show ?thesis by (intro exI [of _ "t_Env t"]) simp
  next
    case True
    then obtain resp where resp: "pl_OnBeforeDispatch pl n req = Ok resp" "dp_Allow resp" by blast
    define t1 where "t1 = (if dp_ExtraEnv resp \<noteq> []
        then t\<lparr>t_Env := Some (maps_Copy (nil_list (t_Env t)) (dp_ExtraEnv resp))\<rparr> else t)"
    obtain req' where "dispatch_loop pls shared req' (Suc n) t1 = (r, t', n')"
      using Cons.prems resp by (auto simp: Let_def t1_def)
    from Cons.IH [OF this] show ?thesis by (auto simp: t1_def split: if_splits)
  qed
qed

end
