(* ===== verification/Cron.thy ===== *)
theory Cron
  imports Prelude
begin

text \<open>
  \<^verbatim>\<open>pkg/cron/parser.go\<close>. The parser of five-field cron expressions is a third-party package: it
  is the argument \<open>parse\<close>, which returns the schedule of an expression it accepts. A schedule
  maps a time zone and an instant to the next instant it fires in that zone. Which time zones
  the host knows is the argument \<open>zones\<close>.
\<close>

type_synonym schedule = "string \<Rightarrow> gotime \<Rightarrow> gotime"

definition ParseCronExpression :: "(string \<Rightarrow> schedule option) \<Rightarrow> string \<Rightarrow> schedule result" where
  "ParseCronExpression parse expr =
     (if expr = [] then Err (Sentinel ErrInvalidCronExpression)
      else case parse expr of
             None \<Rightarrow> Err (Sentinel ErrInvalidCronExpression)
           | Some spec \<Rightarrow> Ok spec)"

definition ValidateCronExpression :: "(string \<Rightarrow> schedule option) \<Rightarrow> string \<Rightarrow> unit result" where
  "ValidateCronExpression parse expr =
     (case ParseCronExpression parse expr of Err err \<Rightarrow> Err err | Ok _ \<Rightarrow> Ok ())"

definition UTC :: string where "UTC = ''UTC''"

definition CalculateNextRun :: "(string \<Rightarrow> bool) \<Rightarrow> schedule option \<Rightarrow> gotime \<Rightarrow> string \<Rightarrow> gotime" where
  "CalculateNextRun zones sched from timezone =
     (case sched of
        None \<Rightarrow> 0
      | Some next_run \<Rightarrow>
          (let loc = (if timezone \<noteq> [] then (if zones timezone then timezone else UTC) else UTC)
           in next_run loc from))"

text \<open>
  What the code relies on of the parser's schedules: the next run is after the given instant,
  or the zero time when there is none.
\<close>

definition fires_later :: "schedule \<Rightarrow> bool" where
  "fires_later s \<longleftrightarrow> (\<forall>loc t. s loc t = 0 \<or> t < s loc t)"

lemma CalculateNextRun_later:
  "fires_later s \<Longrightarrow> CalculateNextRun zones (Some s) from tz = 0 \<or> from < CalculateNextRun zones (Some s) from tz"
  by (auto simp: CalculateNextRun_def fires_later_def)

end
