(* ===== verification/World.thy ===== *)
theory World
  imports RepoLaws Scheduler Plugin Cron
begin

text \<open>
  The state of the manager service (the struct \<open>service\<close> of \<^verbatim>\<open>manager/service.go\<close>) and its calls
  to the outside. The state holds the five repositories, the scheduler, the shutdown flag, the
  pending invocations, the messages the broker has accepted and the notifications handed to
  plugins. What the outside answers is a record of parameters, each indexed by the number of
  the call: the clock, fresh identifiers, the outcome of a publication, and a failure of the
  storage engine, which makes a repository call return an error without an effect. With no
  failures the repositories are the in-memory ones.
\<close>

section \<open>Messages\<close>

record startPayload =
  sl_ID :: string
  sl_Name :: string
  sl_State :: State
  sl_ImageURL :: string
  sl_File :: "8 word list option"
  sl_Inputs :: "string list option"
  sl_CLIArgs :: "string list"
  sl_Broadcast :: bool
  sl_Daemon :: bool
  sl_Latent :: bool
  sl_Env :: "strmap option"
  sl_Encrypted :: bool
  sl_KBSResourcePath :: string
  sl_MonitoringProfile :: "MonitoringProfile option"
  sl_PropletID :: string
  sl_HalStoragePath :: "string option"
  sl_ParentResults :: "anymap option"
  sl_Metadata :: "anymap option"

datatype payload = PStart startPayload | PMap anymap

record message =
  m_topic :: string
  m_payload :: payload

record invokeResult =
  ir_results :: string
  ir_err :: string

section \<open>State and surroundings\<close>

text \<open>A pending invocation is a channel of capacity one: \<^const>\<open>None\<close> while it is empty.\<close>

record world =
  w_tasks :: memoryTaskRepo
  w_proplets :: "dval storage"
  w_taskProplets :: "dval storage"
  w_jobs :: "dval storage"
  w_metrics :: "dval storage"
  w_scheduler :: roundRobin
  w_shuttingDown :: bool
  w_pendingInvokes :: "(string \<times> invokeResult option) list"
  w_sent :: "message list"
  w_notified :: "(string \<times> TaskEvent) list"
  w_step :: nat

record env =
  e_baseTopic :: string
  e_now :: "nat \<Rightarrow> gotime"
  e_uuid :: "nat \<Rightarrow> string"
  e_name :: "nat \<Rightarrow> string"
  e_publish :: "nat \<Rightarrow> message \<Rightarrow> error option"
  e_fault :: "nat \<Rightarrow> error option"
  e_ctxErr :: "nat \<Rightarrow> error option"
  e_fmtFloat :: "u64 \<Rightarrow> string"
  e_wild :: wild
  e_cron :: "string \<Rightarrow> schedule option"
  e_zones :: "string \<Rightarrow> bool"
  e_parseTime :: "string \<Rightarrow> gotime option"
  e_marshal :: "anymap \<Rightarrow> string option"
  e_plugins :: "plugin list option"
  e_executionMode :: string
  e_mapOrder :: "nat \<Rightarrow> string list \<Rightarrow> string list"

text \<open>\<open>NewService\<close> on the in-memory repositories.\<close>

definition NewService :: world where
  "NewService = \<lparr>w_tasks = newMemoryTaskRepository, w_proplets = NewInMemoryStorage,
     w_taskProplets = NewInMemoryStorage, w_jobs = NewInMemoryStorage, w_metrics = NewInMemoryStorage,
     w_scheduler = NewRoundRobin, w_shuttingDown = False, w_pendingInvokes = [], w_sent = [],
     w_notified = [], w_step = 0\<rparr>"

definition tick :: "world \<Rightarrow> world" where
  "tick w = w\<lparr>w_step := Suc (w_step w)\<rparr>"

definition time_Now :: "env \<Rightarrow> world \<Rightarrow> gotime \<times> world" where
  "time_Now e w = (e_now e (w_step w), tick w)"

definition uuid_NewString :: "env \<Rightarrow> world \<Rightarrow> string \<times> world" where
  "uuid_NewString e w = (e_uuid e (w_step w), tick w)"

definition ctx_Err :: "env \<Rightarrow> world \<Rightarrow> error option \<times> world" where
  "ctx_Err e w = (e_ctxErr e (w_step w), tick w)"

definition Publish :: "env \<Rightarrow> message \<Rightarrow> world \<Rightarrow> unit result \<times> world" where
  "Publish e m w =
     (case e_publish e (w_step w) m of
        Some err \<Rightarrow> (Err err, tick w)
      | None \<Rightarrow> (Ok (), tick (w\<lparr>w_sent := w_sent w @ [m]\<rparr>)))"

section \<open>Repository calls\<close>

definition with_fault :: "env \<Rightarrow> (world \<Rightarrow> 'a result \<times> world) \<Rightarrow> world \<Rightarrow> 'a result \<times> world" where
  "with_fault e f w =
     (case e_fault e (w_step w) of
        Some err \<Rightarrow> (Err err, tick w)
      | None \<Rightarrow> f (tick w))"

definition taskRepo_Create :: "env \<Rightarrow> Task \<Rightarrow> world \<Rightarrow> Task result \<times> world" where
  "taskRepo_Create e t = with_fault e (\<lambda>w.
     case tasks_Create (e_fmtFloat e) t (w_tasks w) of (r, repo) \<Rightarrow> (r, w\<lparr>w_tasks := repo\<rparr>))"

definition taskRepo_Get :: "env \<Rightarrow> string \<Rightarrow> world \<Rightarrow> Task result \<times> world" where
  "taskRepo_Get e tid = with_fault e (\<lambda>w. (tasks_Get tid (w_tasks w), w))"

definition taskRepo_Update :: "env \<Rightarrow> Task \<Rightarrow> world \<Rightarrow> unit result \<times> world" where
  "taskRepo_Update e t = with_fault e (\<lambda>w.
     case tasks_Update (e_fmtFloat e) t (w_tasks w) of (r, repo) \<Rightarrow> (r, w\<lparr>w_tasks := repo\<rparr>))"

definition taskRepo_Delete :: "env \<Rightarrow> string \<Rightarrow> world \<Rightarrow> unit result \<times> world" where
  "taskRepo_Delete e tid = with_fault e (\<lambda>w.
     case tasks_Delete (e_fmtFloat e) tid (w_tasks w) of (r, repo) \<Rightarrow> (r, w\<lparr>w_tasks := repo\<rparr>))"

definition taskRepo_List :: "env \<Rightarrow> anymap option \<Rightarrow> u64 \<Rightarrow> u64 \<Rightarrow> world \<Rightarrow> (Task list \<times> u64) result \<times> world" where
  "taskRepo_List e filt offset limit = with_fault e (\<lambda>w.
     (tasks_List (e_fmtFloat e) filt offset limit (w_tasks w), w))"

definition taskRepo_ListByWorkflowID :: "env \<Rightarrow> string \<Rightarrow> world \<Rightarrow> Task list result \<times> world" where
  "taskRepo_ListByWorkflowID e wid = with_fault e (\<lambda>w. (ListByWorkflowID wid (w_tasks w), w))"

definition taskRepo_ListByJobID :: "env \<Rightarrow> string \<Rightarrow> world \<Rightarrow> Task list result \<times> world" where
  "taskRepo_ListByJobID e jid = with_fault e (\<lambda>w. (ListByJobID jid (w_tasks w), w))"

definition propletRepo_Create :: "env \<Rightarrow> Proplet \<Rightarrow> world \<Rightarrow> unit result \<times> world" where
  "propletRepo_Create e p = with_fault e (\<lambda>w.
     case proplets_Create p (w_proplets w) of (r, s) \<Rightarrow> (r, w\<lparr>w_proplets := s\<rparr>))"

definition propletRepo_Get :: "env \<Rightarrow> string \<Rightarrow> world \<Rightarrow> Proplet result \<times> world" where
  "propletRepo_Get e pid = with_fault e (\<lambda>w. (proplets_Get pid (w_proplets w), w))"

definition propletRepo_Update :: "env \<Rightarrow> Proplet \<Rightarrow> world \<Rightarrow> unit result \<times> world" where
  "propletRepo_Update e p = with_fault e (\<lambda>w.
     case proplets_Update p (w_proplets w) of (r, s) \<Rightarrow> (r, w\<lparr>w_proplets := s\<rparr>))"

definition propletRepo_Delete :: "env \<Rightarrow> string \<Rightarrow> world \<Rightarrow> unit result \<times> world" where
  "propletRepo_Delete e pid = with_fault e (\<lambda>w.
     case proplets_Delete pid (w_proplets w) of (r, s) \<Rightarrow> (r, w\<lparr>w_proplets := s\<rparr>))"

definition propletRepo_List :: "env \<Rightarrow> u64 \<Rightarrow> u64 \<Rightarrow> world \<Rightarrow> (Proplet list \<times> u64) result \<times> world" where
  "propletRepo_List e offset limit = with_fault e (\<lambda>w. (proplets_List offset limit (w_proplets w), w))"

definition propletRepo_ListByAlive ::
    "env \<Rightarrow> u64 \<Rightarrow> u64 \<Rightarrow> bool \<Rightarrow> gotime \<Rightarrow> world \<Rightarrow> (Proplet list \<times> u64) result \<times> world" where
  "propletRepo_ListByAlive e offset limit alive since = with_fault e (\<lambda>w.
     (ListByAlive offset limit alive since (w_proplets w), w))"

definition propletRepo_GetAliveHistory ::
    "env \<Rightarrow> string \<Rightarrow> u64 \<Rightarrow> u64 \<Rightarrow> world \<Rightarrow> (gotime list \<times> u64) result \<times> world" where
  "propletRepo_GetAliveHistory e pid offset limit = with_fault e (\<lambda>w.
     (GetAliveHistory pid offset limit (w_proplets w), w))"

definition taskPropletRepo_Create :: "env \<Rightarrow> string \<Rightarrow> string \<Rightarrow> world \<Rightarrow> unit result \<times> world" where
  "taskPropletRepo_Create e tid pid = with_fault e (\<lambda>w.
     case taskProplets_Create tid pid (w_taskProplets w) of (r, s) \<Rightarrow> (r, w\<lparr>w_taskProplets := s\<rparr>))"

definition taskPropletRepo_Get :: "env \<Rightarrow> string \<Rightarrow> world \<Rightarrow> string result \<times> world" where
  "taskPropletRepo_Get e tid = with_fault e (\<lambda>w. (taskProplets_Get tid (w_taskProplets w), w))"

definition taskPropletRepo_Delete :: "env \<Rightarrow> string \<Rightarrow> world \<Rightarrow> unit result \<times> world" where
  "taskPropletRepo_Delete e tid = with_fault e (\<lambda>w.
     case taskProplets_Delete tid (w_taskProplets w) of (r, s) \<Rightarrow> (r, w\<lparr>w_taskProplets := s\<rparr>))"

definition jobRepo_Create :: "env \<Rightarrow> Job \<Rightarrow> world \<Rightarrow> Job result \<times> world" where
  "jobRepo_Create e j = with_fault e (\<lambda>w. case jobs_Create j (w_jobs w) of (r, s) \<Rightarrow> (r, w\<lparr>w_jobs := s\<rparr>))"

definition jobRepo_Get :: "env \<Rightarrow> string \<Rightarrow> world \<Rightarrow> Job result \<times> world" where
  "jobRepo_Get e jid = with_fault e (\<lambda>w. (jobs_Get jid (w_jobs w), w))"

definition jobRepo_List :: "env \<Rightarrow> u64 \<Rightarrow> u64 \<Rightarrow> world \<Rightarrow> (Job list \<times> u64) result \<times> world" where
  "jobRepo_List e offset limit = with_fault e (\<lambda>w. (jobs_List offset limit (w_jobs w), w))"

definition jobRepo_Delete :: "env \<Rightarrow> string \<Rightarrow> world \<Rightarrow> unit result \<times> world" where
  "jobRepo_Delete e jid = with_fault e (\<lambda>w. case jobs_Delete jid (w_jobs w) of (r, s) \<Rightarrow> (r, w\<lparr>w_jobs := s\<rparr>))"

definition metricsRepo_CreateTaskMetrics :: "env \<Rightarrow> TaskMetrics \<Rightarrow> world \<Rightarrow> unit result \<times> world" where
  "metricsRepo_CreateTaskMetrics e m = with_fault e (\<lambda>w.
     case CreateTaskMetrics m (w_metrics w) of (r, s) \<Rightarrow> (r, w\<lparr>w_metrics := s\<rparr>))"

definition metricsRepo_CreatePropletMetrics :: "env \<Rightarrow> PropletMetrics \<Rightarrow> world \<Rightarrow> unit result \<times> world" where
  "metricsRepo_CreatePropletMetrics e m = with_fault e (\<lambda>w.
     case CreatePropletMetrics m (w_metrics w) of (r, s) \<Rightarrow> (r, w\<lparr>w_metrics := s\<rparr>))"

definition metricsRepo_ListTaskMetrics ::
    "env \<Rightarrow> string \<Rightarrow> u64 \<Rightarrow> u64 \<Rightarrow> world \<Rightarrow> (TaskMetrics list \<times> u64) result \<times> world" where
  "metricsRepo_ListTaskMetrics e tid offset limit = with_fault e (\<lambda>w.
     (ListTaskMetrics tid offset limit (w_metrics w), w))"

definition metricsRepo_ListPropletMetrics ::
    "env \<Rightarrow> string \<Rightarrow> u64 \<Rightarrow> u64 \<Rightarrow> world \<Rightarrow> (PropletMetrics list \<times> u64) result \<times> world" where
  "metricsRepo_ListPropletMetrics e pid offset limit = with_fault e (\<lambda>w.
     (ListPropletMetrics pid offset limit (w_metrics w), w))"

text \<open>\<open>svc.scheduler.SelectProplet\<close>.\<close>

definition scheduler_SelectProplet :: "Task \<Rightarrow> Proplet list \<Rightarrow> world \<Rightarrow> Proplet result \<times> world" where
  "scheduler_SelectProplet t proplets w =
     (case SelectProplet t proplets (w_scheduler w) of (r, s) \<Rightarrow> (r, w\<lparr>w_scheduler := s\<rparr>))"

section \<open>A quiet surrounding\<close>

text \<open>
  Nothing fails, the clock advances by one nanosecond per call and there are no plugins: the
  surrounding of the concrete examples.
\<close>

definition env0 :: env where
  "env0 = \<lparr>e_baseTopic = ''m/d/c/c'', e_now = (\<lambda>n. int n), e_uuid = (\<lambda>n. ''u'' @ show_nat n),
     e_name = (\<lambda>n. ''name''), e_publish = (\<lambda>n m. None), e_fault = (\<lambda>n. None), e_ctxErr = (\<lambda>n. None),
     e_fmtFloat = (\<lambda>f. []), e_wild = (\<lambda>f. 0), e_cron = (\<lambda>s. Some (\<lambda>loc t. t + 1)), e_zones = (\<lambda>z. True),
     e_parseTime = (\<lambda>s. None), e_marshal = (\<lambda>m. Some []), e_plugins = None, e_executionMode = [],
     e_mapOrder = (\<lambda>n ks. ks)\<rparr>"

end
