(* ===== verification/Frame.thy ===== *)
theory Frame
  imports World "HOL-Library.Sublist"
begin

text \<open>
  The representation invariant of the service's state and a frame calculus for its operations.
  \<open>reach e C w\<^sub>0 w\<close> says that \<open>w\<close> comes from \<open>w\<^sub>0\<close> by operations that change only the parts in
  \<open>C\<close>, send messages only at the end of the outbox, and keep the invariant. Every primitive
  call has an introduction rule for it in \<open>reach_intros\<close>; the rules of the composed operations
  are proved from these and join the collection.
\<close>

named_theorems reach_intros \<open>every operation keeps the invariant and changes only its parts\<close>

section \<open>Invariant and views\<close>

definition pins_inv :: "dval storage \<Rightarrow> bool" where
  "pins_inv s \<longleftrightarrow> storage_inv s \<and> (\<forall>k d. map_of s k = Some d \<longrightarrow> (\<exists>pid. d = DString pid))"

definition world_inv :: "env \<Rightarrow> world \<Rightarrow> bool" where
  "world_inv e w \<longleftrightarrow>
     tasks_inv (e_fmtFloat e) (w_tasks w) \<and> proplets_inv (w_proplets w) \<and> pins_inv (w_taskProplets w) \<and>
     jobs_inv (w_jobs w) \<and> storage_inv (w_metrics w)"

definition task :: "world \<Rightarrow> string \<Rightarrow> Task option" where
  "task w = task_view (w_tasks w)"

definition proplet :: "world \<Rightarrow> string \<Rightarrow> Proplet option" where
  "proplet w = proplet_view (w_proplets w)"

definition pin :: "world \<Rightarrow> string \<Rightarrow> string option" where
  "pin w = typed_view as_String (w_taskProplets w)"

definition job :: "world \<Rightarrow> string \<Rightarrow> Job option" where
  "job w = job_view (w_jobs w)"

lemma world_inv_NewService [simp]: "world_inv e NewService"
  using typed_inv_empty [of as_Proplet p_ID] typed_inv_empty [of as_Job j_ID]
  by (simp add: world_inv_def NewService_def pins_inv_def)

lemma world_invD:
  "world_inv e w \<Longrightarrow> tasks_inv (e_fmtFloat e) (w_tasks w)"
  "world_inv e w \<Longrightarrow> proplets_inv (w_proplets w)"
  "world_inv e w \<Longrightarrow> pins_inv (w_taskProplets w)"
  "world_inv e w \<Longrightarrow> jobs_inv (w_jobs w)"
  by (simp_all add: world_inv_def)

section \<open>Frames\<close>

datatype part = Tasks | Proplets | Pins | Jobs | MetricsData | Sched | Shut | Invokes | Sent | Notified

fun same :: "part \<Rightarrow> world \<Rightarrow> world \<Rightarrow> bool" where
  "same Tasks w w' = (w_tasks w' = w_tasks w)"
| "same Proplets w w' = (w_proplets w' = w_proplets w)"
| "same Pins w w' = (w_taskProplets w' = w_taskProplets w)"
| "same Jobs w w' = (w_jobs w' = w_jobs w)"
| "same MetricsData w w' = (w_metrics w' = w_metrics w)"
| "same Sched w w' = (w_scheduler w' = w_scheduler w)"
| "same Shut w w' = (w_shuttingDown w' = w_shuttingDown w)"
| "same Invokes w w' = (w_pendingInvokes w' = w_pendingInvokes w)"
| "same Sent w w' = (w_sent w' = w_sent w)"
| "same Notified w w' = (w_notified w' = w_notified w)"

definition changes :: "part set \<Rightarrow> world \<Rightarrow> world \<Rightarrow> bool" where
  "changes C w w' \<longleftrightarrow> (\<forall>p. p \<notin> C \<longrightarrow> same p w w') \<and> prefix (w_sent w) (w_sent w') \<and> w_step w \<le> w_step w'"

definition reach :: "env \<Rightarrow> part set \<Rightarrow> world \<Rightarrow> world \<Rightarrow> bool" where
  "reach e C w0 w \<longleftrightarrow> changes C w0 w \<and> (world_inv e w0 \<longrightarrow> world_inv e w)"

lemma same_refl [simp]: "same p w w"
  by (cases p) simp_all

lemma same_trans: "same p w w' \<Longrightarrow> same p w' w'' \<Longrightarrow> same p w w''"
  by (cases p) simp_all

lemma changes_refl [simp]: "changes C w w"
  by (simp add: changes_def)

lemma changes_trans: "changes C w w' \<Longrightarrow> changes C w' w'' \<Longrightarrow> changes C w w''"
  unfolding changes_def by (blast intro: same_trans prefix_order.trans le_trans)

lemma changes_mono: "changes C w w' \<Longrightarrow> C \<subseteq> D \<Longrightarrow> changes D w w'"
  unfolding changes_def by blast

lemma changesI:
  assumes "same Tasks w w' \<or> Tasks \<in> C" "same Proplets w w' \<or> Proplets \<in> C" "same Pins w w' \<or> Pins \<in> C"
    "same Jobs w w' \<or> Jobs \<in> C" "same MetricsData w w' \<or> MetricsData \<in> C" "same Sched w w' \<or> Sched \<in> C"
    "same Shut w w' \<or> Shut \<in> C" "same Invokes w w' \<or> Invokes \<in> C" "same Sent w w' \<or> Sent \<in> C"
    "same Notified w w' \<or> Notified \<in> C" "prefix (w_sent w) (w_sent w')" "w_step w \<le> w_step w'"
  shows "changes C w w'"
proof -
  have "same p w w'" if "p \<notin> C" for p
    using assms(1-10) that by (cases p) (simp_all del: same.simps)
  with assms(11,12) show ?thesis unfolding changes_def by blast
qed

lemma reach_refl [simp, intro]: "reach e C w w"
  by (simp add: reach_def)

lemma reach_trans: "reach e C w w' \<Longrightarrow> reach e C w' w'' \<Longrightarrow> reach e C w w''"
  unfolding reach_def using changes_trans [of C w w' w''] by blast

lemma reach_mono: "reach e C w w' \<Longrightarrow> C \<subseteq> D \<Longrightarrow> reach e D w w'"
  unfolding reach_def using changes_mono [of C w w' D] by blast

lemma reachI:
  assumes "reach e C w0 w" "changes C w w'" "world_inv e w \<Longrightarrow> world_inv e w'"
  shows "reach e C w0 w'"
  using assms unfolding reach_def using changes_trans [of C w0 w w'] by blast

text \<open>A state named by an equation for the result of an operation.\<close>

lemma reach_result: "p = (r, w') \<Longrightarrow> reach e C w0 (snd p) \<Longrightarrow> reach e C w0 w'"
  by simp

text \<open>
  The structure of an operation: it passes the state through the calls it makes. The rules
  take an operation apart from the outside; the state rule comes before the data rule, so that
  a pair that holds a state is recognised as the result of a call.
\<close>

lemma reach_case_state:
  "reach e C w0 (snd p) \<Longrightarrow> (\<And>r w. reach e C w0 w \<Longrightarrow> reach e C w0 (snd (g r w))) \<Longrightarrow>
   reach e C w0 (snd (case p of (r, w) \<Rightarrow> g r w))"
  by (simp add: case_prod_beta)

lemma reach_case_data: "(\<And>a b. reach e C w0 (snd (g a b))) \<Longrightarrow> reach e C w0 (snd (case p of (a, b) \<Rightarrow> g a b))"
  by (simp add: case_prod_beta)

lemma reach_case_sum:
  "(\<And>x. reach e C w0 (snd (f x))) \<Longrightarrow> (\<And>y. reach e C w0 (snd (g y))) \<Longrightarrow>
   reach e C w0 (snd (case s of Inl x \<Rightarrow> f x | Inr y \<Rightarrow> g y))"
  by (cases s) simp_all

lemma reach_case_option:
  "reach e C w0 (snd f) \<Longrightarrow> (\<And>y. reach e C w0 (snd (g y))) \<Longrightarrow>
   reach e C w0 (snd (case s of None \<Rightarrow> f | Some y \<Rightarrow> g y))"
  by (cases s) simp_all

lemma reach_if: "reach e C w0 (snd f) \<Longrightarrow> reach e C w0 (snd g) \<Longrightarrow> reach e C w0 (snd (if b then f else g))"
  by simp

lemma reach_let: "(\<And>x. reach e C w0 (snd (f x))) \<Longrightarrow> reach e C w0 (snd (let x = v in f x))"
  by (simp add: Let_def)

lemma reach_pair: "reach e C w0 w \<Longrightarrow> reach e C w0 (snd (r, w))"
  by simp

lemmas reach_steps = reach_case_state reach_case_data reach_case_sum reach_case_option reach_if reach_let reach_pair

lemma reach_inv: "reach e C w w' \<Longrightarrow> world_inv e w \<Longrightarrow> world_inv e w'"
  by (simp add: reach_def)

lemma reach_invU: "reach e UNIV w w' \<Longrightarrow> world_inv e w \<Longrightarrow> world_inv e w'"
  by (rule reach_inv)

lemma reach_frame:
  assumes "reach e C w w'"
  shows "Tasks \<notin> C \<Longrightarrow> w_tasks w' = w_tasks w" "Proplets \<notin> C \<Longrightarrow> w_proplets w' = w_proplets w"
    "Pins \<notin> C \<Longrightarrow> w_taskProplets w' = w_taskProplets w" "Jobs \<notin> C \<Longrightarrow> w_jobs w' = w_jobs w"
    "Sched \<notin> C \<Longrightarrow> w_scheduler w' = w_scheduler w" "Shut \<notin> C \<Longrightarrow> w_shuttingDown w' = w_shuttingDown w"
    "Sent \<notin> C \<Longrightarrow> w_sent w' = w_sent w" "Invokes \<notin> C \<Longrightarrow> w_pendingInvokes w' = w_pendingInvokes w"
    "Notified \<notin> C \<Longrightarrow> w_notified w' = w_notified w" "MetricsData \<notin> C \<Longrightarrow> w_metrics w' = w_metrics w"
  using assms unfolding reach_def changes_def by (auto dest: spec)

lemma reach_views:
  assumes "reach e C w w'"
  shows "Tasks \<notin> C \<Longrightarrow> task w' = task w" "Proplets \<notin> C \<Longrightarrow> proplet w' = proplet w"
    "Pins \<notin> C \<Longrightarrow> pin w' = pin w" "Jobs \<notin> C \<Longrightarrow> job w' = job w"
  using reach_frame [OF assms] by (simp_all add: task_def proplet_def pin_def job_def)

lemma reach_sent: "reach e C w w' \<Longrightarrow> prefix (w_sent w) (w_sent w')"
  by (simp add: reach_def changes_def)

section \<open>Primitive calls\<close>

lemma tick_simps [simp]:
  "w_tasks (tick w) = w_tasks w" "w_proplets (tick w) = w_proplets w" "w_taskProplets (tick w) = w_taskProplets w"
  "w_jobs (tick w) = w_jobs w" "w_metrics (tick w) = w_metrics w" "w_scheduler (tick w) = w_scheduler w"
  "w_shuttingDown (tick w) = w_shuttingDown w" "w_pendingInvokes (tick w) = w_pendingInvokes w"
  "w_sent (tick w) = w_sent w" "w_notified (tick w) = w_notified w" "w_step (tick w) = Suc (w_step w)"
  by (simp_all add: tick_def)

lemma reach_tick [reach_intros]: "reach e C w0 w \<Longrightarrow> reach e C w0 (tick w)"
  by (erule reachI) (simp_all add: changesI world_inv_def)

lemma reach_time_Now [reach_intros]: "reach e C w0 w \<Longrightarrow> reach e C w0 (snd (time_Now e w))"
  by (simp add: time_Now_def reach_tick)

lemma reach_uuid [reach_intros]: "reach e C w0 w \<Longrightarrow> reach e C w0 (snd (uuid_NewString e w))"
  by (simp add: uuid_NewString_def reach_tick)

lemma reach_ctx_Err [reach_intros]: "reach e C w0 w \<Longrightarrow> reach e C w0 (snd (ctx_Err e w))"
  by (simp add: ctx_Err_def reach_tick)

lemma reach_Publish [reach_intros]: "reach e C w0 w \<Longrightarrow> Sent \<in> C \<Longrightarrow> reach e C w0 (snd (Publish e m w))"
  by (erule reachI) (simp_all add: Publish_def changesI world_inv_def split: option.splits)

lemma reach_scheduler [reach_intros]:
  "reach e C w0 w \<Longrightarrow> Sched \<in> C \<Longrightarrow> reach e C w0 (snd (scheduler_SelectProplet t ps w))"
  by (erule reachI) (simp_all add: scheduler_SelectProplet_def changesI world_inv_def split: prod.splits)

lemma reach_with_fault:
  "reach e C w0 w \<Longrightarrow> (\<And>w. reach e C w0 w \<Longrightarrow> reach e C w0 (snd (f w))) \<Longrightarrow> reach e C w0 (snd (with_fault e f w))"
  by (auto simp: with_fault_def reach_tick split: option.splits)

text \<open>Calls that read leave everything but the call counter alone.\<close>

lemma reach_read [reach_intros]:
  assumes "reach e C w0 w"
  shows "reach e C w0 (snd (taskRepo_Get e i w))"
    "reach e C w0 (snd (taskRepo_List e filt off lim w))"
    "reach e C w0 (snd (taskRepo_ListByWorkflowID e i w))"
    "reach e C w0 (snd (taskRepo_ListByJobID e i w))"
    "reach e C w0 (snd (propletRepo_Get e i w))"
    "reach e C w0 (snd (propletRepo_List e off lim w))"
    "reach e C w0 (snd (propletRepo_ListByAlive e off lim alive since w))"
    "reach e C w0 (snd (propletRepo_GetAliveHistory e i off lim w))"
    "reach e C w0 (snd (taskPropletRepo_Get e i w))"
    "reach e C w0 (snd (jobRepo_Get e i w))"
    "reach e C w0 (snd (jobRepo_List e off lim w))"
    "reach e C w0 (snd (metricsRepo_ListTaskMetrics e i off lim w))"
    "reach e C w0 (snd (metricsRepo_ListPropletMetrics e i off lim w))"
  unfolding taskRepo_Get_def taskRepo_List_def taskRepo_ListByWorkflowID_def taskRepo_ListByJobID_def
    propletRepo_Get_def propletRepo_List_def propletRepo_ListByAlive_def propletRepo_GetAliveHistory_def
    taskPropletRepo_Get_def jobRepo_Get_def jobRepo_List_def metricsRepo_ListTaskMetrics_def
    metricsRepo_ListPropletMetrics_def
  by (rule reach_with_fault [OF assms], simp)+

lemma reach_put_tasks:
  "reach e C w0 w \<Longrightarrow> Tasks \<in> C \<Longrightarrow> (tasks_inv (e_fmtFloat e) (w_tasks w) \<Longrightarrow> tasks_inv (e_fmtFloat e) r) \<Longrightarrow>
   reach e C w0 (w\<lparr>w_tasks := r\<rparr>)"
  by (erule reachI) (simp_all add: changesI world_inv_def)

lemma reach_put_proplets:
  "reach e C w0 w \<Longrightarrow> Proplets \<in> C \<Longrightarrow> (proplets_inv (w_proplets w) \<Longrightarrow> proplets_inv s) \<Longrightarrow>
   reach e C w0 (w\<lparr>w_proplets := s\<rparr>)"
  by (erule reachI) (simp_all add: changesI world_inv_def)

lemma reach_put_pins:
  "reach e C w0 w \<Longrightarrow> Pins \<in> C \<Longrightarrow> (pins_inv (w_taskProplets w) \<Longrightarrow> pins_inv s) \<Longrightarrow>
   reach e C w0 (w\<lparr>w_taskProplets := s\<rparr>)"
  by (erule reachI) (simp_all add: changesI world_inv_def)

lemma reach_put_jobs:
  "reach e C w0 w \<Longrightarrow> Jobs \<in> C \<Longrightarrow> (jobs_inv (w_jobs w) \<Longrightarrow> jobs_inv s) \<Longrightarrow>
   reach e C w0 (w\<lparr>w_jobs := s\<rparr>)"
  by (erule reachI) (simp_all add: changesI world_inv_def)

lemma reach_put_metrics:
  "reach e C w0 w \<Longrightarrow> MetricsData \<in> C \<Longrightarrow> (storage_inv (w_metrics w) \<Longrightarrow> storage_inv s) \<Longrightarrow>
   reach e C w0 (w\<lparr>w_metrics := s\<rparr>)"
  by (erule reachI) (simp_all add: changesI world_inv_def)


text \<open>Calls that write keep the invariant of their repository.\<close>

lemma proplets_Create_inv: "proplets_inv s \<Longrightarrow> proplets_inv (snd (proplets_Create p s))"
  using props.create_inv [of s p] by (cases "proplets_Create p s") (auto split: sum.splits)

lemma pins_inv_Create: "pins_inv s \<Longrightarrow> pins_inv (snd (taskProplets_Create i pid s))"
proof -
  assume inv: "pins_inv s"
  show "pins_inv (snd (taskProplets_Create i pid s))"
  proof (cases "i = [] \<or> map_of s i \<noteq> None")
    case True
    then show ?thesis using inv by (auto simp: taskProplets_Create_def storage_Create_def)
  next
    case False
    then have eq: "snd (taskProplets_Create i pid s) = AList.update i (DString pid) s"
      by (simp add: taskProplets_Create_def storage_Create_def)
    have "storage_inv (AList.update i (DString pid) s)" using inv False by (simp add: pins_inv_def storage_inv_update)
    moreover have "\<exists>x. d = DString x" if "map_of (AList.update i (DString pid) s) k = Some d" for k d
      using inv unfolding pins_inv_def
      by (elim conjE) (erule alist_all_update [where P = "\<lambda>d. \<exists>x. d = DString x", OF _ _ that], simp)
    ultimately show ?thesis unfolding eq pins_inv_def by blast
  qed
qed

lemma pins_inv_Delete: "pins_inv s \<Longrightarrow> pins_inv (snd (taskProplets_Delete i s))"
proof -
  assume inv: "pins_inv s"
  have "\<exists>x. d = DString x" if "map_of (AList.delete i s) k = Some d" for k d
    using inv unfolding pins_inv_def
    by (elim conjE) (erule alist_all_delete [where P = "\<lambda>d. \<exists>x. d = DString x", OF _ that])
  moreover have "storage_inv (AList.delete i s)" using inv by (simp add: pins_inv_def storage_inv_delete)
  ultimately have "pins_inv (AList.delete i s)" unfolding pins_inv_def by blast
  then show "pins_inv (snd (taskProplets_Delete i s))"
    using inv by (simp add: taskProplets_Delete_def storage_Delete_def)
qed

lemma reach_write [reach_intros]:
  assumes "reach e C w0 w"
  shows "Tasks \<in> C \<Longrightarrow> reach e C w0 (snd (taskRepo_Create e t w))"
    "Tasks \<in> C \<Longrightarrow> reach e C w0 (snd (taskRepo_Update e t w))"
    "Tasks \<in> C \<Longrightarrow> reach e C w0 (snd (taskRepo_Delete e i w))"
    "Proplets \<in> C \<Longrightarrow> reach e C w0 (snd (propletRepo_Create e p w))"
    "Proplets \<in> C \<Longrightarrow> reach e C w0 (snd (propletRepo_Update e p w))"
    "Proplets \<in> C \<Longrightarrow> reach e C w0 (snd (propletRepo_Delete e i w))"
    "Pins \<in> C \<Longrightarrow> reach e C w0 (snd (taskPropletRepo_Create e i j w))"
    "Pins \<in> C \<Longrightarrow> reach e C w0 (snd (taskPropletRepo_Delete e i w))"
    "Jobs \<in> C \<Longrightarrow> reach e C w0 (snd (jobRepo_Create e jb w))"
    "Jobs \<in> C \<Longrightarrow> reach e C w0 (snd (jobRepo_Delete e i w))"
    "MetricsData \<in> C \<Longrightarrow> reach e C w0 (snd (metricsRepo_CreateTaskMetrics e tm w))"
    "MetricsData \<in> C \<Longrightarrow> reach e C w0 (snd (metricsRepo_CreatePropletMetrics e pm w))"
  unfolding taskRepo_Create_def taskRepo_Update_def taskRepo_Delete_def propletRepo_Create_def
    propletRepo_Update_def propletRepo_Delete_def taskPropletRepo_Create_def taskPropletRepo_Delete_def
    jobRepo_Create_def jobRepo_Delete_def metricsRepo_CreateTaskMetrics_def metricsRepo_CreatePropletMetrics_def
    case_prod_beta
  by (rule reach_with_fault [OF assms], simp add: reach_put_tasks reach_put_proplets reach_put_pins reach_put_jobs
      reach_put_metrics tasks.create_inv tasks.upd_inv tasks.del_inv proplets_Create_inv props.upd_inv props.del_inv
      pins_inv_Create pins_inv_Delete jobs.create_inv jobs.del_inv CreateTaskMetrics_def CreatePropletMetrics_def
      storage_Create_inv)+

section \<open>What the repository calls do to the views\<close>

lemma views_tick [simp]: "task (tick w) = task w" "proplet (tick w) = proplet w" "pin (tick w) = pin w" "job (tick w) = job w"
  by (simp_all add: task_def proplet_def pin_def job_def)

lemma world_inv_tick [simp]: "world_inv e (tick w) = world_inv e w"
  by (simp add: world_inv_def)

lemma read_state:
  "taskRepo_Get e i w = (r1, w') \<Longrightarrow> w' = tick w" "propletRepo_Get e i w = (r2, w') \<Longrightarrow> w' = tick w"
  "taskPropletRepo_Get e i w = (r3, w') \<Longrightarrow> w' = tick w" "jobRepo_Get e i w = (r4, w') \<Longrightarrow> w' = tick w"
  by (auto simp: taskRepo_Get_def propletRepo_Get_def taskPropletRepo_Get_def jobRepo_Get_def with_fault_def
      split: option.splits)

lemma taskRepo_Get_Ok:
  "taskRepo_Get e i w = (Ok t, w') \<Longrightarrow> world_inv e w \<Longrightarrow> task w i = Some t \<and> t_ID t = i \<and> w' = tick w"
  using tasks.get_Ok_iff [OF world_invD(1), of e w i t] task_view_key [OF world_invD(1), of e w i t]
  by (auto simp: taskRepo_Get_def with_fault_def task_def split: option.splits)

lemma taskRepo_Get_run:
  "e_fault e (w_step w) = None \<Longrightarrow> world_inv e w \<Longrightarrow> task w i = Some t \<Longrightarrow> taskRepo_Get e i w = (Ok t, tick w)"
  using tasks.get_Ok_iff [OF world_invD(1), of e w i t]
  by (simp add: taskRepo_Get_def with_fault_def task_def)

lemma taskRepo_Update_run:
  assumes "e_fault e (w_step w) = None" "world_inv e w" "task w (t_ID t) \<noteq> None"
  shows "fst (taskRepo_Update e t w) = Ok ()" "task (snd (taskRepo_Update e t w)) = (task w)(t_ID t \<mapsto> t)"
    "w_step (snd (taskRepo_Update e t w)) = Suc (w_step w)"
  using assms tasks.upd_ok [OF world_invD(1) [OF assms(2)], of t]
  by (simp_all add: taskRepo_Update_def with_fault_def task_def case_prod_beta)

lemma taskRepo_Update_Ok:
  assumes "taskRepo_Update e t w = (Ok u, w')" "world_inv e w"
  shows "task w (t_ID t) \<noteq> None \<and> task w' = (task w)(t_ID t \<mapsto> t)"
  using assms tasks.upd_view [OF world_invD(1) [OF assms(2)], of t] tasks.upd_Ok_iff [OF world_invD(1) [OF assms(2)], of t]
  by (auto simp: taskRepo_Update_def with_fault_def task_def case_prod_beta split: option.splits)

lemma taskRepo_Update_Err:
  assumes "taskRepo_Update e t w = (Err err, w')" "world_inv e w"
  shows "task w' = task w"
  using assms tasks.upd_view [OF world_invD(1) [OF assms(2)], of t] tasks.upd_Ok_iff [OF world_invD(1) [OF assms(2)], of t]
  by (auto simp: taskRepo_Update_def with_fault_def task_def case_prod_beta split: option.splits)

lemma taskRepo_Update_view:
  assumes "world_inv e w"
  shows "task (snd (taskRepo_Update e t w)) = task w \<or> task (snd (taskRepo_Update e t w)) = (task w)(t_ID t \<mapsto> t)"
  using taskRepo_Update_Ok [of e t w] taskRepo_Update_Err [of e t w] assms
  by (cases "taskRepo_Update e t w"; cases "fst (taskRepo_Update e t w)") auto

lemma taskRepo_Create_run:
  assumes "e_fault e (w_step w) = None" "world_inv e w" "task w (t_ID t) = None" "t_ID t \<noteq> []"
  shows "fst (taskRepo_Create e t w) = Ok t" "task (snd (taskRepo_Create e t w)) = (task w)(t_ID t \<mapsto> t)"
    "w_step (snd (taskRepo_Create e t w)) = Suc (w_step w)"
  using assms tasks.create_ok [OF world_invD(1) [OF assms(2)], of t]
  by (simp_all add: taskRepo_Create_def with_fault_def task_def case_prod_beta)

lemma taskRepo_Create_Ok:
  assumes "taskRepo_Create e t w = (Ok t', w')" "world_inv e w"
  shows "t' = t \<and> t_ID t \<noteq> [] \<and> task w (t_ID t) = None \<and> task w' = (task w)(t_ID t \<mapsto> t)"
  using assms tasks.create_Ok_iff [OF world_invD(1) [OF assms(2)], of t t'] tasks.create_ok [OF world_invD(1) [OF assms(2)], of t]
  by (auto simp: taskRepo_Create_def with_fault_def task_def case_prod_beta split: option.splits)

lemma taskRepo_Create_Err:
  assumes "taskRepo_Create e t w = (Err err, w')" "world_inv e w"
  shows "task w' = task w"
  using assms tasks.create_ok [OF world_invD(1) [OF assms(2)], of t] tasks.create_err [OF world_invD(1) [OF assms(2)], of t]
  by (cases "t_ID t = [] \<or> task_view (w_tasks w) (t_ID t) \<noteq> None")
    (auto simp: taskRepo_Create_def with_fault_def task_def case_prod_beta split: option.splits)

lemma taskRepo_Delete_run:
  assumes "e_fault e (w_step w) = None" "world_inv e w"
  shows "task (snd (taskRepo_Delete e i w)) = (task w)(i := None)"
    "i \<noteq> [] \<Longrightarrow> fst (taskRepo_Delete e i w) = Ok ()" "w_step (snd (taskRepo_Delete e i w)) = Suc (w_step w)"
  using assms tasks.del_view [OF world_invD(1) [OF assms(2)], of i] tasks.del_ok [OF world_invD(1) [OF assms(2)], of i]
  by (simp_all add: taskRepo_Delete_def with_fault_def task_def case_prod_beta)

lemma taskRepo_Delete_view:
  assumes "world_inv e w"
  shows "task (snd (taskRepo_Delete e i w)) = task w \<or> task (snd (taskRepo_Delete e i w)) = (task w)(i := None)"
  using tasks.del_view [OF world_invD(1) [OF assms], of i]
  by (auto simp: taskRepo_Delete_def with_fault_def task_def case_prod_beta split: option.splits)

lemma propletRepo_Get_Ok:
  "propletRepo_Get e i w = (Ok p, w') \<Longrightarrow> world_inv e w \<Longrightarrow> proplet w i = Some p \<and> p_ID p = i \<and> w' = tick w"
  using props.get_Ok_iff [OF world_invD(2), of e w i p] typed_view_key [OF world_invD(2), of e w i p]
  by (auto simp: propletRepo_Get_def with_fault_def proplet_def split: option.splits)

lemma propletRepo_Get_run:
  "e_fault e (w_step w) = None \<Longrightarrow> world_inv e w \<Longrightarrow> proplet w i = Some p \<Longrightarrow> propletRepo_Get e i w = (Ok p, tick w)"
  using props.get_Ok_iff [OF world_invD(2), of e w i p]
  by (simp add: propletRepo_Get_def with_fault_def proplet_def)

lemma propletRepo_Get_none:
  "e_fault e (w_step w) = None \<Longrightarrow> world_inv e w \<Longrightarrow> proplet w i = None \<Longrightarrow> i \<noteq> [] \<Longrightarrow>
   propletRepo_Get e i w = (Err (Sentinel ErrNotFound), tick w)"
  using props.get_view [OF world_invD(2), of e w i]
  by (simp add: propletRepo_Get_def with_fault_def proplet_def)

lemma propletRepo_Update_run:
  assumes "e_fault e (w_step w) = None" "world_inv e w" "proplet w (p_ID p) \<noteq> None"
  shows "fst (propletRepo_Update e p w) = Ok ()" "proplet (snd (propletRepo_Update e p w)) = (proplet w)(p_ID p \<mapsto> p)"
    "w_step (snd (propletRepo_Update e p w)) = Suc (w_step w)"
  using assms props.upd_ok [OF world_invD(2) [OF assms(2)], of p]
  by (simp_all add: propletRepo_Update_def with_fault_def proplet_def case_prod_beta)

lemma propletRepo_Update_Ok:
  assumes "propletRepo_Update e p w = (Ok u, w')" "world_inv e w"
  shows "proplet w (p_ID p) \<noteq> None \<and> proplet w' = (proplet w)(p_ID p \<mapsto> p)"
  using assms props.upd_view [OF world_invD(2) [OF assms(2)], of p] props.upd_Ok_iff [OF world_invD(2) [OF assms(2)], of p]
  by (auto simp: propletRepo_Update_def with_fault_def proplet_def case_prod_beta split: option.splits)

lemma propletRepo_Update_Err:
  assumes "propletRepo_Update e p w = (Err err, w')" "world_inv e w"
  shows "proplet w' = proplet w"
  using assms props.upd_view [OF world_invD(2) [OF assms(2)], of p] props.upd_Ok_iff [OF world_invD(2) [OF assms(2)], of p]
  by (auto simp: propletRepo_Update_def with_fault_def proplet_def case_prod_beta split: option.splits)

lemma proplets_Create_view:
  assumes "proplets_inv s"
  shows "fst (proplets_Create p s) = Ok () \<longleftrightarrow> p_ID p \<noteq> [] \<and> proplet_view s (p_ID p) = None"
    and "proplet_view (snd (proplets_Create p s)) =
      (if p_ID p \<noteq> [] \<and> proplet_view s (p_ID p) = None then (proplet_view s)(p_ID p \<mapsto> p) else proplet_view s)"
  using typed_view_None [OF assms, of "p_ID p"]
  by (auto simp: proplets_Create_def storage_Create_def split: option.splits)

lemma propletRepo_Create_run:
  assumes "e_fault e (w_step w) = None" "world_inv e w" "proplet w (p_ID p) = None" "p_ID p \<noteq> []"
  shows "fst (propletRepo_Create e p w) = Ok ()" "proplet (snd (propletRepo_Create e p w)) = (proplet w)(p_ID p \<mapsto> p)"
  using assms proplets_Create_view [OF world_invD(2) [OF assms(2)], of p]
  by (simp_all add: propletRepo_Create_def with_fault_def proplet_def case_prod_beta)

end
