(* ===== verification/Queries.thy ===== *)
theory Queries
  imports Frame
begin

text \<open>
  The operations of \<^verbatim>\<open>manager/service.go\<close> that read: single proplets and tasks, pages of
  them, results and metrics, and the loops that walk through all pages of a repository. The
  interface between such a loop and the listing it pages through is the locale \<open>pager\<close>, which
  carries the proof that the loop returns everything exactly once.
\<close>

section \<open>Proplets\<close>

definition GetProplet :: "env \<Rightarrow> string \<Rightarrow> world \<Rightarrow> Proplet result \<times> world" where
  "GetProplet e propletID w =
     (case propletRepo_Get e propletID w of
        (Err err, w) \<Rightarrow> if errors_Is err ErrPropletNotFound then (Err (Sentinel ErrNotFound), w) else (Err err, w)
      | (Ok p, w) \<Rightarrow> (case time_Now e w of (now, w) \<Rightarrow> (Ok (SetAlive now p), w)))"

text \<open>The loops \<open>for i := range proplets { proplets[i].SetAlive() }\<close>; each call reads the clock.\<close>

fun set_alive :: "env \<Rightarrow> Proplet list \<Rightarrow> world \<Rightarrow> Proplet list \<times> world" where
  "set_alive e [] w = ([], w)"
| "set_alive e (p # ps) w =
     (case time_Now e w of (now, w) \<Rightarrow> case set_alive e ps w of (qs, w) \<Rightarrow> (SetAlive now p # qs, w))"

definition proplet_page :: "u64 \<Rightarrow> u64 \<Rightarrow> u64 \<Rightarrow> Proplet list \<Rightarrow> PropletPage" where
  "proplet_page offset limit tot proplets =
     \<lparr>pp_Offset = offset, pp_Limit = limit, pp_Total = tot, pp_Proplets = proplets\<rparr>"

definition ListProplets :: "env \<Rightarrow> u64 \<Rightarrow> u64 \<Rightarrow> string \<Rightarrow> world \<Rightarrow> PropletPage result \<times> world" where
  "ListProplets e offset limit status w =
     (if status = []
      then case propletRepo_List e offset limit w of
             (Err err, w) \<Rightarrow> (Err err, w)
           | (Ok (proplets, tot), w) \<Rightarrow>
               (case set_alive e proplets w of (proplets, w) \<Rightarrow> (Ok (proplet_page offset limit tot proplets), w))
      else case ToStatus status of
             Err err \<Rightarrow> (Err (Wrap2 (Sentinel ErrInvalidValue) '': '' err), w)
           | Ok st \<Rightarrow>
               (case time_Now e w of (now, w) \<Rightarrow>
                case propletRepo_ListByAlive e offset limit (st = ActiveStatus) (now - AliveTimeout) w of
                  (Err err, w) \<Rightarrow> (Err err, w)
                | (Ok (proplets, tot), w) \<Rightarrow>
                    (case set_alive e proplets w of (proplets, w) \<Rightarrow> (Ok (proplet_page offset limit tot proplets), w))))"

lemma u64_measure: "(a :: u64) < b \<Longrightarrow> 2 ^ 64 - unat b < 2 ^ 64 - unat a"
  using unat_u64_less [of a] unat_u64_less [of b] unfolding word_less_nat_alt by linarith

lemma ListByAlive_advance:
  assumes "ListByAlive off lim alive since s = Ok (page, tot)" "page \<noteq> []"
  shows "off < off + u64_len page"
proof -
  let ?xs = "filter (\<lambda>p. alive_since since p = alive)
    (List.map_filter as_Proplet (fst (projr (storage_List 0 MaxUint64 s))))"
  define hi where "hi = min (off + lim) (u64_len ?xs)"
  have "slice_u64 ?xs off hi = Ok page"
    using assms by (auto simp: ListByAlive_def Let_def hi_def split: sum.splits if_splits)
  then have "off \<le> hi" "length page = unat hi - unat off" by (auto simp: slice_u64_def split: if_splits)
  moreover from this have "off + u64_len page = hi" by (simp add: u64_len_def unat_sub [symmetric])
  moreover have "length page > 0" using assms(2) by simp
  ultimately show ?thesis by (simp add: word_less_nat_alt)
qed

definition activePageSize :: u64 where
  "activePageSize = 100"

lemma propletRepo_ListByAlive_advance:
  "propletRepo_ListByAlive e off lim alive since w = (Ok (page, tot), w') \<Longrightarrow> page \<noteq> [] \<Longrightarrow>
   2 ^ 64 - unat (off + u64_len page) < 2 ^ 64 - unat off"
  using u64_measure [of off "off + u64_len page"] ListByAlive_advance [of off lim alive since "w_proplets w" page tot]
  by (simp add: propletRepo_ListByAlive_def with_fault_def split: option.splits)

function active_loop :: "env \<Rightarrow> gotime \<Rightarrow> u64 \<Rightarrow> Proplet list \<Rightarrow> world \<Rightarrow> Proplet list result \<times> world" where
  "active_loop e since offset acc w =
     (case propletRepo_ListByAlive e offset activePageSize True since w of
        (Err err, w) \<Rightarrow> (Err err, w)
      | (Ok (page, tot), w) \<Rightarrow>
          (case set_alive e page w of (page', w) \<Rightarrow>
             let acc = acc @ page'; offset' = offset + u64_len page
             in if tot \<le> offset' \<or> page = [] then (Ok acc, w) else active_loop e since offset' acc w))"
  by pat_completeness auto
termination active_loop
proof (relation "measure (\<lambda>(e, since, offset, acc, w). 2 ^ 64 - unat offset)", goal_cases)
  case (2 e since offset acc w)
  then show ?case
    by (auto dest!: propletRepo_ListByAlive_advance [OF sym])
qed simp

declare active_loop.simps [simp del]

definition listAllActiveProplets :: "env \<Rightarrow> world \<Rightarrow> Proplet list result \<times> world" where
  "listAllActiveProplets e w =
     (case time_Now e w of (now, w) \<Rightarrow> active_loop e (now - AliveTimeout) 0 [] w)"

definition svc_SelectProplet :: "env \<Rightarrow> Task \<Rightarrow> world \<Rightarrow> Proplet result \<times> world" where
  "svc_SelectProplet e t w =
     (case listAllActiveProplets e w of
        (Err err, w) \<Rightarrow> (Err err, w)
      | (Ok proplets, w) \<Rightarrow> scheduler_SelectProplet t proplets w)"

definition DeleteProplet :: "env \<Rightarrow> string \<Rightarrow> world \<Rightarrow> unit result \<times> world" where
  "DeleteProplet e propletID w =
     (case GetProplet e propletID w of
        (Err err, w) \<Rightarrow> (Err err, w)
      | (Ok p, w) \<Rightarrow>
          if p_TaskCount p > 0
          then (Err (Wrap [] (Sentinel ErrConflict)
                  ('': proplet '' @ propletID @ '' has '' @ show_nat (unat (p_TaskCount p)) @ '' active tasks'')), w)
          else propletRepo_Delete e propletID w)"

definition GetPropletAliveHistory ::
    "env \<Rightarrow> string \<Rightarrow> u64 \<Rightarrow> u64 \<Rightarrow> world \<Rightarrow> PropletAliveHistoryPage result \<times> world" where
  "GetPropletAliveHistory e propletID offset limit w =
     (case propletRepo_GetAliveHistory e propletID offset limit w of
        (Err err, w) \<Rightarrow> if errors_Is err ErrPropletNotFound then (Err (Sentinel ErrNotFound), w) else (Err err, w)
      | (Ok (history, tot), w) \<Rightarrow>
          (Ok \<lparr>ah_Offset = offset, ah_Limit = limit, ah_Total = tot, ah_History = history\<rparr>, w))"

definition GetPropletMetrics ::
    "env \<Rightarrow> string \<Rightarrow> u64 \<Rightarrow> u64 \<Rightarrow> world \<Rightarrow> PropletMetricsPage result \<times> world" where
  "GetPropletMetrics e propletID offset limit w =
     (case metricsRepo_ListPropletMetrics e propletID offset limit w of
        (Err err, w) \<Rightarrow> (Err err, w)
      | (Ok (metrics, tot), w) \<Rightarrow>
          (Ok \<lparr>pmp_Offset = offset, pmp_Limit = limit, pmp_Total = tot, pmp_Metrics = metrics\<rparr>, w))"

section \<open>Tasks\<close>

record PageMetadata =
  pg_Offset :: u64
  pg_Limit :: u64
  pg_Metadata :: "anymap option"

definition GetTask :: "env \<Rightarrow> string \<Rightarrow> world \<Rightarrow> Task result \<times> world" where
  "GetTask e taskID w =
     (case taskRepo_Get e taskID w of
        (Err err, w) \<Rightarrow> if errors_Is err ErrTaskNotFound then (Err (Sentinel ErrNotFound), w) else (Err err, w)
      | (Ok t, w) \<Rightarrow> (Ok t, w))"

definition ListTasks :: "env \<Rightarrow> PageMetadata \<Rightarrow> world \<Rightarrow> TaskPage result \<times> world" where
  "ListTasks e pm w =
     (case taskRepo_List e (pg_Metadata pm) (pg_Offset pm) (pg_Limit pm) w of
        (Err err, w) \<Rightarrow> (Err err, w)
      | (Ok (tasks, tot), w) \<Rightarrow>
          (Ok \<lparr>tp_Offset = pg_Offset pm, tp_Limit = pg_Limit pm, tp_Total = tot, tp_Tasks = tasks\<rparr>, w))"

definition GetTaskMetrics :: "env \<Rightarrow> string \<Rightarrow> u64 \<Rightarrow> u64 \<Rightarrow> world \<Rightarrow> TaskMetricsPage result \<times> world" where
  "GetTaskMetrics e taskID offset limit w =
     (case metricsRepo_ListTaskMetrics e taskID offset limit w of
        (Err err, w) \<Rightarrow> (Err err, w)
      | (Ok (metrics, tot), w) \<Rightarrow>
          (Ok \<lparr>tmp_Offset = offset, tmp_Limit = limit, tmp_Total = tot, tmp_Metrics = metrics\<rparr>, w))"

definition GetTaskResults :: "env \<Rightarrow> string \<Rightarrow> world \<Rightarrow> any result \<times> world" where
  "GetTaskResults e taskID w =
     (case GetTask e taskID w of (Err err, w) \<Rightarrow> (Err err, w) | (Ok t, w) \<Rightarrow> (Ok (t_Results t), w))"

fun parent_loop :: "env \<Rightarrow> string list \<Rightarrow> anymap \<Rightarrow> world \<Rightarrow> anymap \<times> world" where
  "parent_loop e [] parentResults w = (parentResults, w)"
| "parent_loop e (depID # deps) parentResults w =
     (case GetTask e depID w of
        (Err _, w) \<Rightarrow> parent_loop e deps parentResults w
      | (Ok dep, w) \<Rightarrow>
          parent_loop e deps
            (if t_State dep = Completed \<and> t_Results dep \<noteq> ANil
             then AList.update depID (t_Results dep) parentResults else parentResults) w)"

definition GetParentResults :: "env \<Rightarrow> string \<Rightarrow> world \<Rightarrow> anymap result \<times> world" where
  "GetParentResults e taskID w =
     (case GetTask e taskID w of
        (Err err, w) \<Rightarrow> (Err err, w)
      | (Ok t, w) \<Rightarrow> (case parent_loop e (t_DependsOn t) [] w of (parentResults, w) \<Rightarrow> (Ok parentResults, w)))"

definition getWorkflowTasks :: "env \<Rightarrow> string \<Rightarrow> world \<Rightarrow> Task list result \<times> world" where
  "getWorkflowTasks e workflowID = taskRepo_ListByWorkflowID e workflowID"

definition getJobTasks :: "env \<Rightarrow> string \<Rightarrow> world \<Rightarrow> Task list result \<times> world" where
  "getJobTasks e jobID = taskRepo_ListByJobID e jobID"

definition GetJob :: "env \<Rightarrow> string \<Rightarrow> world \<Rightarrow> Task list result \<times> world" where
  "GetJob e jobID = getJobTasks e jobID"

section \<open>Walking through the pages\<close>

lemma those_length: "those xs = Some ys \<Longrightarrow> length ys = length xs"
  by (induction xs arbitrary: ys) (auto split: option.splits)

lemma tasks_List_advance:
  assumes "tasks_List ff None off lim r = Ok (page, tot)" "page \<noteq> []"
  shows "off < off + u64_len page"
proof -
  obtain data where "storage_List off lim (r_storage r) = Ok (data, tot)" "those (map as_Task data) = Some page"
    using assms by (auto simp: tasks_List_def entries_def listAll_def split: sum.splits option.splits)
  moreover from this(2) have "length data = length page"
    by (auto dest: those_length)
  ultimately show ?thesis
    using storage_List_advance(1) [of off lim "r_storage r" data tot] assms(2)
    by (cases "data = []") (auto simp: u64_len_def)
qed

lemma taskRepo_List_advance:
  "taskRepo_List e None off lim w = (Ok (page, tot), w') \<Longrightarrow> page \<noteq> [] \<Longrightarrow>
   2 ^ 64 - unat (off + u64_len page) < 2 ^ 64 - unat off"
  using u64_measure [of off "off + u64_len page"] tasks_List_advance [of "e_fmtFloat e" off lim "w_tasks w" page tot]
  by (simp add: taskRepo_List_def with_fault_def split: option.splits)

definition taskPageSize :: u64 where
  "taskPageSize = 100"

function task_pages :: "env \<Rightarrow> u64 \<Rightarrow> Task list \<Rightarrow> world \<Rightarrow> Task list result \<times> world" where
  "task_pages e offset acc w =
     (case taskRepo_List e None offset taskPageSize w of
        (Err err, w) \<Rightarrow> (Err err, w)
      | (Ok (page, tot), w) \<Rightarrow>
          let acc = acc @ page; offset' = offset + u64_len page
          in if tot \<le> offset' \<or> page = [] then (Ok acc, w) else task_pages e offset' acc w)"
  by pat_completeness auto
termination task_pages
proof (relation "measure (\<lambda>(e, offset, acc, w). 2 ^ 64 - unat offset)", goal_cases)
  case (2 e offset acc w)
  then show ?case by (auto dest!: taskRepo_List_advance [OF sym])
qed simp

declare task_pages.simps [simp del]

definition listAllTasksFromRepo :: "env \<Rightarrow> world \<Rightarrow> Task list result \<times> world" where
  "listAllTasksFromRepo e w = task_pages e 0 [] w"

definition listAllTasks :: "env \<Rightarrow> world \<Rightarrow> Task list result \<times> world" where
  "listAllTasks e w = listAllTasksFromRepo e w"

lemma storage_List_no_wrap:
  assumes "storage_List off lim s = Ok (data, tot)" "data \<noteq> []" "0 < lim"
  shows "off < off + lim"
proof -
  define hi where "hi = min (off + lim) (u64_len (storage_keys s))"
  have "\<exists>ks. slice_u64 (storage_keys s) off hi = Ok ks"
    using assms by (auto simp: storage_List_def Let_def hi_def split: if_splits sum.splits)
  then have "off \<le> hi" by (auto simp: slice_u64_def split: if_splits)
  then have "off \<le> off + lim" unfolding hi_def by simp
  moreover have "off \<noteq> off + lim" using assms(3) by simp
  ultimately show ?thesis by (rule order_le_neq_trans)
qed

lemma jobRepo_List_advance:
  assumes "jobRepo_List e off lim w = (Ok (page, tot), w')" "page \<noteq> []" "0 < lim"
  shows "2 ^ 64 - unat (off + lim) < 2 ^ 64 - unat off"
proof -
  obtain data where "storage_List off lim (w_jobs w) = Ok (data, tot)" "page = List.map_filter as_Job data"
    using assms by (auto simp: jobRepo_List_def with_fault_def jobs_List_def split: option.splits sum.splits)
  then have "off < off + lim"
    using storage_List_no_wrap [of off lim "w_jobs w" data tot] assms(2,3) by (cases "data = []") auto
  then show ?thesis by (rule u64_measure)
qed

definition jobPageLimit :: u64 where
  "jobPageLimit = 1000"

function job_pages :: "env \<Rightarrow> u64 \<Rightarrow> Job list \<Rightarrow> world \<Rightarrow> Job list result \<times> world" where
  "job_pages e offset jobs w =
     (case jobRepo_List e offset jobPageLimit w of
        (Err err, w) \<Rightarrow> (Err err, w)
      | (Ok (page, tot), w) \<Rightarrow>
          let jobs = jobs @ page
          in if page = [] \<or> tot \<le> offset + u64_len page then (Ok jobs, w)
             else job_pages e (offset + jobPageLimit) jobs w)"
  by pat_completeness auto
termination job_pages
proof (relation "measure (\<lambda>(e, offset, jobs, w). 2 ^ 64 - unat offset)", goal_cases)
  case (2 e offset jobs w)
  then show ?case by (auto dest!: jobRepo_List_advance [OF sym] simp: jobPageLimit_def)
qed simp

declare job_pages.simps [simp del]

definition listAllStoredJobs :: "env \<Rightarrow> world \<Rightarrow> Job list result \<times> world" where
  "listAllStoredJobs e w = job_pages e 0 [] w"

section \<open>Frames\<close>

lemma reach_GetProplet [reach_intros]: "reach e C w0 w \<Longrightarrow> reach e C w0 (snd (GetProplet e i w))"
  unfolding GetProplet_def by (assumption | rule reach_steps reach_intros)+

lemma reach_set_alive [reach_intros]: "reach e C w0 w \<Longrightarrow> reach e C w0 (snd (set_alive e ps w))"
proof (induction ps arbitrary: w)
  case (Cons p ps)
  note [reach_intros] = Cons.IH
  show ?case unfolding set_alive.simps by (assumption | rule reach_steps reach_intros Cons)+
qed simp

lemma reach_ListProplets [reach_intros]: "reach e C w0 w \<Longrightarrow> reach e C w0 (snd (ListProplets e off lim st w))"
  unfolding ListProplets_def by (assumption | rule reach_steps reach_intros)+

lemma reach_active_loop [reach_intros]: "reach e C w0 w \<Longrightarrow> reach e C w0 (snd (active_loop e since off acc w))"
proof (induction e since off acc w rule: active_loop.induct)
  case (1 e since offset acc w)
  obtain r w1 where f: "propletRepo_ListByAlive e offset activePageSize True since w = (r, w1)" by fastforce
  then have w1: "reach e C w0 w1" using reach_read(7) [OF "1.prems"] by (metis snd_conv)
  show ?case
  proof (cases r)
    case (Inl err)
    then show ?thesis using f w1 by (simp add: active_loop.simps [of e since offset])
  next
    case (Inr pg)
    obtain page tot where pg: "pg = (page, tot)" by fastforce
    obtain page' w2 where set: "set_alive e page w1 = (page', w2)" by fastforce
    have w2: "reach e C w0 w2" using reach_set_alive [OF w1, of page] set by simp
    show ?thesis
      using "1.IH" [OF f [symmetric] Inr pg [symmetric] set [symmetric] refl refl] w2 f Inr pg set
      by (simp add: active_loop.simps [of e since offset] Let_def)
  qed
qed

lemma reach_task_pages [reach_intros]: "reach e C w0 w \<Longrightarrow> reach e C w0 (snd (task_pages e off acc w))"
proof (induction e off acc w rule: task_pages.induct)
  case (1 e offset acc w)
  obtain r w1 where f: "taskRepo_List e None offset taskPageSize w = (r, w1)" by fastforce
  then have w1: "reach e C w0 w1" using reach_read(2) [OF "1.prems"] by (metis snd_conv)
  show ?case
  proof (cases r)
    case (Inl err)
    then show ?thesis using f w1 by (simp add: task_pages.simps [of e offset])
  next
    case (Inr pg)
    obtain page tot where pg: "pg = (page, tot)" by fastforce
    show ?thesis
      using "1.IH" [OF f [symmetric] Inr pg [symmetric] refl refl] w1 f Inr pg
      by (simp add: task_pages.simps [of e offset] Let_def)
  qed
qed

lemma reach_job_pages [reach_intros]: "reach e C w0 w \<Longrightarrow> reach e C w0 (snd (job_pages e off acc w))"
proof (induction e off acc w rule: job_pages.induct)
  case (1 e offset acc w)
  obtain r w1 where f: "jobRepo_List e offset jobPageLimit w = (r, w1)" by fastforce
  then have w1: "reach e C w0 w1" using reach_read(11) [OF "1.prems"] by (metis snd_conv)
  show ?case
  proof (cases r)
    case (Inl err)
    then show ?thesis using f w1 by (simp add: job_pages.simps [of e offset])
  next
    case (Inr pg)
    obtain page tot where pg: "pg = (page, tot)" by fastforce
    show ?thesis
      using "1.IH" [OF f [symmetric] Inr pg [symmetric] refl] w1 f Inr pg
      by (simp add: job_pages.simps [of e offset] Let_def)
  qed
qed

lemma reach_parent_loop [reach_intros]: "reach e C w0 w \<Longrightarrow> reach e C w0 (snd (parent_loop e ds acc w))"
proof (induction ds arbitrary: acc w)
  case (Cons d ds)
  show ?case unfolding parent_loop.simps GetTask_def by (assumption | rule reach_steps reach_intros Cons)+
qed simp

lemma reach_queries [reach_intros]:
  assumes "reach e C w0 w"
  shows "reach e C w0 (snd (listAllActiveProplets e w))"
    "Sched \<in> C \<Longrightarrow> reach e C w0 (snd (svc_SelectProplet e t w))"
    "Proplets \<in> C \<Longrightarrow> reach e C w0 (snd (DeleteProplet e i w))"
    "reach e C w0 (snd (GetPropletAliveHistory e i off lim w))"
    "reach e C w0 (snd (GetPropletMetrics e i off lim w))"
    "reach e C w0 (snd (GetTask e i w))"
    "reach e C w0 (snd (ListTasks e pm w))"
    "reach e C w0 (snd (GetTaskMetrics e i off lim w))"
    "reach e C w0 (snd (GetTaskResults e i w))"
    "reach e C w0 (snd (GetParentResults e i w))"
    "reach e C w0 (snd (getWorkflowTasks e i w))"
    "reach e C w0 (snd (getJobTasks e i w))"
    "reach e C w0 (snd (GetJob e i w))"
    "reach e C w0 (snd (listAllTasks e w))"
    "reach e C w0 (snd (listAllStoredJobs e w))"
  unfolding listAllActiveProplets_def svc_SelectProplet_def DeleteProplet_def GetPropletAliveHistory_def
    GetPropletMetrics_def GetTask_def ListTasks_def GetTaskMetrics_def GetTaskResults_def GetParentResults_def
    getWorkflowTasks_def getJobTasks_def GetJob_def listAllTasks_def listAllTasksFromRepo_def listAllStoredJobs_def
  by (assumption | rule reach_steps reach_intros assms)+

section \<open>Every page once\<close>

text \<open>
  A loop over the pages of a listing. \<open>erase\<close> forgets what the loop changes in an element (the
  liveness flag), \<open>good\<close> are the states in which the listing consists of \<open>xs\<close>.
\<close>

locale pager =
  fixes fetch :: "u64 \<Rightarrow> 's \<Rightarrow> ('a list \<times> u64) result \<times> 's"
    and loop :: "u64 \<Rightarrow> 'a list \<Rightarrow> 's \<Rightarrow> 'a list result \<times> 's"
    and erase :: "'a \<Rightarrow> 'b" and size :: nat and xs :: "'b list" and good :: "'s \<Rightarrow> bool"
  assumes size_pos: "0 < size" and bound: "good s \<Longrightarrow> length xs + size < 2 ^ 64"
    and fetch_page: "good s \<Longrightarrow> unat off \<le> length xs \<Longrightarrow>
      \<exists>page s'. fetch off s = (Ok (page, u64_len xs), s') \<and> map erase page = take size (drop (unat off) xs) \<and> good s'"
    and loop_stop: "fetch off s = (Ok (page, tot), s') \<Longrightarrow> page = [] \<or> tot \<le> off + u64_len page \<Longrightarrow>
      loop off acc s = (Ok (acc @ page), s')"
    and loop_next: "fetch off s = (Ok (page, tot), s') \<Longrightarrow> page \<noteq> [] \<Longrightarrow> \<not> tot \<le> off + u64_len page \<Longrightarrow>
      length page = size \<Longrightarrow> loop off acc s = loop (off + u64_len page) (acc @ page) s'"
begin

lemma loop_rest:
  assumes "good s" "unat off \<le> length xs" "map erase acc = take (unat off) xs"
  shows "\<exists>ys s'. loop off acc s = (Ok ys, s') \<and> map erase ys = xs \<and> good s'"
  using assms
proof (induction "length xs - unat off" arbitrary: off acc s rule: less_induct)
  case less
  obtain page s' where page: "fetch off s = (Ok (page, u64_len xs), s')"
      "map erase page = take size (drop (unat off) xs)" "good s'"
    using fetch_page [OF less.prems(1,2)] by blast
  have xs: "length xs + size < 2 ^ 64" by (rule bound [OF less.prems(1)])
  have len: "length page = min size (length xs - unat off)"
    using arg_cong [OF page(2), of length] by simp
  then have "unat off + length page < 2 ^ 64" using xs less.prems(2) by linarith
  then have off: "unat (off + u64_len page) = unat off + length page"
    using unat_add_no_wrap [of off "u64_len page"] len xs by simp
  have acc: "map erase (acc @ page) = take (unat off + length page) xs"
    using less.prems(3) page(2) len by (simp add: take_add min_def)
  have tot: "unat (u64_len xs) = length xs" using xs by simp
  show ?case
  proof (cases "page = [] \<or> u64_len xs \<le> off + u64_len page")
    case True
    have "length xs \<le> unat off + length page"
      using True len size_pos tot less.prems(2) off by (auto simp: word_le_nat_alt min_def split: if_splits)
    then show ?thesis using loop_stop [OF page(1) True, of acc] acc page(3) by auto
  next
    case False
    then have lt: "unat off + length page < length xs" using tot off by (simp add: word_le_nat_alt)
    then have "length page = size" using len by linarith
    then have step: "loop off acc s = loop (off + u64_len page) (acc @ page) s'"
      using loop_next [OF page(1)] False by blast
    have "length xs - unat (off + u64_len page) < length xs - unat off"
      using lt False off by (cases page) simp_all
    then show ?thesis
      unfolding step using less.hyps [OF _ page(3), of "off + u64_len page" "acc @ page"] lt off acc by simp
  qed
qed

lemma loop_all: "good s \<Longrightarrow> \<exists>ys s'. loop 0 [] s = (Ok ys, s') \<and> map erase ys = xs \<and> good s'"
  using loop_rest [of s 0 "[]"] by simp

end

text \<open>Storage that never fails.\<close>

definition reliable :: "env \<Rightarrow> bool" where
  "reliable e \<longleftrightarrow> (\<forall>n. e_fault e n = None)"

lemma reliable_fault [simp]: "reliable e \<Longrightarrow> e_fault e n = None"
  by (simp add: reliable_def)

lemma reliable_with_fault: "reliable e \<Longrightarrow> with_fault e f w = f (tick w)"
  by (simp add: with_fault_def)

abbreviation task_good :: "env \<Rightarrow> Task list \<Rightarrow> world \<Rightarrow> bool" where
  "task_good e ts w \<equiv> reliable e \<and> world_inv e w \<and> all_tasks (w_tasks w) = ts \<and> length ts + 100 < 2 ^ 64"

lemma matches_None [simp]: "matches ff None t"
  by (simp add: matches_def entries_def)

interpretation task_pager: pager "\<lambda>off. taskRepo_List e None off taskPageSize" "task_pages e" id 100 ts "task_good e ts" for e ts
proof (unfold_locales, goal_cases)
  case (3 w off)
  then have "tasks_List (e_fmtFloat e) None off taskPageSize (w_tasks w) =
      Ok (take (unat taskPageSize) (drop (unat off) ts), u64_len ts)"
    using length_all_tasks [OF world_invD(1), of e w]
    by (intro tasks_List_page) (simp_all add: world_invD taskPageSize_def)
  with 3 show ?case by (simp add: taskRepo_List_def reliable_with_fault taskPageSize_def)
next
  case (4 off w page tot w' acc)
  then show ?case unfolding task_pages.simps [of e off] by (auto simp: Let_def)
next
  case (5 off w page tot w' acc)
  then show ?case by (subst task_pages.simps) (simp add: Let_def)
qed simp_all

abbreviation job_good :: "env \<Rightarrow> Job list \<Rightarrow> world \<Rightarrow> bool" where
  "job_good e js w \<equiv> reliable e \<and> world_inv e w \<and> typed_values as_Job (w_jobs w) = js \<and> length js + 1000 < 2 ^ 64"

interpretation job_pager: pager "\<lambda>off. jobRepo_List e off jobPageLimit" "job_pages e" id 1000 js "job_good e js" for e js
proof (unfold_locales, goal_cases)
  case (3 w off)
  then have len: "length (w_jobs w) = length js"
    using typed_values_length [OF world_invD(4)] by metis
  have "jobs_List off jobPageLimit (w_jobs w) =
      Ok (take (unat jobPageLimit) (drop (unat off) js), u64_len (w_jobs w))"
    using 3 len jobs_List_page [of "w_jobs w" off jobPageLimit] world_invD(4) [of e w] by (simp add: jobPageLimit_def)
  with 3 len show ?case by (simp add: jobRepo_List_def reliable_with_fault jobPageLimit_def u64_len_def)
next
  case (4 off w page tot w' acc)
  then show ?case unfolding job_pages.simps [of e off] by (auto simp: Let_def)
next
  case (5 off w page tot w' acc)
  then have "u64_len page = jobPageLimit" by (simp add: u64_len_def jobPageLimit_def)
  then show ?case using 5 by (subst job_pages.simps) (simp add: Let_def)
qed simp_all

definition unflagged :: "Proplet \<Rightarrow> Proplet" where
  "unflagged p = p\<lparr>p_Alive := False\<rparr>"

lemma unflagged_SetAlive [simp]: "unflagged (SetAlive now p) = unflagged p"
  by (simp add: unflagged_def SetAlive_def)

lemma unflagged_set_alive: "map unflagged (fst (set_alive e ps w)) = map unflagged ps"
  by (induction ps arbitrary: w) (auto simp: case_prod_beta)

definition actives :: "gotime \<Rightarrow> world \<Rightarrow> Proplet list" where
  "actives since w = filter (alive_since since) (typed_values as_Proplet (w_proplets w))"

definition active_fetch :: "env \<Rightarrow> gotime \<Rightarrow> u64 \<Rightarrow> world \<Rightarrow> (Proplet list \<times> u64) result \<times> world" where
  "active_fetch e since off w =
     (case propletRepo_ListByAlive e off activePageSize True since w of
        (Err err, w) \<Rightarrow> (Err err, w)
      | (Ok (page, tot), w) \<Rightarrow> (case set_alive e page w of (page', w) \<Rightarrow> (Ok (page', tot), w)))"

abbreviation active_good :: "env \<Rightarrow> gotime \<Rightarrow> Proplet list \<Rightarrow> world \<Rightarrow> bool" where
  "active_good e since ps w \<equiv> reliable e \<and> world_inv e w \<and> map unflagged (actives since w) = ps \<and>
     length (w_proplets w) + 100 < 2 ^ 64"

lemma length_actives: "world_inv e w \<Longrightarrow> length (actives since w) \<le> length (w_proplets w)"
  unfolding actives_def using typed_values_length [OF world_invD(2)] length_filter_le by metis

lemma active_good_reach: "reach e {} w w' \<Longrightarrow> active_good e since ps w \<Longrightarrow> active_good e since ps w'"
  using reach_frame(2) [of e "{}" w w'] reach_inv [of e "{}" w w'] by (simp add: actives_def)

lemma length_set_alive [simp]: "length (fst (set_alive e ps w)) = length ps"
  by (induction ps arbitrary: w) (auto simp: case_prod_beta)

lemma active_fetch_raw:
  assumes "active_fetch e since off w = (Ok (page', tot), w')"
  obtains page w1 where "propletRepo_ListByAlive e off activePageSize True since w = (Ok (page, tot), w1)"
    "set_alive e page w1 = (page', w')" "length page = length page'"
proof -
  obtain r w1 where f: "propletRepo_ListByAlive e off activePageSize True since w = (r, w1)" by fastforce
  obtain page where r: "r = Ok (page, tot)" and set: "set_alive e page w1 = (page', w')"
    using assms by (auto simp: active_fetch_def f split: sum.splits prod.splits)
  show thesis using that [OF f [unfolded r] set] length_set_alive [of e page w1] set by simp
qed

interpretation active_pager: pager "active_fetch e since" "active_loop e since" unflagged 100 ps "active_good e since ps"
  for e since ps
proof (unfold_locales, goal_cases)
  case (2 w)
  then show ?case using length_actives [of e w since] by force
next
  case (3 w off)
  let ?page = "take 100 (drop (unat off) (actives since w))"
  have "length ps \<le> length (w_proplets w)" using 3 length_actives [of e w since] by force
  then have "ListByAlive off activePageSize True since (w_proplets w) = Ok (?page, u64_len ps)"
    using 3 ListByAlive_page [OF _ _ refl, where s = "w_proplets w" and off = off and lim = activePageSize
        and since = since and alive = True]
    by (auto simp: activePageSize_def actives_def u64_len_def)
  then have "active_fetch e since off w = (Ok (fst (set_alive e ?page (tick w)), u64_len ps), snd (set_alive e ?page (tick w)))"
    using 3 by (simp add: active_fetch_def propletRepo_ListByAlive_def reliable_with_fault case_prod_beta)
  moreover have "active_good e since ps (snd (set_alive e ?page (tick w)))"
    by (rule active_good_reach [OF _ 3(1)]) (intro reach_set_alive reach_tick reach_refl)
  moreover have "map unflagged (fst (set_alive e ?page (tick w))) = take 100 (drop (unat off) ps)"
    using 3 by (auto simp: unflagged_set_alive take_map drop_map)
  ultimately show ?case by blast
next
  case (4 off w page tot w' acc)
  then show ?case
    by (elim active_fetch_raw) (subst active_loop.simps, auto simp: u64_len_def)
next
  case (5 off w page tot w' acc)
  then show ?case
    by (elim active_fetch_raw) (subst active_loop.simps, auto simp: Let_def u64_len_def)
qed simp_all

lemma listAllTasks_run:
  assumes "reliable e" "world_inv e w" "length (r_storage (w_tasks w)) + 100 < 2 ^ 64"
  shows "\<exists>w'. listAllTasks e w = (Ok (all_tasks (w_tasks w)), w')"
  using task_pager.loop_all [of e w "all_tasks (w_tasks w)"] assms length_all_tasks [OF world_invD(1) [OF assms(2)]]
  by (auto simp: listAllTasks_def listAllTasksFromRepo_def)

lemma listAllStoredJobs_run:
  assumes "reliable e" "world_inv e w" "length (w_jobs w) + 1000 < 2 ^ 64"
  shows "\<exists>w'. listAllStoredJobs e w = (Ok (typed_values as_Job (w_jobs w)), w')"
  using job_pager.loop_all [of e w "typed_values as_Job (w_jobs w)"] assms
    typed_values_length [OF world_invD(4) [OF assms(2)]]
  by (auto simp: listAllStoredJobs_def)

lemma listAllActiveProplets_run:
  assumes "reliable e" "world_inv e w" "length (w_proplets w) + 100 < 2 ^ 64"
  shows "\<exists>ps w'. listAllActiveProplets e w = (Ok ps, w') \<and>
    map unflagged ps = map unflagged (actives (e_now e (w_step w) - AliveTimeout) w)"
proof -
  let ?since = "e_now e (w_step w) - AliveTimeout"
  have "active_good e ?since (map unflagged (actives ?since w)) (tick w)"
    using assms by (simp add: actives_def)
  from active_pager.loop_all [OF this] show ?thesis
    by (auto simp: listAllActiveProplets_def time_Now_def)
qed

lemma GetTask_Ok:
  assumes "GetTask e i w = (Ok t, w')" "world_inv e w"
  shows "task w i = Some t" "t_ID t = i" "w' = tick w"
  using assms taskRepo_Get_Ok [of e i w t w']
  by (auto simp: GetTask_def split: prod.splits sum.splits if_splits)

lemma GetTask_run:
  "e_fault e (w_step w) = None \<Longrightarrow> world_inv e w \<Longrightarrow> task w i = Some t \<Longrightarrow> GetTask e i w = (Ok t, tick w)"
  by (simp add: GetTask_def taskRepo_Get_run)

lemma GetProplet_Ok:
  assumes "GetProplet e i w = (Ok p, w')" "world_inv e w"
  shows "\<exists>q. proplet w i = Some q \<and> p_ID q = i \<and> p = SetAlive (e_now e (Suc (w_step w))) q \<and> w' = tick (tick w)"
  using assms propletRepo_Get_Ok [of e i w]
  by (auto simp: GetProplet_def time_Now_def split: prod.splits sum.splits if_splits)

lemma GetProplet_run:
  "e_fault e (w_step w) = None \<Longrightarrow> world_inv e w \<Longrightarrow> proplet w i = Some q \<Longrightarrow>
   GetProplet e i w = (Ok (SetAlive (e_now e (Suc (w_step w))) q), tick (tick w))"
  by (simp add: GetProplet_def propletRepo_Get_run time_Now_def)

lemma GetProplet_none:
  "e_fault e (w_step w) = None \<Longrightarrow> world_inv e w \<Longrightarrow> proplet w i = None \<Longrightarrow> i \<noteq> [] \<Longrightarrow>
   GetProplet e i w = (Err (Sentinel ErrNotFound), tick w)"
  by (simp add: GetProplet_def propletRepo_Get_none)

lemma reach_unchanged: "f w = (r, w') \<Longrightarrow> reach e {} w (snd (f w)) \<Longrightarrow> reach e {} w w'"
  by simp

section \<open>Properties\<close>

lemma reliable_env0 [simp]: "reliable env0"
  by (simp add: reliable_def env0_def)

definition two_tasks :: world where
  "two_tasks = snd (taskRepo_Create env0 (Task_zero\<lparr>t_ID := ''b'', t_JobID := ''j''\<rparr>)
     (snd (taskRepo_Create env0 (Task_zero\<lparr>t_ID := ''a'', t_JobID := ''j''\<rparr>) NewService)))"

lemma two_tasks_simps [simp]:
  "world_inv env0 two_tasks" "length (r_storage (w_tasks two_tasks)) = 2" "length (w_jobs two_tasks) = 0"
proof -
  have "reach env0 {Tasks} NewService two_tasks"
    unfolding two_tasks_def by (intro reach_write reach_refl) simp_all
  then show "world_inv env0 two_tasks" by (rule reach_inv) simp
qed code_simp+

definition one_proplet :: world where
  "one_proplet = snd (propletRepo_Create env0 (Proplet_zero\<lparr>p_ID := ''p'', p_AliveHistory := [0]\<rparr>) NewService)"

lemma one_proplet_simps [simp]: "world_inv env0 one_proplet" "length (w_proplets one_proplet) = 1"
proof -
  have "reach env0 {Proplets} NewService one_proplet"
    unfolding one_proplet_def by (intro reach_write reach_refl) simp_all
  then show "world_inv env0 one_proplet" by (rule reach_inv) simp
qed code_simp

text \<open>
  C26. \<open>listAllTasks\<close> terminates and returns every stored task exactly once, in order of the
  identifiers, however many pages the repository needs; it changes nothing.
\<close>

theorem listAllTasks_complete:
  assumes "reliable e" "world_inv e w" "length (r_storage (w_tasks w)) + 100 < 2 ^ 64"
  shows "\<exists>ts w'. listAllTasks e w = (Ok ts, w') \<and> (\<forall>t. t \<in> set ts \<longleftrightarrow> task w (t_ID t) = Some t) \<and>
    sorted (map t_ID ts) \<and> distinct (map t_ID ts) \<and> reach e {} w w'"
proof -
  obtain w' where run: "listAllTasks e w = (Ok (all_tasks (w_tasks w)), w')"
    using listAllTasks_run [OF assms] by blast
  have "reach e {} w w'" using reach_queries(14) [OF reach_refl, of e "{}" w] run by simp
  then show ?thesis
    using run all_tasks_sorted [OF world_invD(1) [OF assms(2)]] all_tasks_mem [OF world_invD(1) [OF assms(2)]]
    by (auto simp: task_def)
qed

lemma listAllTasks_complete_witness:
  "\<exists>ts w'. listAllTasks env0 two_tasks = (Ok ts, w') \<and> (\<forall>t. t \<in> set ts \<longleftrightarrow> task two_tasks (t_ID t) = Some t) \<and>
    sorted (map t_ID ts) \<and> distinct (map t_ID ts) \<and> reach env0 {} two_tasks w'"
  by (rule listAllTasks_complete) simp_all

text \<open>
  C28. \<open>listAllActiveProplets\<close> terminates and returns each proplet whose last heartbeat is at
  most \<open>AliveTimeout\<close> old when the call starts exactly once, and no other proplet.
\<close>

theorem listAllActiveProplets_complete:
  assumes "reliable e" "world_inv e w" "length (w_proplets w) + 100 < 2 ^ 64"
  shows "\<exists>ps w'. listAllActiveProplets e w = (Ok ps, w') \<and> distinct (map p_ID ps) \<and> reach e {} w w' \<and>
    (\<forall>i. i \<in> p_ID ` set ps \<longleftrightarrow> (\<exists>p. proplet w i = Some p \<and> p_AliveHistory p \<noteq> [] \<and>
       e_now e (w_step w) - last (p_AliveHistory p) \<le> AliveTimeout))"
proof -
  let ?since = "e_now e (w_step w) - AliveTimeout"
  have inv: "proplets_inv (w_proplets w)" by (rule world_invD(2) [OF assms(2)])
  obtain ps w' where run: "listAllActiveProplets e w = (Ok ps, w')"
      and eq: "map unflagged ps = map unflagged (actives ?since w)"
    using listAllActiveProplets_run [OF assms] by blast
  have ids: "map p_ID ps = map p_ID (actives ?since w)"
    using arg_cong [OF eq, of "map p_ID"] by (simp add: comp_def unflagged_def)
  have "distinct (map p_ID ps)"
    unfolding ids actives_def using typed_values_distinct [OF inv] by (simp add: distinct_map_filter)
  moreover have "i \<in> p_ID ` set ps \<longleftrightarrow> (\<exists>p. proplet w i = Some p \<and> p_AliveHistory p \<noteq> [] \<and>
       e_now e (w_step w) - last (p_AliveHistory p) \<le> AliveTimeout)" for i
  proof -
    have "i \<in> p_ID ` set ps \<longleftrightarrow> i \<in> p_ID ` set (actives ?since w)"
      using arg_cong [OF ids, of set] by simp
    also have "\<dots> \<longleftrightarrow> (\<exists>p. proplet w i = Some p \<and> alive_since ?since p)"
      using typed_values_mem [OF inv] typed_view_key [OF inv] by (auto simp: actives_def proplet_def)
    finally show ?thesis by (auto simp: alive_since_def not_less le_diff_eq diff_le_eq add.commute)
  qed
  moreover have "reach e {} w w'" using reach_queries(1) [OF reach_refl, of e "{}" w] run by simp
  ultimately show ?thesis using run by blast
qed

lemma listAllActiveProplets_complete_witness:
  "\<exists>ps w'. listAllActiveProplets env0 one_proplet = (Ok ps, w') \<and> distinct (map p_ID ps) \<and> reach env0 {} one_proplet w' \<and>
    (\<forall>i. i \<in> p_ID ` set ps \<longleftrightarrow> (\<exists>p. proplet one_proplet i = Some p \<and> p_AliveHistory p \<noteq> [] \<and>
       e_now env0 (w_step one_proplet) - last (p_AliveHistory p) \<le> AliveTimeout))"
  by (rule listAllActiveProplets_complete) simp_all

end
