(* ===== verification/JobList.thy ===== *)
theory JobList
  imports Queries
begin

text \<open>
  Job summaries of \<^verbatim>\<open>manager/service.go\<close> and \<^verbatim>\<open>manager/metrics.go\<close>: the state of a job is
  derived from its tasks, and the list of jobs is assembled from the stored jobs and the tasks
  before it is filtered, sorted and cut into a page.
\<close>

section \<open>The state of a job\<close>

record job_flags =
  hasFailed :: bool
  hasRunning :: bool
  hasScheduled :: bool
  allCompleted :: bool
  allSkipped :: bool

fun note_state :: "State \<Rightarrow> job_flags \<Rightarrow> job_flags" where
  "note_state Failed f = f\<lparr>hasFailed := True, allCompleted := False, allSkipped := False\<rparr>"
| "note_state Interrupted f = f\<lparr>hasFailed := True, allCompleted := False, allSkipped := False\<rparr>"
| "note_state Running f = f\<lparr>hasRunning := True, allCompleted := False, allSkipped := False\<rparr>"
| "note_state Scheduled f = f\<lparr>hasScheduled := True, allCompleted := False, allSkipped := False\<rparr>"
| "note_state Completed f = f\<lparr>allSkipped := False\<rparr>"
| "note_state Skipped f = f"
| "note_state Pending f = f\<lparr>allCompleted := False, allSkipped := False\<rparr>"
| "note_state (OtherState _) f = f"

definition ComputeJobState :: "Task list \<Rightarrow> State" where
  "ComputeJobState tasks =
     (if tasks = [] then Pending
      else let f = fold (\<lambda>t. note_state (t_State t)) tasks
                 \<lparr>hasFailed = False, hasRunning = False, hasScheduled = False, allCompleted = True, allSkipped = True\<rparr>
           in if hasFailed f then Failed
              else if hasRunning f \<or> hasScheduled f then Running
              else if allCompleted f \<or> allSkipped f then Completed
              else Pending)"

section \<open>Summaries\<close>

record JobSummary =
  js_JobID :: string
  js_Name :: string
  js_State :: State
  js_Tasks :: "Task list"
  js_StartTime :: gotime
  js_FinishTime :: gotime
  js_CreatedAt :: gotime

record JobPage =
  jp_Offset :: u64
  jp_Limit :: u64
  jp_Total :: u64
  jp_Jobs :: "JobSummary list"

text \<open>The pairs are the flag (\<open>hasCreatedAt\<close>, \<open>hasStartTime\<close>, \<open>hasFinishTime\<close>) and the time.\<close>

definition earliest :: "gotime \<Rightarrow> bool \<times> gotime \<Rightarrow> bool \<times> gotime" where
  "earliest x acc = (case acc of (has, cur) \<Rightarrow> if \<not> IsZero x \<and> (\<not> has \<or> x < cur) then (True, x) else (has, cur))"

definition latest :: "gotime \<Rightarrow> bool \<times> gotime \<Rightarrow> bool \<times> gotime" where
  "latest x acc = (case acc of (has, cur) \<Rightarrow> if \<not> IsZero x \<and> (\<not> has \<or> cur < x) then (True, x) else (has, cur))"

definition computeJobSummary :: "string \<Rightarrow> Task list \<Rightarrow> JobSummary" where
  "computeJobSummary jobID tasks =
     (if tasks = []
      then \<lparr>js_JobID = jobID, js_Name = [], js_State = Pending, js_Tasks = [], js_StartTime = 0,
            js_FinishTime = 0, js_CreatedAt = 0\<rparr>
      else \<lparr>js_JobID = jobID, js_Name = [], js_State = ComputeJobState tasks, js_Tasks = tasks,
            js_StartTime = snd (fold (\<lambda>t. earliest (t_StartTime t)) tasks (False, 0)),
            js_FinishTime = snd (fold (\<lambda>t. latest (t_FinishTime t)) tasks (False, 0)),
            js_CreatedAt = snd (fold (\<lambda>t. earliest (t_CreatedAt t)) tasks (False, 0))\<rparr>)"

section \<open>The list of jobs\<close>

definition strings_Compare :: "string \<Rightarrow> string \<Rightarrow> int" where
  "strings_Compare a b = (if a = b then 0 else if a < b then - 1 else 1)"

definition job_cmp :: "JobSummary \<Rightarrow> JobSummary \<Rightarrow> int" where
  "job_cmp a b =
     (if js_CreatedAt b < js_CreatedAt a then - 1
      else if js_CreatedAt a < js_CreatedAt b then 1
      else strings_Compare (js_JobID a) (js_JobID b))"

text \<open>\<open>jobMap[id] = append(jobMap[id], t)\<close> for the tasks of a job.\<close>

definition job_map :: "Task list \<Rightarrow> (string \<times> Task list) list" where
  "job_map tasks =
     fold (\<lambda>t m. if t_JobID t \<noteq> []
                 then AList.update (t_JobID t) (nil_list (map_of m (t_JobID t)) @ [t]) m else m) tasks []"

text \<open>
  The summaries in the order they are appended: the stored jobs, then the job identifiers that
  only occur in tasks, in the order \<open>order\<close> in which the language ranges over the map.
\<close>

definition job_summaries :: "(string list \<Rightarrow> string list) \<Rightarrow> Task list \<Rightarrow> Job list \<Rightarrow> JobSummary list" where
  "job_summaries order allTasks storedJobs =
     (let jobMap = job_map allTasks;
          jobs = map (\<lambda>sj. (computeJobSummary (j_ID sj) (nil_list (map_of jobMap (j_ID sj))))\<lparr>js_Name := j_Name sj\<rparr>) storedJobs;
          seen = map j_ID storedJobs
      in jobs @ map (\<lambda>jobID. computeJobSummary jobID (nil_list (map_of jobMap jobID)))
                  (filter (\<lambda>jobID. jobID \<notin> set seen) (order (map fst jobMap))))"

definition ListJobs :: "env \<Rightarrow> u64 \<Rightarrow> u64 \<Rightarrow> string \<Rightarrow> world \<Rightarrow> JobPage result \<times> world" where
  "ListJobs e offset limit status w =
     (case (if status \<noteq> [] then ToJobStatus status else Ok PendingStatus) of
        Err err \<Rightarrow> (Err (Wrap2 (Sentinel ErrInvalidValue) '': '' err), w)
      | Ok jobStatus \<Rightarrow>
          (case listAllTasks e w of
             (Err err, w) \<Rightarrow> (Err err, w)
           | (Ok allTasks, w) \<Rightarrow>
               (case listAllStoredJobs e w of
                  (Err err, w) \<Rightarrow> (Err err, w)
                | (Ok storedJobs, w) \<Rightarrow>
                    (let jobs = slices_SortFunc job_cmp (job_summaries (e_mapOrder e (w_step w)) allTasks storedJobs);
                         jobs = (if status \<noteq> [] then filter (\<lambda>j. js_State j = JobStatus_State jobStatus) jobs else jobs);
                         tot = u64_len jobs
                     in if tot \<le> offset
                        then (Ok \<lparr>jp_Offset = offset, jp_Limit = limit, jp_Total = tot, jp_Jobs = []\<rparr>, w)
                        else case slice_u64 jobs offset (min (offset + limit) tot) of
                               Err err \<Rightarrow> (Err err, w)
                             | Ok paginatedJobs \<Rightarrow>
                                 (Ok \<lparr>jp_Offset = offset, jp_Limit = limit, jp_Total = tot, jp_Jobs = paginatedJobs\<rparr>, w)))))"

section \<open>Lemmas\<close>

lemma reach_ListJobs [reach_intros]: "reach e C w0 w \<Longrightarrow> reach e C w0 (snd (ListJobs e off lim st w))"
  unfolding ListJobs_def by (assumption | rule reach_steps reach_intros)+

lemma fold_note_state:
  "fold (\<lambda>t. note_state (t_State t)) ts f =
     \<lparr>hasFailed = (hasFailed f \<or> list_ex (\<lambda>t. t_State t = Failed \<or> t_State t = Interrupted) ts),
      hasRunning = (hasRunning f \<or> list_ex (\<lambda>t. t_State t = Running) ts),
      hasScheduled = (hasScheduled f \<or> list_ex (\<lambda>t. t_State t = Scheduled) ts),
      allCompleted = (allCompleted f \<and> \<not> list_ex (\<lambda>t. t_State t \<in> {Failed, Interrupted, Running, Scheduled, Pending}) ts),
      allSkipped = (allSkipped f \<and>
        \<not> list_ex (\<lambda>t. t_State t \<in> {Failed, Interrupted, Running, Scheduled, Pending, Completed}) ts)\<rparr>"
proof (induction ts arbitrary: f)
  case (Cons t ts)
  show ?case unfolding fold_simps comp_apply Cons.IH by (cases "t_State t") auto
qed simp

lemma Min_absorb:
  fixes c :: "'a::linorder"
  assumes "finite A"
  shows "x \<le> c \<Longrightarrow> min c (Min (insert x A)) = Min (insert x A)" "c \<le> x \<Longrightarrow> min c (Min (insert x A)) = Min (insert c A)"
    "c \<le> x \<Longrightarrow> max c (Max (insert x A)) = Max (insert x A)" "x \<le> c \<Longrightarrow> max c (Max (insert x A)) = Max (insert c A)"
  using assms by (cases "A = {}"; auto simp: min_def max_def)+

lemma fold_earliest:
  "fold (\<lambda>t. earliest (g t)) ts (has, cur) =
     (let xs = (if has then [cur] else []) @ filter (\<lambda>x. x \<noteq> 0) (map g ts)
      in if xs = [] then (has, cur) else (True, Min (set xs)))"
proof (induction ts arbitrary: has cur)
  case (Cons t ts)
  show ?case unfolding fold_simps Cons.IH by (auto simp: earliest_def IsZero_def Let_def Cons.IH insert_commute Min_absorb)
qed simp

lemma fold_latest:
  "fold (\<lambda>t. latest (g t)) ts (has, cur) =
     (let xs = (if has then [cur] else []) @ filter (\<lambda>x. x \<noteq> 0) (map g ts)
      in if xs = [] then (has, cur) else (True, Max (set xs)))"
proof (induction ts arbitrary: has cur)
  case (Cons t ts)
  show ?case unfolding fold_simps Cons.IH by (auto simp: latest_def IsZero_def Let_def Cons.IH insert_commute Min_absorb)
qed simp

lemma job_map_fold:
  fixes m :: "(string \<times> Task list) list"
  defines "add \<equiv> (\<lambda>t m. if t_JobID t \<noteq> []
     then AList.update (t_JobID t) (nil_list (map_of m (t_JobID t)) @ [t]) m else m)"
  shows "map_of (fold add ts m) j =
     (if j \<noteq> [] \<and> filter (\<lambda>t. t_JobID t = j) ts \<noteq> []
      then Some (nil_list (map_of m j) @ filter (\<lambda>t. t_JobID t = j) ts) else map_of m j)"
    and "distinct (map fst m) \<Longrightarrow> distinct (map fst (fold add ts m))"
proof (induction ts arbitrary: m)
  case (Cons t ts)
  {
    case 1
    show ?case using Cons(1) [of "add t m"] by (auto simp: add_def update_conv')
  next
    case 2
    show ?case using Cons(2) [of "add t m"] 2 by (auto simp: add_def distinct_update)
  }
qed simp_all

lemma job_map_lookup:
  "map_of (job_map ts) j =
     (if j \<noteq> [] \<and> filter (\<lambda>t. t_JobID t = j) ts \<noteq> [] then Some (filter (\<lambda>t. t_JobID t = j) ts) else None)"
  using job_map_fold(1) [of ts "[]" j] by (simp add: job_map_def)

lemma job_map_distinct: "distinct (map fst (job_map ts))"
  using job_map_fold(2) [of "[]" ts] by (simp add: job_map_def)

lemma job_map_key: "j \<in> fst ` set (job_map ts) \<longleftrightarrow> j \<noteq> [] \<and> (\<exists>t\<in>set ts. t_JobID t = j)"
proof -
  have "j \<in> fst ` set (job_map ts) \<longleftrightarrow> map_of (job_map ts) j \<noteq> None"
    unfolding map_of_eq_None_iff by simp
  also have "\<dots> \<longleftrightarrow> j \<noteq> [] \<and> filter (\<lambda>t. t_JobID t = j) ts \<noteq> []"
    unfolding job_map_lookup by simp
  finally show ?thesis by (simp only: filter_empty_conv) blast
qed

lemma job_map_keys: "set (map fst (job_map ts)) = {t_JobID t |t. t \<in> set ts \<and> t_JobID t \<noteq> []}"
  unfolding set_map by (rule set_eqI, unfold job_map_key) auto

lemma length_job_map: "length (job_map ts) \<le> length ts"
proof -
  have "length (job_map ts) = card (set (map fst (job_map ts)))"
    using distinct_card [OF job_map_distinct, of ts] by simp
  also have "\<dots> \<le> card (t_JobID ` set ts)" unfolding job_map_keys by (intro card_mono) auto
  also have "\<dots> \<le> length ts" by (rule order_trans [OF card_image_le [OF finite_set] card_length])
  finally show ?thesis .
qed

interpretation job_order: cmp_by_key job_cmp "\<lambda>j. (- js_CreatedAt j, js_JobID j)"
  by unfold_locales (auto simp: job_cmp_def strings_Compare_def)

text \<open>What the list of jobs shows of a state: the jobs it knows and their summaries.\<close>

definition job_known :: "world \<Rightarrow> string \<Rightarrow> bool" where
  "job_known w jid \<longleftrightarrow> job w jid \<noteq> None \<or> (jid \<noteq> [] \<and> (\<exists>i t. task w i = Some t \<and> t_JobID t = jid))"

definition job_summary :: "world \<Rightarrow> string \<Rightarrow> JobSummary" where
  "job_summary w jid =
     (computeJobSummary jid (filter (\<lambda>t. t_JobID t = jid) (all_tasks (w_tasks w))))
       \<lparr>js_Name := (case job w jid of None \<Rightarrow> [] | Some j \<Rightarrow> j_Name j)\<rparr>"

text \<open>Ranging over a map visits each key once.\<close>

definition map_order :: "env \<Rightarrow> bool" where
  "map_order e \<longleftrightarrow> (\<forall>n ks. mset (e_mapOrder e n ks) = mset ks)"

lemma map_orderD: "map_order e \<Longrightarrow> set (e_mapOrder e n ks) = set ks" "map_order e \<Longrightarrow> distinct (e_mapOrder e n ks) = distinct ks"
  "map_order e \<Longrightarrow> length (e_mapOrder e n ks) = length ks"
  unfolding map_order_def by (metis set_mset_mset, metis mset_eq_imp_distinct_iff, metis size_mset)

lemma map_order_env0 [simp]: "map_order env0"
  by (simp add: map_order_def env0_def)

lemma js_JobID_computeJobSummary [simp]: "js_JobID (computeJobSummary jid ts) = jid"
  by (simp add: computeJobSummary_def)

lemma job_view_iff: "world_inv e w \<Longrightarrow> j \<in> set (typed_values as_Job (w_jobs w)) \<longleftrightarrow> job w (j_ID j) = Some j"
  using typed_values_mem [OF world_invD(4)] by (metis job_def)

lemma job_key: "world_inv e w \<Longrightarrow> job w i = Some j \<Longrightarrow> j_ID j = i \<and> i \<noteq> []"
  using typed_view_key [OF world_invD(4)] by (metis job_def)

lemma task_iff_all_tasks:
  assumes "world_inv e w"
  shows "(\<exists>i t. task w i = Some t \<and> P t) \<longleftrightarrow> (\<exists>t\<in>set (all_tasks (w_tasks w)). P t)"
proof
  assume "\<exists>i t. task w i = Some t \<and> P t"
  then obtain i t where t: "task w i = Some t" "P t" by blast
  then have "t_ID t = i" using task_view_key [OF world_invD(1) [OF assms]] by (simp add: task_def)
  then show "\<exists>t\<in>set (all_tasks (w_tasks w)). P t"
    using t all_tasks_mem [OF world_invD(1) [OF assms]] by (auto simp: task_def)
next
  assume "\<exists>t\<in>set (all_tasks (w_tasks w)). P t"
  then obtain t where "t \<in> set (all_tasks (w_tasks w))" "P t" by blast
  then have "task w (t_ID t) = Some t \<and> P t"
    using all_tasks_mem [OF world_invD(1) [OF assms]] by (simp add: task_def)
  then show "\<exists>i t. task w i = Some t \<and> P t" by blast
qed

lemma job_iff_stored:
  assumes "world_inv e w"
  shows "job w jid \<noteq> None \<longleftrightarrow> jid \<in> j_ID ` set (typed_values as_Job (w_jobs w))"
proof
  assume "job w jid \<noteq> None"
  then obtain j where "job w jid = Some j" by blast
  then show "jid \<in> j_ID ` set (typed_values as_Job (w_jobs w))"
    using job_view_iff [OF assms, of j] job_key [OF assms, of jid j] by (auto simp: image_iff)
qed (use job_view_iff [OF assms] in auto)

lemma job_known_iff:
  assumes "world_inv e w"
  shows "job_known w jid \<longleftrightarrow> jid \<in> j_ID ` set (typed_values as_Job (w_jobs w)) \<or>
    jid \<in> fst ` set (job_map (all_tasks (w_tasks w)))"
  unfolding job_known_def job_map_key job_iff_stored [OF assms] task_iff_all_tasks [OF assms] by (rule refl)

lemma job_summaries_correct:
  assumes inv: "world_inv e w" and order: "map_order e"
    and js: "js = job_summaries (e_mapOrder e n) (all_tasks (w_tasks w)) (typed_values as_Job (w_jobs w))"
  shows "set js = job_summary w ` {jid. job_known w jid}" "distinct (map js_JobID js)"
    "length js \<le> length (r_storage (w_tasks w)) + length (w_jobs w)"
proof -
  let ?ts = "all_tasks (w_tasks w)" and ?stored = "typed_values as_Job (w_jobs w)"
  let ?rest = "filter (\<lambda>jid. jid \<notin> j_ID ` set ?stored) (e_mapOrder e n (map fst (job_map ?ts)))"
  have js': "js = map (\<lambda>sj. (computeJobSummary (j_ID sj) (nil_list (map_of (job_map ?ts) (j_ID sj))))\<lparr>js_Name := j_Name sj\<rparr>) ?stored
      @ map (\<lambda>jid. computeJobSummary jid (nil_list (map_of (job_map ?ts) jid))) ?rest"
    by (simp add: js job_summaries_def Let_def)
  have look: "nil_list (map_of (job_map ?ts) jid) = filter (\<lambda>t. t_JobID t = jid) ?ts" if "jid \<noteq> []" for jid
    using that by (simp add: job_map_lookup)
  have stored: "job_summary w (j_ID sj) = (computeJobSummary (j_ID sj) (nil_list (map_of (job_map ?ts) (j_ID sj))))\<lparr>js_Name := j_Name sj\<rparr>"
    if "sj \<in> set ?stored" for sj
  proof -
    have "job w (j_ID sj) = Some sj" using that job_view_iff [OF inv, of sj] by simp
    then show ?thesis using look [of "j_ID sj"] job_key [OF inv, of "j_ID sj" sj] by (simp add: job_summary_def)
  qed
  have rest: "job_summary w jid = computeJobSummary jid (nil_list (map_of (job_map ?ts) jid))" if "jid \<in> set ?rest" for jid
  proof -
    have "jid \<noteq> []" using that by (simp add: map_orderD [OF order] job_map_key)
    moreover have "job w jid = None" using that job_iff_stored [OF inv, of jid] by auto
    ultimately show ?thesis using look by (simp add: job_summary_def computeJobSummary_def)
  qed
  have "set js = job_summary w ` (j_ID ` set ?stored \<union> set ?rest)"
    unfolding js' set_append set_map image_Un image_image
    using stored rest by (intro arg_cong2 [of _ _ _ _ "(\<union>)"] image_cong) simp_all
  also have "j_ID ` set ?stored \<union> set ?rest = {jid. job_known w jid}"
    using job_known_iff [OF inv] by (auto simp: map_orderD [OF order])
  finally show "set js = job_summary w ` {jid. job_known w jid}" .
  have "map js_JobID js = map j_ID ?stored @ ?rest" unfolding js' by (simp add: comp_def)
  moreover have "distinct (map j_ID ?stored)" by (rule typed_values_distinct [OF world_invD(4) [OF inv]])
  ultimately show "distinct (map js_JobID js)"
    using job_map_distinct [of ?ts] by (auto simp: map_orderD [OF order] distinct_filter)
  have "length ?rest \<le> length ?ts"
    using length_filter_le length_job_map [of ?ts] map_orderD(3) [OF order] by (metis (no_types, lifting) le_trans length_map)
  then show "length js \<le> length (r_storage (w_tasks w)) + length (w_jobs w)"
    using length_all_tasks [OF world_invD(1) [OF inv]] typed_values_length [OF world_invD(4) [OF inv]]
    unfolding js' by simp
qed

lemma ListJobs_run:
  assumes run: "reliable e" "world_inv e w" "map_order e"
    and len: "length (r_storage (w_tasks w)) + length (w_jobs w) + 1000 < 2 ^ 64" "unat off + unat lim < 2 ^ 64"
    and st: "status = [] \<or> ToJobStatus status = Ok st"
  obtains js w' where
    "ListJobs e off lim status w =
       (Ok \<lparr>jp_Offset = off, jp_Limit = lim, jp_Total = u64_len js, jp_Jobs = take (unat lim) (drop (unat off) js)\<rparr>, w')"
    "set js = job_summary w ` {jid. job_known w jid \<and> (status = [] \<or> js_State (job_summary w jid) = JobStatus_State st)}"
    "distinct (map js_JobID js)" "sorted (map (\<lambda>j. (- js_CreatedAt j, js_JobID j)) js)"
proof -
  let ?keep = "\<lambda>j. status = [] \<or> js_State j = JobStatus_State st"
  obtain w1 where w1: "listAllTasks e w = (Ok (all_tasks (w_tasks w)), w1)"
    using listAllTasks_run [OF run(1,2)] len(1) by auto
  have "reach e {} w w1" using reach_queries(14) [OF reach_refl, of e "{}" w] w1 by simp
  then have inv1: "world_inv e w1" and same: "w_jobs w1 = w_jobs w" using run(2) reach_inv reach_frame(4) by auto
  obtain w2 where w2: "listAllStoredJobs e w1 = (Ok (typed_values as_Job (w_jobs w)), w2)"
    using listAllStoredJobs_run [OF run(1) inv1] len(1) same by auto
  define all where "all = job_summaries (e_mapOrder e (w_step w2)) (all_tasks (w_tasks w)) (typed_values as_Job (w_jobs w))"
  note sums = job_summaries_correct [OF run(2,3) all_def]
  define js where "js = filter ?keep (slices_SortFunc job_cmp all)"
  have "length js \<le> length all" unfolding js_def using length_filter_le [of ?keep "slices_SortFunc job_cmp all"] by simp
  then have small: "length js < 2 ^ 64" using sums(3) len(1) by linarith
  have jobs: "(if status \<noteq> [] then filter (\<lambda>j. js_State j = JobStatus_State jobStatus) (slices_SortFunc job_cmp all)
      else slices_SortFunc job_cmp all) = js" if "status = [] \<or> jobStatus = st" for jobStatus
    using that by (auto simp: js_def)
  have page: "slice_u64 js off (min (off + lim) (u64_len js)) = Ok (take (unat lim) (drop (unat off) js))"
    if "\<not> u64_len js \<le> off" using slice_page [OF small len(2)] that by (simp add: not_le)
  have beyond: "drop (unat off) js = []" if "u64_len js \<le> off" using that small by (simp add: word_le_nat_alt)
  have "ListJobs e off lim status w =
      (Ok \<lparr>jp_Offset = off, jp_Limit = lim, jp_Total = u64_len js, jp_Jobs = take (unat lim) (drop (unat off) js)\<rparr>, w2)"
    using st w1 w2 page beyond jobs [of st] jobs [of PendingStatus]
    by (cases "status = []") (simp_all add: ListJobs_def all_def [symmetric] Let_def)
  moreover have "set js = job_summary w ` {jid. job_known w jid \<and> ?keep (job_summary w jid)}"
    unfolding js_def set_filter set_slices_SortFunc sums(1) by auto
  moreover have "distinct (map js_JobID js)"
  proof -
    have eq: "mset (map js_JobID (slices_SortFunc job_cmp all)) = mset (map js_JobID all)"
      unfolding mset_map by simp
    have "distinct (map js_JobID (slices_SortFunc job_cmp all))"
      using sums(2) mset_eq_imp_distinct_iff [OF eq] by blast
    then show ?thesis unfolding js_def by (rule distinct_map_filter)
  qed
  moreover have "sorted (map (\<lambda>j. (- js_CreatedAt j, js_JobID j)) js)"
    unfolding js_def using job_order.sort_sorted [of all] by (rule sorted_filter)
  ultimately show thesis using that by blast
qed

section \<open>Properties\<close>

text \<open>
  C22. The state of a job: failed as soon as a task has failed or was interrupted, else running
  while one runs or is scheduled, else pending while one is pending, else completed. (A state
  outside the named ones counts as completed.)
\<close>

theorem ComputeJobState_spec:
  "ComputeJobState tasks =
     (if tasks = [] then Pending
      else if list_ex (\<lambda>t. t_State t = Failed \<or> t_State t = Interrupted) tasks then Failed
      else if list_ex (\<lambda>t. t_State t = Running \<or> t_State t = Scheduled) tasks then Running
      else if list_ex (\<lambda>t. t_State t = Pending) tasks then Pending
      else Completed)"
  unfolding ComputeJobState_def fold_note_state Let_def by (auto simp: list_ex_iff)

text \<open>
  The times of a summary: the earliest creation and start and the latest finish among the
  tasks that have one.
\<close>

lemma computeJobSummary_times:
  "js_CreatedAt (computeJobSummary jid ts) = (let xs = filter (\<lambda>x. x \<noteq> 0) (map t_CreatedAt ts) in if xs = [] then 0 else Min (set xs))
 \<and> js_StartTime (computeJobSummary jid ts) = (let xs = filter (\<lambda>x. x \<noteq> 0) (map t_StartTime ts) in if xs = [] then 0 else Min (set xs))
 \<and> js_FinishTime (computeJobSummary jid ts) = (let xs = filter (\<lambda>x. x \<noteq> 0) (map t_FinishTime ts) in if xs = [] then 0 else Max (set xs))"
  unfolding computeJobSummary_def fold_earliest fold_latest by (auto simp: Let_def)

text \<open>
  C21. \<open>ListJobs\<close> knows every stored job and every job identifier that occurs in a task, each
  exactly once, with the summary of its tasks; it filters by status, orders by decreasing
  creation time and then by identifier, whatever order the language ranges over its map in,
  and returns the requested page with the number of all matching jobs.
\<close>

theorem ListJobs_correct:
  assumes "reliable e" "world_inv e w" "map_order e"
    and "length (r_storage (w_tasks w)) + length (w_jobs w) + 1000 < 2 ^ 64" "unat off + unat lim < 2 ^ 64"
    and "status = [] \<or> ToJobStatus status = Ok st"
  shows "\<exists>js w'. ListJobs e off lim status w =
       (Ok \<lparr>jp_Offset = off, jp_Limit = lim, jp_Total = u64_len js, jp_Jobs = take (unat lim) (drop (unat off) js)\<rparr>, w')
   \<and> set js = job_summary w ` {jid. job_known w jid \<and> (status = [] \<or> js_State (job_summary w jid) = JobStatus_State st)}
   \<and> distinct (map js_JobID js) \<and> sorted (map (\<lambda>j. (- js_CreatedAt j, js_JobID j)) js)"
  by (rule ListJobs_run [OF assms]) blast

lemma ListJobs_correct_witness:
  "\<exists>js w'. ListJobs env0 0 10 ''pending'' two_tasks =
       (Ok \<lparr>jp_Offset = 0, jp_Limit = 10, jp_Total = u64_len js, jp_Jobs = take (unat (10 :: u64)) (drop (unat (0 :: u64)) js)\<rparr>, w')
   \<and> set js = job_summary two_tasks ` {jid. job_known two_tasks jid \<and>
        (''pending'' = [] \<or> js_State (job_summary two_tasks jid) = JobStatus_State PendingStatus)}
   \<and> distinct (map js_JobID js) \<and> sorted (map (\<lambda>j. (- js_CreatedAt j, js_JobID j)) js)"
  by (rule ListJobs_correct) (simp_all add: ToJobStatus_def)

end
