(* ===== verification/TaskOps.thy ===== *)
theory TaskOps
  imports Queries Dag
begin

text \<open>
  Creating, updating and deleting tasks, workflows and jobs (\<^verbatim>\<open>manager/service.go\<close>) and the
  part of the cron scheduler these operations call (\<^verbatim>\<open>manager/cron.go\<close>). The repository of
  jobs and the cron scheduler are always there, as \<open>NewService\<close> sets them up; errors that the
  code only logs are dropped.
\<close>

section \<open>Schedules of single tasks\<close>

definition updateNextRun :: "env \<Rightarrow> Task \<Rightarrow> world \<Rightarrow> unit result \<times> world" where
  "updateNextRun e t w =
     (case ParseCronExpression (e_cron e) (t_Schedule t) of
        Err err \<Rightarrow> (Err (Wrap ''failed to parse cron expression: '' err []), w)
      | Ok schedule \<Rightarrow>
          (let timezone = (if t_Timezone t = [] then UTC else t_Timezone t)
           in case time_Now e w of (now, w) \<Rightarrow>
              case time_Now e w of (now', w) \<Rightarrow>
              case taskRepo_Update e (t\<lparr>t_NextRun := CalculateNextRun (e_zones e) (Some schedule) now timezone,
                                        t_UpdatedAt := now'\<rparr>) w of
                (Err err, w) \<Rightarrow> (Err (Wrap ''failed to update task next run: '' err []), w)
              | (Ok _, w) \<Rightarrow> (Ok (), w)))"

definition ScheduleTask :: "env \<Rightarrow> string \<Rightarrow> world \<Rightarrow> unit result \<times> world" where
  "ScheduleTask e taskID w =
     (case taskRepo_Get e taskID w of
        (Err err, w) \<Rightarrow> (Err (Wrap ''failed to get task: '' err []), w)
      | (Ok t, w) \<Rightarrow> if t_Schedule t = [] then (Ok (), w) else updateNextRun e t w)"

definition UnscheduleTask :: "env \<Rightarrow> string \<Rightarrow> world \<Rightarrow> unit result \<times> world" where
  "UnscheduleTask e taskID w =
     (case taskRepo_Get e taskID w of
        (Err err, w) \<Rightarrow> (Err (Wrap ''failed to get task: '' err []), w)
      | (Ok t, w) \<Rightarrow>
          (case taskRepo_Update e (t\<lparr>t_Schedule := [], t_NextRun := 0\<rparr>) w of
             (Err err, w) \<Rightarrow> (Err (Wrap ''failed to unschedule task: '' err []), w)
           | (Ok _, w) \<Rightarrow> (Ok (), w)))"

definition updateCronTask :: "env \<Rightarrow> Task \<Rightarrow> world \<Rightarrow> unit \<times> world" where
  "updateCronTask e t w =
     (if t_Schedule t \<noteq> []
      then case ScheduleTask e (t_ID t) w of (_, w) \<Rightarrow> ((), w)
      else case UnscheduleTask e (t_ID t) w of (_, w) \<Rightarrow> ((), w))"

section \<open>Single tasks\<close>

definition svc_defaultPriority :: int where
  "svc_defaultPriority = 50"

definition defaultTimezone :: string where
  "defaultTimezone = ''UTC''"

text \<open>The checks of a new task against the workflow it joins.\<close>

definition check_workflow :: "env \<Rightarrow> Task \<Rightarrow> world \<Rightarrow> unit result \<times> world" where
  "check_workflow e t w =
     (if t_DependsOn t \<noteq> [] \<and> t_WorkflowID t \<noteq> []
      then case getWorkflowTasks e (t_WorkflowID t) w of
             (Err err, w) \<Rightarrow> (Err (Wrap ''failed to get workflow tasks: '' err []), w)
           | (Ok workflowTasks, w) \<Rightarrow>
               (let allTasks = workflowTasks @ [t]
                in case ValidateDependenciesExist allTasks of
                     Err err \<Rightarrow> (Err (Wrap ''dependency validation failed: '' err []), w)
                   | Ok _ \<Rightarrow>
                       (case ValidateDAG allTasks of
                          Err err \<Rightarrow> (Err (Wrap ''DAG validation failed: '' err []), w)
                        | Ok _ \<Rightarrow> (Ok (), w)))
      else (Ok (), w))"

text \<open>The first run of a task with a schedule.\<close>

definition first_run :: "env \<Rightarrow> Task \<Rightarrow> world \<Rightarrow> Task result \<times> world" where
  "first_run e t w =
     (if t_Schedule t \<noteq> []
      then case ParseCronExpression (e_cron e) (t_Schedule t) of
             Err err \<Rightarrow> (Err (Wrap ''invalid cron expression: '' err []), w)
           | Ok schedule \<Rightarrow>
               (let timezone = (if t_Timezone t = [] then defaultTimezone else t_Timezone t)
                in case time_Now e w of (now, w) \<Rightarrow>
                   (Ok (t\<lparr>t_NextRun := CalculateNextRun (e_zones e) (Some schedule) now timezone\<rparr>), w))
      else (Ok t, w))"

definition CreateTask :: "env \<Rightarrow> Task \<Rightarrow> world \<Rightarrow> Task result \<times> world" where
  "CreateTask e t w =
     (if t_Broadcast t \<and> t_PropletID t \<noteq> []
      then (Err (NewError ''proplet_id must not be set when broadcast is true''), w)
      else if t_DependsOn t \<noteq> [] \<and> t_WorkflowID t = [] then (Err (Sentinel ErrWorkflowRequired), w)
      else case check_workflow e t w of
        (Err err, w) \<Rightarrow> (Err err, w)
      | (Ok _, w) \<Rightarrow>
          (case uuid_NewString e w of (taskID, w) \<Rightarrow>
           case time_Now e w of (now, w) \<Rightarrow>
           let t = t\<lparr>t_ID := taskID, t_CreatedAt := now,
                     t_Kind := (if t_Kind t = [] then TaskKindStandard else t_Kind t),
                     t_Priority := (if t_Priority t = 0 then svc_defaultPriority else t_Priority t)\<rparr>
           in case first_run e t w of
                (Err err, w) \<Rightarrow> (Err err, w)
              | (Ok t, w) \<Rightarrow>
                  (case taskRepo_Create e t w of
                     (Err err, w) \<Rightarrow> (Err err, w)
                   | (Ok t, w) \<Rightarrow>
                       if t_Schedule t \<noteq> []
                       then case ScheduleTask e (t_ID t) w of (_, w) \<Rightarrow> (Ok t, w)
                       else (Ok t, w))))"

text \<open>The fields an update may change, before the schedule is considered.\<close>

definition merge_update :: "Task \<Rightarrow> Task \<Rightarrow> gotime \<Rightarrow> Task" where
  "merge_update t dbT now =
     dbT\<lparr>t_UpdatedAt := now,
         t_Name := (if t_Name t \<noteq> [] then t_Name t else t_Name dbT),
         t_Inputs := (if t_Inputs t \<noteq> None then t_Inputs t else t_Inputs dbT),
         t_File := (if t_File t \<noteq> None then t_File t else t_File dbT),
         t_Priority := (if t_Priority t \<noteq> 0 then t_Priority t else t_Priority dbT),
         t_Metadata := (if t_Metadata t \<noteq> None then t_Metadata t else t_Metadata dbT)\<rparr>"

text \<open>The new schedule; the flag is \<open>scheduleChanged\<close>.\<close>

definition update_schedule :: "env \<Rightarrow> Task \<Rightarrow> Task \<Rightarrow> world \<Rightarrow> (Task \<times> bool) result \<times> world" where
  "update_schedule e t dbT w =
     (if t_Schedule t \<noteq> [] \<and> t_Schedule t \<noteq> t_Schedule dbT
      then case ParseCronExpression (e_cron e) (t_Schedule t) of
             Err err \<Rightarrow> (Err (Wrap ''invalid cron expression: '' err []), w)
           | Ok schedule \<Rightarrow>
               (let timezone = (if t_Timezone t = [] then defaultTimezone else t_Timezone t)
                in case time_Now e w of (now, w) \<Rightarrow>
                   (Ok (dbT\<lparr>t_Schedule := t_Schedule t, t_IsRecurring := t_IsRecurring t, t_Timezone := timezone,
                            t_NextRun := CalculateNextRun (e_zones e) (Some schedule) now timezone\<rparr>, True), w))
      else if t_Schedule t = [] \<and> t_Schedule dbT \<noteq> []
      then (Ok (dbT\<lparr>t_Schedule := [], t_NextRun := 0, t_IsRecurring := False\<rparr>, True), w)
      else (Ok (dbT, False), w))"

definition UpdateTask :: "env \<Rightarrow> Task \<Rightarrow> world \<Rightarrow> Task result \<times> world" where
  "UpdateTask e t w =
     (case GetTask e (t_ID t) w of
        (Err err, w) \<Rightarrow> (Err err, w)
      | (Ok dbT, w) \<Rightarrow>
          (case time_Now e w of (now, w) \<Rightarrow>
           case update_schedule e t (merge_update t dbT now) w of
             (Err err, w) \<Rightarrow> (Err err, w)
           | (Ok (dbT, scheduleChanged), w) \<Rightarrow>
               (case taskRepo_Update e dbT w of
                  (Err err, w) \<Rightarrow> (Err err, w)
                | (Ok _, w) \<Rightarrow>
                    if scheduleChanged then case updateCronTask e dbT w of (_, w) \<Rightarrow> (Ok dbT, w) else (Ok dbT, w))))"

definition DeleteTask :: "env \<Rightarrow> string \<Rightarrow> world \<Rightarrow> unit result \<times> world" where
  "DeleteTask e taskID w = (case UnscheduleTask e taskID w of (_, w) \<Rightarrow> taskRepo_Delete e taskID w)"

section \<open>Workflows and jobs\<close>

text \<open>The first identifier that a task of the request brings along, else the fresh one.\<close>

fun first_id :: "(Task \<Rightarrow> string) \<Rightarrow> Task list \<Rightarrow> string \<Rightarrow> string" where
  "first_id f [] fresh = fresh"
| "first_id f (t # ts) fresh = (if f t \<noteq> [] then f t else first_id f ts fresh)"

fun assign_workflow :: "env \<Rightarrow> string \<Rightarrow> Task list \<Rightarrow> world \<Rightarrow> Task list \<times> world" where
  "assign_workflow e workflowID [] w = ([], w)"
| "assign_workflow e workflowID (t # ts) w =
     (case (if t_ID t = [] then uuid_NewString e w else (t_ID t, w)) of (tid, w) \<Rightarrow>
      case time_Now e w of (now, w) \<Rightarrow>
      case assign_workflow e workflowID ts w of (ts, w) \<Rightarrow>
        (t\<lparr>t_WorkflowID := workflowID, t_ID := tid, t_CreatedAt := now\<rparr> # ts, w))"

fun assign_job :: "env \<Rightarrow> string \<Rightarrow> gotime \<Rightarrow> Task list \<Rightarrow> world \<Rightarrow> Task list \<times> world" where
  "assign_job e jobID now [] w = ([], w)"
| "assign_job e jobID now (t # ts) w =
     (case (if t_ID t = [] then uuid_NewString e w else (t_ID t, w)) of (tid, w) \<Rightarrow>
      case assign_job e jobID now ts w of (ts, w) \<Rightarrow>
        (t\<lparr>t_JobID := jobID, t_ID := tid, t_CreatedAt := now\<rparr> # ts, w))"

fun check_run_if :: "Task list \<Rightarrow> unit result" where
  "check_run_if [] = Ok ()"
| "check_run_if (t # ts) =
     (if t_RunIf t \<noteq> [] \<and> t_RunIf t \<noteq> RunIfSuccess \<and> t_RunIf t \<noteq> RunIfFailure
      then Err (Wrap [] (Sentinel ErrInvalidRunIf) 
        ('' for task '' @ t_ID t @ '': must be '' @ [CHR 0x27] @ ''success'' @ [CHR 0x27] @ '' or '' @ [CHR 0x27] @ ''failure'' @ [CHR 0x27]))
      else check_run_if ts)"

fun rollback_tasks :: "env \<Rightarrow> Task list \<Rightarrow> world \<Rightarrow> unit \<times> world" where
  "rollback_tasks e [] w = ((), w)"
| "rollback_tasks e (t # ts) w = (case taskRepo_Delete e (t_ID t) w of (_, w) \<Rightarrow> rollback_tasks e ts w)"

fun create_all :: "env \<Rightarrow> Task list \<Rightarrow> Task list \<Rightarrow> world \<Rightarrow> Task list result \<times> world" where
  "create_all e [] createdTasks w = (Ok createdTasks, w)"
| "create_all e (t # ts) createdTasks w =
     (case taskRepo_Create e t w of
        (Err err, w) \<Rightarrow>
          (case rollback_tasks e createdTasks w of (_, w) \<Rightarrow>
             (Err (Wrap (''failed to create task '' @ t_ID t @ '': '') err []), w))
      | (Ok created, w) \<Rightarrow> create_all e ts (createdTasks @ [created]) w)"

definition CreateWorkflow :: "env \<Rightarrow> Task list \<Rightarrow> world \<Rightarrow> Task list result \<times> world" where
  "CreateWorkflow e tasks w =
     (if tasks = [] then (Err (Sentinel ErrEmptyWorkflow), w)
      else case uuid_NewString e w of (fresh, w) \<Rightarrow>
           case assign_workflow e (first_id t_WorkflowID tasks fresh) tasks w of (tasks, w) \<Rightarrow>
             (case ValidateDependenciesExist tasks of
                Err err \<Rightarrow> (Err (Wrap ''dependency validation failed: '' err []), w)
              | Ok _ \<Rightarrow>
                  (case ValidateDAG tasks of
                     Err err \<Rightarrow> (Err (Wrap ''DAG validation failed: '' err []), w)
                   | Ok _ \<Rightarrow>
                       (case check_run_if tasks of
                          Err err \<Rightarrow> (Err err, w)
                        | Ok _ \<Rightarrow> create_all e tasks [] w))))"

definition CreateJob ::
    "env \<Rightarrow> string \<Rightarrow> Task list \<Rightarrow> string \<Rightarrow> world \<Rightarrow> (string \<times> Task list) result \<times> world" where
  "CreateJob e name tasks executionMode w =
     (if tasks = [] then (Err (NewError ''job must contain at least one task''), w)
      else case uuid_NewString e w of (fresh, w) \<Rightarrow>
           let jobID = first_id t_JobID tasks fresh
           in case time_Now e w of (now, w) \<Rightarrow>
              case assign_job e jobID now tasks w of (tasks, w) \<Rightarrow>
                (case ValidateDependenciesExist tasks of
                   Err err \<Rightarrow> (Err (Wrap ''dependency validation failed: '' err []), w)
                 | Ok _ \<Rightarrow>
                     (case ValidateDAG tasks of
                        Err err \<Rightarrow> (Err (Wrap ''DAG validation failed: '' err []), w)
                      | Ok _ \<Rightarrow>
                          (case jobRepo_Create e \<lparr>j_ID = jobID, j_Name = name, j_ExecutionMode = executionMode,
                                                   j_CreatedAt = now, j_UpdatedAt = now\<rparr> w of
                             (Err err, w) \<Rightarrow> (Err (Wrap ''failed to create job: '' err []), w)
                           | (Ok _, w) \<Rightarrow>
                               (case create_all e tasks [] w of
                                  (Err err, w) \<Rightarrow> (case jobRepo_Delete e jobID w of (_, w) \<Rightarrow> (Err err, w))
                                | (Ok createdTasks, w) \<Rightarrow> (Ok (jobID, createdTasks), w))))))"

section \<open>Frames\<close>

lemma reach_schedule [reach_intros]:
  assumes "reach e C w0 w" "Tasks \<in> C"
  shows "reach e C w0 (snd (updateNextRun e t w))" "reach e C w0 (snd (ScheduleTask e i w))"
    "reach e C w0 (snd (UnscheduleTask e i w))" "reach e C w0 (snd (updateCronTask e t w))"
  unfolding updateCronTask_def ScheduleTask_def UnscheduleTask_def updateNextRun_def
  by (assumption | rule reach_steps reach_intros assms)+

lemma reach_checks [reach_intros]:
  assumes "reach e C w0 w"
  shows "reach e C w0 (snd (check_workflow e t w))" "reach e C w0 (snd (first_run e t w))"
    "reach e C w0 (snd (update_schedule e t dbT w))"
  unfolding check_workflow_def first_run_def update_schedule_def
  by (assumption | rule reach_steps reach_intros assms)+

lemma reach_task_ops [reach_intros]:
  assumes "reach e C w0 w" "Tasks \<in> C"
  shows "reach e C w0 (snd (CreateTask e t w))" "reach e C w0 (snd (UpdateTask e t w))"
    "reach e C w0 (snd (DeleteTask e i w))"
  unfolding CreateTask_def UpdateTask_def DeleteTask_def
  by (assumption | rule reach_steps reach_intros assms)+

lemma reach_assign [reach_intros]:
  assumes "reach e C w0 w"
  shows "reach e C w0 (snd (assign_workflow e wid ts w))" "reach e C w0 (snd (assign_job e jid now ts w))"
  using assms
proof (induction ts arbitrary: w)
  case (Cons t ts)
  {
    case 1
    show ?case unfolding assign_workflow.simps by (assumption | rule reach_steps reach_intros Cons 1)+
  next
    case 2
    show ?case unfolding assign_job.simps by (assumption | rule reach_steps reach_intros Cons 2)+
  }
qed simp_all

lemma reach_rollback [reach_intros]: "reach e C w0 w \<Longrightarrow> Tasks \<in> C \<Longrightarrow> reach e C w0 (snd (rollback_tasks e ts w))"
proof (induction ts arbitrary: w)
  case (Cons t ts)
  show ?case unfolding rollback_tasks.simps by (assumption | rule reach_steps reach_intros Cons)+
qed simp

lemma reach_create_all [reach_intros]: "reach e C w0 w \<Longrightarrow> Tasks \<in> C \<Longrightarrow> reach e C w0 (snd (create_all e ts cs w))"
proof (induction ts arbitrary: cs w)
  case (Cons t ts)
  show ?case unfolding create_all.simps by (assumption | rule reach_steps reach_intros Cons)+
qed simp

lemma reach_CreateWorkflow [reach_intros]:
  "reach e C w0 w \<Longrightarrow> Tasks \<in> C \<Longrightarrow> reach e C w0 (snd (CreateWorkflow e ts w))"
  unfolding CreateWorkflow_def by (assumption | rule reach_steps reach_intros)+

lemma reach_CreateJob [reach_intros]:
  "reach e C w0 w \<Longrightarrow> Tasks \<in> C \<Longrightarrow> Jobs \<in> C \<Longrightarrow> reach e C w0 (snd (CreateJob e n ts m w))"
  unfolding CreateJob_def by (assumption | rule reach_steps reach_intros)+

section \<open>Creating many tasks\<close>

definition by_id :: "Task list \<Rightarrow> string \<rightharpoonup> Task" where
  "by_id ts = map_of (map (\<lambda>t. (t_ID t, t)) ts)"

lemma by_id_simps [simp]: "by_id [] = Map.empty" "by_id (t # ts) = (by_id ts)(t_ID t \<mapsto> t)"
  by (simp_all add: by_id_def)

lemma by_id_None: "by_id ts i = None \<longleftrightarrow> i \<notin> t_ID ` set ts"
  by (induction ts) auto

lemma by_id_snoc: "t_ID t \<notin> t_ID ` set ts \<Longrightarrow> by_id (ts @ [t]) = (by_id ts)(t_ID t \<mapsto> t)"
  by (induction ts) (auto simp: fun_upd_twist)

lemma world_inv_Delete: "world_inv e w \<Longrightarrow> world_inv e (snd (taskRepo_Delete e i w))"
  by (erule reach_invU [rotated]) (intro reach_intros reach_refl UNIV_I)

lemma rollback_view:
  "world_inv e w \<Longrightarrow> task (snd (rollback_tasks e cs w)) i = task w i \<or>
     i \<in> t_ID ` set cs \<and> task (snd (rollback_tasks e cs w)) i = None"
proof (induction cs arbitrary: w)
  case (Cons c cs)
  let ?w1 = "snd (taskRepo_Delete e (t_ID c) w)"
  have step: "task ?w1 i = task w i \<or> i = t_ID c \<and> task ?w1 i = None"
    using taskRepo_Delete_view [OF Cons.prems, of "t_ID c"] by (elim disjE) simp_all
  have eq: "rollback_tasks e (c # cs) w = rollback_tasks e cs ?w1" by (simp add: case_prod_beta)
  show ?case
    using step Cons.IH [OF world_inv_Delete [OF Cons.prems, of "t_ID c"]] unfolding eq by auto
qed simp

lemma rollback_all:
  "reliable e \<Longrightarrow> world_inv e w \<Longrightarrow> i \<in> t_ID ` set cs \<Longrightarrow> task (snd (rollback_tasks e cs w)) i = None"
proof (induction cs arbitrary: w)
  case (Cons c cs)
  let ?w1 = "snd (taskRepo_Delete e (t_ID c) w)"
  have inv1: "world_inv e ?w1" by (rule world_inv_Delete [OF Cons.prems(2)])
  have none: "task ?w1 (t_ID c) = None" using taskRepo_Delete_run(1) [OF _ Cons.prems(2), of "t_ID c"] Cons.prems(1) by simp
  have eq: "rollback_tasks e (c # cs) w = rollback_tasks e cs ?w1" by (simp add: case_prod_beta)
  show ?case
  proof (cases "i \<in> t_ID ` set cs")
    case True
    then show ?thesis unfolding eq by (rule Cons.IH [OF Cons.prems(1) inv1])
  next
    case False
    then have "i = t_ID c" using Cons.prems(3) by simp
    then show ?thesis using rollback_view [OF inv1, of cs i] none unfolding eq by auto
  qed
qed simp

lemma create_all_result:
  assumes "create_all e ts cs w = (r, w')" "world_inv e w" "task w = M ++ by_id cs"
    and "distinct (map t_ID cs)" "t_ID ` set cs \<inter> dom M = {}"
  shows "case r of
      Ok created \<Rightarrow> created = cs @ ts \<and> distinct (map t_ID created) \<and> t_ID ` set created \<inter> dom M = {} \<and>
        task w' = M ++ by_id created
    | Err err \<Rightarrow> (\<forall>i. M i \<noteq> None \<longrightarrow> task w' i = M i) \<and> (reliable e \<longrightarrow> task w' = M)"
  using assms
proof (induction ts arbitrary: cs w)
  case Nil
  then have "r = Ok cs" "w' = w" by simp_all
  with Nil show ?case by simp
next
  case (Cons t ts)
  obtain r1 w1 where c: "taskRepo_Create e t w = (r1, w1)" by fastforce
  have inv1: "world_inv e w1"
    by (rule reach_invU [OF _ Cons.prems(2)], rule reach_result [OF c]) (intro reach_intros reach_refl UNIV_I)
  show ?case
  proof (cases r1)
    case (Inr t')
    note ok = taskRepo_Create_Ok [OF c [unfolded Inr] Cons.prems(2)]
    have "by_id cs (t_ID t) = None \<and> M (t_ID t) = None" using ok Cons.prems(3) by (simp add: map_add_None)
    then have fresh: "t_ID t \<notin> t_ID ` set cs" "t_ID t \<notin> dom M" by (simp_all add: by_id_None domIff)
    have "task w1 = M ++ by_id (cs @ [t])" using ok Cons.prems(3) fresh by (simp add: by_id_snoc)
    moreover have "create_all e ts (cs @ [t]) w1 = (r, w')" using Cons.prems(1) c Inr ok by simp
    moreover have "distinct (map t_ID (cs @ [t]))" "t_ID ` set (cs @ [t]) \<inter> dom M = {}"
      using Cons.prems(4,5) fresh by auto
    ultimately have "case r of
      Ok created \<Rightarrow> created = (cs @ [t]) @ ts \<and> distinct (map t_ID created) \<and> t_ID ` set created \<inter> dom M = {} \<and>
        task w' = M ++ by_id created
    | Err err \<Rightarrow> (\<forall>i. M i \<noteq> None \<longrightarrow> task w' i = M i) \<and> (reliable e \<longrightarrow> task w' = M)"
      by (intro Cons.IH [OF _ inv1])
    then show ?thesis by (simp only: append_assoc append_Cons append_Nil)
  next
    case (Inl err)
    have w': "w' = snd (rollback_tasks e cs w1)" and r: "r = Err (Wrap (''failed to create task '' @ t_ID t @ '': '') err [])"
      using Cons.prems(1) c Inl by (auto simp: case_prod_beta)
    have t1: "task w1 = M ++ by_id cs" using taskRepo_Create_Err [OF c [unfolded Inl] Cons.prems(2)] Cons.prems(3) by simp
    have disj: "i \<in> t_ID ` set cs \<Longrightarrow> M i = None" for i using Cons.prems(5) by auto
    have out: "i \<notin> t_ID ` set cs \<Longrightarrow> task w1 i = M i" for i
      using t1 by_id_None [of cs i] by (simp add: map_add_def)
    have "task w' i = M i" if "M i \<noteq> None" for i
    proof -
      have "i \<notin> t_ID ` set cs" using that disj [of i] by auto
      then show ?thesis using rollback_view [OF inv1, of cs i] out unfolding w' by auto
    qed
    moreover have "task w' i = M i" if "reliable e" for i
    proof (cases "i \<in> t_ID ` set cs")
      case True
      then show ?thesis using rollback_all [OF that inv1 True] disj w' by simp
    next
      case False
      then show ?thesis using rollback_view [OF inv1, of cs i] out unfolding w' by auto
    qed
    ultimately show ?thesis by (auto simp: r)
  qed
qed

lemma create_all_new:
  assumes "create_all e ts [] w = (r, w')" "world_inv e w"
  shows "case r of
      Ok created \<Rightarrow> created = ts \<and> distinct (map t_ID ts) \<and> t_ID ` set ts \<inter> dom (task w) = {} \<and>
        task w' = task w ++ by_id ts
    | Err err \<Rightarrow> (\<forall>i. task w i \<noteq> None \<longrightarrow> task w' i = task w i) \<and> (reliable e \<longrightarrow> task w' = task w)"
  using create_all_result [OF assms, of "task w"] by (cases r) simp_all

lemma assign_workflow_shape:
  "length (fst (assign_workflow e wid ts w)) = length ts"
  "list_all (\<lambda>t. t_WorkflowID t = wid) (fst (assign_workflow e wid ts w))"
  by (induction ts arbitrary: w) (auto simp: case_prod_beta)

lemma assign_job_shape:
  "length (fst (assign_job e jid now ts w)) = length ts"
  "list_all (\<lambda>t. t_JobID t = jid \<and> t_CreatedAt t = now) (fst (assign_job e jid now ts w))"
  by (induction ts arbitrary: w) (auto simp: case_prod_beta)

lemma check_run_if_iff:
  "check_run_if ts = Ok () \<longleftrightarrow> list_all (\<lambda>t. t_RunIf t = [] \<or> t_RunIf t = RunIfSuccess \<or> t_RunIf t = RunIfFailure) ts"
  by (induction ts) auto

lemma jobRepo_Create_Ok:
  assumes "jobRepo_Create e j w = (Ok j', w')" "world_inv e w"
  shows "job w (j_ID j) = None" "job w' = (job w)(j_ID j \<mapsto> j)"
  using assms jobs.create_Ok_iff [OF world_invD(4) [OF assms(2)], of j j'] jobs.create_ok [OF world_invD(4) [OF assms(2)], of j]
  by (auto simp: jobRepo_Create_def with_fault_def job_def case_prod_beta split: option.splits)

lemma jobRepo_Create_Err:
  assumes "jobRepo_Create e j w = (Err err, w')" "world_inv e w"
  shows "job w' = job w"
  using assms jobs.create_ok [OF world_invD(4) [OF assms(2)], of j] jobs.create_err [OF world_invD(4) [OF assms(2)], of j]
  by (cases "j_ID j = [] \<or> job_view (w_jobs w) (j_ID j) \<noteq> None")
    (auto simp: jobRepo_Create_def with_fault_def job_def case_prod_beta split: option.splits)

lemma jobRepo_Delete_run:
  assumes "reliable e" "world_inv e w"
  shows "job (snd (jobRepo_Delete e i w)) = (job w)(i := None)"
  using assms jobs.del_view [OF world_invD(4) [OF assms(2)], of i]
  by (simp add: jobRepo_Delete_def with_fault_def job_def case_prod_beta)

section \<open>Effects on single tasks\<close>

text \<open>Equal but for the times that scheduling writes.\<close>

definition same_but_run :: "Task \<Rightarrow> Task \<Rightarrow> bool" where
  "same_but_run s t \<longleftrightarrow> s\<lparr>t_NextRun := 0, t_UpdatedAt := 0\<rparr> = t\<lparr>t_NextRun := 0, t_UpdatedAt := 0\<rparr>"

lemma same_but_run_refl [simp]: "same_but_run t t"
  by (simp add: same_but_run_def)

lemma taskRepo_Update_cases:
  assumes "taskRepo_Update e t w = (r, w')" "world_inv e w"
  shows "task w' = task w \<or> task w (t_ID t) \<noteq> None \<and> task w' = (task w)(t_ID t \<mapsto> t)"
  using taskRepo_Update_Ok [of e t w _ w'] taskRepo_Update_Err [of e t w _ w'] assms by (cases r) auto

lemma updateNextRun_effect:
  assumes "world_inv e w" "updateNextRun e t w = (r, w')"
  shows "task w' = task w \<or> (\<exists>s. same_but_run s t \<and> t_ID s = t_ID t \<and> task w' = (task w)(t_ID t \<mapsto> s))"
proof (cases "ParseCronExpression (e_cron e) (t_Schedule t)")
  case (Inl err)
  then show ?thesis using assms(2) by (auto simp: updateNextRun_def)
next
  case (Inr schedule)
  define s where "s = t\<lparr>t_NextRun := CalculateNextRun (e_zones e) (Some schedule) (e_now e (w_step w))
      (if t_Timezone t = [] then UTC else t_Timezone t), t_UpdatedAt := e_now e (Suc (w_step w))\<rparr>"
  obtain r1 w1 where u: "taskRepo_Update e s (tick (tick w)) = (r1, w1)" by fastforce
  have "w' = w1"
    using assms(2) Inr u by (auto simp: updateNextRun_def time_Now_def s_def Let_def split: sum.splits)
  moreover have "task (tick (tick w)) = task w" by (simp add: task_def)
  moreover have "same_but_run s t" "t_ID s = t_ID t" by (simp_all add: s_def same_but_run_def)
  ultimately show ?thesis using taskRepo_Update_cases [OF u] assms(1) by auto
qed

lemma ScheduleTask_effect:
  assumes "world_inv e w" "ScheduleTask e i w = (r, w')"
  shows "task w' = task w \<or> (\<exists>t s. task w i = Some t \<and> same_but_run s t \<and> task w' = (task w)(i \<mapsto> s))"
proof -
  obtain r1 w1 where g: "taskRepo_Get e i w = (r1, w1)" by fastforce
  have w1: "task w1 = task w" "world_inv e w1"
    using read_state(1) [OF g] assms(1) by simp_all
  show ?thesis
  proof (cases r1)
    case (Inl err)
    then show ?thesis using assms(2) g w1 by (auto simp: ScheduleTask_def)
  next
    case (Inr t)
    have t: "task w i = Some t" "t_ID t = i" using taskRepo_Get_Ok [OF g [unfolded Inr] assms(1)] by auto
    show ?thesis
    proof (cases "t_Schedule t = []")
      case True
      then show ?thesis using assms(2) g Inr w1 by (auto simp: ScheduleTask_def)
    next
      case False
      then have "updateNextRun e t w1 = (r, w')" using assms(2) g Inr by (auto simp: ScheduleTask_def)
      from updateNextRun_effect [OF w1(2) this] show ?thesis using t w1(1) by auto
    qed
  qed
qed

lemma UnscheduleTask_effect:
  assumes "world_inv e w" "UnscheduleTask e i w = (r, w')"
  shows "task w' = task w \<or> (\<exists>t. task w i = Some t \<and> task w' = (task w)(i \<mapsto> t\<lparr>t_Schedule := [], t_NextRun := 0\<rparr>))"
proof -
  obtain r1 w1 where g: "taskRepo_Get e i w = (r1, w1)" by fastforce
  have w1: "task w1 = task w" "world_inv e w1"
    using read_state(1) [OF g] assms(1) by simp_all
  show ?thesis
  proof (cases r1)
    case (Inl err)
    then show ?thesis using assms(2) g w1 by (auto simp: UnscheduleTask_def)
  next
    case (Inr t)
    have t: "task w i = Some t" "t_ID t = i" using taskRepo_Get_Ok [OF g [unfolded Inr] assms(1)] by auto
    obtain r2 w2 where u: "taskRepo_Update e (t\<lparr>t_Schedule := [], t_NextRun := 0\<rparr>) w1 = (r2, w2)" by fastforce
    have "w' = w2" using assms(2) g Inr u by (auto simp: UnscheduleTask_def split: sum.splits)
    then show ?thesis using taskRepo_Update_cases [OF u w1(2)] t w1(1) by auto
  qed
qed

section \<open>Properties\<close>

text \<open>
  C18. A workflow is created as a whole or not at all. On success the identifiers of its tasks
  were free and distinct, the tasks share one workflow identifier and form a valid DAG, and the
  repository holds them besides what it held. On failure, also one in the middle, no existing
  task changes, and when the storage itself does not fail the repository is as before.
\<close>

theorem CreateWorkflow_atomic:
  assumes "world_inv e w" "CreateWorkflow e tasks w = (r, w')"
  shows "case r of
      Ok created \<Rightarrow> length created = length tasks \<and> distinct (map t_ID created) \<and> t_ID ` set created \<inter> dom (task w) = {} \<and>
        task w' = task w ++ by_id created \<and> deps_closed created \<and> acyclic (dep_rel created) \<and>
        (\<exists>wid. list_all (\<lambda>t. t_WorkflowID t = wid) created) \<and>
        list_all (\<lambda>t. t_RunIf t = [] \<or> t_RunIf t = RunIfSuccess \<or> t_RunIf t = RunIfFailure) created
    | Err err \<Rightarrow> (\<forall>i. task w i \<noteq> None \<longrightarrow> task w' i = task w i) \<and> (reliable e \<longrightarrow> task w' = task w)"
proof (cases "tasks = []")
  case True
  then show ?thesis using assms(2) by (auto simp: CreateWorkflow_def)
next
  case False
  define wid where "wid = first_id t_WorkflowID tasks (e_uuid e (w_step w))"
  obtain ts w1 where a: "assign_workflow e wid tasks (tick w) = (ts, w1)" by fastforce
  have "reach e {} w w1"
    by (rule reach_result [OF a]) (intro reach_intros reach_refl)
  then have w1: "world_inv e w1" "task w1 = task w" using assms(1) reach_inv reach_views(1) by auto
  have shape: "length ts = length tasks" "list_all (\<lambda>t. t_WorkflowID t = wid) ts"
    using assign_workflow_shape [where e = e and wid = wid and ts = tasks and w = "tick w"] a by simp_all
  have run: "CreateWorkflow e tasks w =
      (case ValidateDependenciesExist ts of
         Err err \<Rightarrow> (Err (Wrap ''dependency validation failed: '' err []), w1)
       | Ok _ \<Rightarrow> (case ValidateDAG ts of
           Err err \<Rightarrow> (Err (Wrap ''DAG validation failed: '' err []), w1)
         | Ok _ \<Rightarrow> (case check_run_if ts of Err err \<Rightarrow> (Err err, w1) | Ok _ \<Rightarrow> create_all e ts [] w1)))"
    using False a by (simp add: CreateWorkflow_def uuid_NewString_def wid_def)
  show ?thesis
  proof (cases "ValidateDependenciesExist ts = Ok () \<and> ValidateDAG ts = Ok () \<and> check_run_if ts = Ok ()")
    case True
    then have "create_all e ts [] w1 = (r, w')" using assms(2) run by simp
    from create_all_new [OF this w1(1)] show ?thesis
      using True shape ValidateDAG_sound [of ts] ValidateDependenciesExist_iff [of ts] check_run_if_iff [of ts] w1(2)
      by (cases r) auto
  next
    case no: False
    then have "w' = w1 \<and> (\<exists>err. r = Err err)" using assms(2) run by (auto split: sum.splits)
    then show ?thesis using w1(2) by auto
  qed
qed

lemma CreateWorkflow_atomic_witness:
  "let p = CreateWorkflow env0 [Task_zero\<lparr>t_ID := ''x''\<rparr>, Task_zero\<lparr>t_ID := ''y'', t_DependsOn := [''x'']\<rparr>] NewService
   in \<exists>created. fst p = Ok created \<and> length created = 2 \<and> task (snd p) = task NewService ++ by_id created"
proof -
  let ?ts = "[Task_zero\<lparr>t_ID := ''x''\<rparr>, Task_zero\<lparr>t_ID := ''y'', t_DependsOn := [''x'']\<rparr>]"
  have ok: "isl (fst (CreateWorkflow env0 ?ts NewService)) = False" by code_simp
  then obtain created where "fst (CreateWorkflow env0 ?ts NewService) = Ok created"
    by (cases "fst (CreateWorkflow env0 ?ts NewService)") auto
  with CreateWorkflow_atomic [OF world_inv_NewService [of env0], of ?ts]
  show ?thesis by (cases "CreateWorkflow env0 ?ts NewService") fastforce
qed

text \<open>The two ends of storing a job: its tasks are stored with it, or the job is taken back.\<close>

lemma job_create_all:
  assumes "world_inv e w" "jobRepo_Create e j w = (r, w1)" "create_all e ts [] w1 = (r', w2)"
  shows "world_inv e w2" "task w1 = task w" "job w2 = job w1" "world_inv e w1"
proof -
  have "reach e {Jobs} w w1" by (rule reach_result [OF assms(2)]) (intro reach_intros reach_refl, simp)
  then show w1: "world_inv e w1" "task w1 = task w" using assms(1) reach_inv reach_views(1) by auto
  have "reach e {Tasks} w1 w2" by (rule reach_result [OF assms(3)]) (intro reach_intros reach_refl, simp)
  then show "world_inv e w2" "job w2 = job w1" using w1 reach_inv reach_views(4) by auto
qed

lemma job_taken_back:
  assumes "world_inv e w" "jobRepo_Create e j w = (Ok u, w1)" "create_all e ts [] w1 = (Err err, w2)"
    and "w' = snd (jobRepo_Delete e (j_ID j) w2)"
  shows "\<forall>i. task w i \<noteq> None \<longrightarrow> task w' i = task w i" "reliable e \<Longrightarrow> task w' = task w \<and> job w' = job w"
proof -
  note w1 = job_create_all [OF assms(1-3)]
  have "reach e {Jobs} w2 w'" unfolding assms(4) by (intro reach_intros reach_refl) simp
  then have tasks: "task w' = task w2" using reach_views(1) by auto
  note created = create_all_new [OF assms(3) w1(4), unfolded w1(2)]
  show "\<forall>i. task w i \<noteq> None \<longrightarrow> task w' i = task w i" using created tasks by simp
  assume rel: "reliable e"
  have "job w' = job w"
    using jobRepo_Delete_run [OF rel w1(1), of "j_ID j"] w1(3) jobRepo_Create_Ok [OF assms(2,1)]
    by (simp add: assms(4) fun_upd_idem)
  then show "task w' = task w \<and> job w' = job w" using created tasks rel by simp
qed

text \<open>
  C19. A job is created as a whole or not at all: on success the job was unknown and is stored
  with its tasks, which carry its identifier and form a valid DAG; on failure no existing task
  changes, and when the storage itself does not fail neither tasks nor jobs have changed.
\<close>

theorem CreateJob_atomic:
  assumes "world_inv e w" "CreateJob e name tasks mode w = (r, w')"
  shows "case r of
      Ok (jid, created) \<Rightarrow> length created = length tasks \<and> distinct (map t_ID created) \<and>
        t_ID ` set created \<inter> dom (task w) = {} \<and> list_all (\<lambda>t. t_JobID t = jid) created \<and>
        deps_closed created \<and> acyclic (dep_rel created) \<and> task w' = task w ++ by_id created \<and>
        job w jid = None \<and> (\<exists>j. j_ID j = jid \<and> j_Name j = name \<and> j_ExecutionMode j = mode \<and> job w' = (job w)(jid \<mapsto> j))
    | Err err \<Rightarrow> (\<forall>i. task w i \<noteq> None \<longrightarrow> task w' i = task w i) \<and> (reliable e \<longrightarrow> task w' = task w \<and> job w' = job w)"
proof (cases "tasks = []")
  case True
  then show ?thesis using assms(2) by (auto simp: CreateJob_def)
next
  case False
  define jid where "jid = first_id t_JobID tasks (e_uuid e (w_step w))"
  define now where "now = e_now e (Suc (w_step w))"
  define j where "j = \<lparr>j_ID = jid, j_Name = name, j_ExecutionMode = mode, j_CreatedAt = now, j_UpdatedAt = now\<rparr>"
  obtain ts w1 where a: "assign_job e jid now tasks (tick (tick w)) = (ts, w1)" by fastforce
  have "reach e {} w w1" by (rule reach_result [OF a]) (intro reach_intros reach_refl)
  then have w1: "world_inv e w1" "task w1 = task w" "job w1 = job w" using assms(1) reach_inv reach_views(1,4) by auto
  have shape: "length ts = length tasks" "list_all (\<lambda>t. t_JobID t = jid) ts"
    using assign_job_shape [where e = e and jid = jid and now = now and ts = tasks and w = "tick (tick w)"] a
    by (simp_all add: list_all_iff)
  obtain r2 w2 where c: "jobRepo_Create e j w1 = (r2, w2)" by fastforce
  obtain r3 w3 where ca: "create_all e ts [] w2 = (r3, w3)" by fastforce
  note stores = job_create_all [OF w1(1) c ca]
  have run: "CreateJob e name tasks mode w =
      (case ValidateDependenciesExist ts of
         Err err \<Rightarrow> (Err (Wrap ''dependency validation failed: '' err []), w1)
       | Ok _ \<Rightarrow> (case ValidateDAG ts of
           Err err \<Rightarrow> (Err (Wrap ''DAG validation failed: '' err []), w1)
         | Ok _ \<Rightarrow> (case r2 of
             Err err \<Rightarrow> (Err (Wrap ''failed to create job: '' err []), w2)
           | Ok _ \<Rightarrow> (case r3 of
               Err err \<Rightarrow> (Err err, snd (jobRepo_Delete e jid w3))
             | Ok createdTasks \<Rightarrow> (Ok (jid, createdTasks), w3)))))"
    using False a c ca
    by (simp add: CreateJob_def uuid_NewString_def time_Now_def jid_def now_def j_def Let_def case_prod_beta
        split: sum.splits)
  consider (invalid) "w' = w1" "\<exists>err. r = Err err"
    | (taken) err where "r2 = Err err" "w' = w2" "\<exists>err. r = Err err"
    | (rolled) err j' where "r2 = Ok j'" "r3 = Err err" "w' = snd (jobRepo_Delete e jid w3)" "r = Err err"
    | (stored) j' cs where "ValidateDependenciesExist ts = Ok ()" "ValidateDAG ts = Ok ()"
        "r2 = Ok j'" "r3 = Ok cs" "w' = w3" "r = Ok (jid, cs)"
    using assms(2) run by (auto split: sum.splits)
  then show ?thesis
  proof cases
    case invalid
    then show ?thesis using w1 by auto
  next
    case taken
    then show ?thesis using stores(2) w1 jobRepo_Create_Err [OF c [unfolded taken(1)] w1(1)] by auto
  next
    case rolled
    then show ?thesis
      using job_taken_back [OF w1(1) c [unfolded rolled(1)] ca [unfolded rolled(2)], of w'] w1(2,3) by (simp add: j_def)
  next
    case stored
    have "\<exists>j'. j_ID j' = jid \<and> j_Name j' = name \<and> j_ExecutionMode j' = mode \<and> (job w)(jid \<mapsto> j) = (job w)(jid \<mapsto> j')"
      by (intro exI [of _ j]) (simp add: j_def)
    then show ?thesis
      using stored create_all_new [OF ca stores(4)] shape jobRepo_Create_Ok [OF c [unfolded stored(3)] w1(1)] w1(2,3) stores(2,3)
        ValidateDAG_sound [of ts] ValidateDependenciesExist_iff [of ts] by (auto simp: j_def)
  qed
qed

lemma CreateJob_atomic_witness:
  "let p = CreateJob env0 ''n'' [Task_zero\<lparr>t_ID := ''x''\<rparr>] ''parallel'' NewService
   in \<exists>jid created. fst p = Ok (jid, created) \<and> length created = 1 \<and> task (snd p) = task NewService ++ by_id created"
proof -
  let ?p = "CreateJob env0 ''n'' [Task_zero\<lparr>t_ID := ''x''\<rparr>] ''parallel'' NewService"
  have ok: "isl (fst ?p) = False" by code_simp
  then obtain jid created where "fst ?p = Ok (jid, created)" by (cases "fst ?p") auto
  with CreateJob_atomic [OF world_inv_NewService [of env0], of "''n''" "[Task_zero\<lparr>t_ID := ''x''\<rparr>]" "''parallel''"]
  show ?thesis by (cases ?p) fastforce
qed

lemma check_workflow_Ok:
  assumes "check_workflow e t w = (Ok u, w')" "world_inv e w" "length (r_storage (w_tasks w)) < 2 ^ 64"
    and "t_DependsOn t \<noteq> []" "t_WorkflowID t \<noteq> []" "d \<in> set (t_DependsOn t)"
  shows "\<exists>s. task w d = Some s \<and> t_WorkflowID s = t_WorkflowID t"
proof -
  let ?ws = "filter (\<lambda>s. t_WorkflowID s = t_WorkflowID t) (all_tasks (w_tasks w))"
  have valid: "ValidateDependenciesExist (?ws @ [t]) = Ok ()" "ValidateDAG (?ws @ [t]) = Ok ()"
    using assms(1,4,5) ListByWorkflowID_eq [OF assms(3), of "t_WorkflowID t"]
    by (auto simp: check_workflow_def getWorkflowTasks_def taskRepo_ListByWorkflowID_def with_fault_def Let_def
        split: option.splits sum.splits)
  have "check_self (?ws @ [t]) = Ok ()" using valid(2) by (auto simp: ValidateDAG_def split: sum.splits)
  then have "t_ID t \<notin> set (t_DependsOn t)" by (simp add: check_self_iff)
  moreover have "d \<in> t_ID ` set (?ws @ [t])"
    using valid(1) assms(6) unfolding ValidateDependenciesExist_iff deps_closed_def by auto
  ultimately obtain s where s: "s \<in> set (all_tasks (w_tasks w))" "t_WorkflowID s = t_WorkflowID t" "t_ID s = d"
    using assms(6) by auto
  then show ?thesis using all_tasks_mem [OF world_invD(1) [OF assms(2)], of s] by (auto simp: task_def)
qed

lemma CreateTask_stored:
  assumes "world_inv e w" "CreateTask e t w = (r, w')"
  obtains (err) err where "r = Err err" "task w' = task w"
    | (ok) t' s now nr w1 where "r = Ok t'" "check_workflow e t w = (Ok (), w1)"
        "t_DependsOn t \<noteq> [] \<Longrightarrow> t_WorkflowID t \<noteq> []"
        "t' = t\<lparr>t_ID := t_ID t', t_CreatedAt := now, t_Kind := (if t_Kind t = [] then TaskKindStandard else t_Kind t),
               t_Priority := (if t_Priority t = 0 then svc_defaultPriority else t_Priority t), t_NextRun := nr\<rparr>"
        "t_ID t' \<noteq> []" "task w (t_ID t') = None" "same_but_run s t'" "task w' = (task w)(t_ID t' \<mapsto> s)"
proof -
  define base where "base = (\<lambda>i now. t\<lparr>t_ID := i, t_CreatedAt := now,
      t_Kind := (if t_Kind t = [] then TaskKindStandard else t_Kind t),
      t_Priority := (if t_Priority t = 0 then svc_defaultPriority else t_Priority t)\<rparr>)"
  obtain r1 w1 where c: "check_workflow e t w = (r1, w1)" by fastforce
  have "reach e {} w w1" by (rule reach_result [OF c]) (intro reach_intros reach_refl)
  then have w1: "world_inv e w1" "task w1 = task w" using assms(1) reach_inv reach_views(1) by auto
  define t2 where "t2 = base (e_uuid e (w_step w1)) (e_now e (Suc (w_step w1)))"
  obtain r2 w2 where f: "first_run e t2 (tick (tick w1)) = (r2, w2)" by fastforce
  have "reach e {} w1 w2" by (rule reach_result [OF f]) (intro reach_intros reach_refl)
  then have w2: "world_inv e w2" "task w2 = task w" using w1 reach_inv reach_views(1) by auto
  show thesis
  proof (cases "\<exists>u t3. r1 = Ok u \<and> r2 = Ok t3 \<and> \<not> (t_Broadcast t \<and> t_PropletID t \<noteq> []) \<and>
      \<not> (t_DependsOn t \<noteq> [] \<and> t_WorkflowID t = [])")
    case False
    then have "(\<exists>err. r = Err err) \<and> (w' = w \<or> w' = w1 \<or> w' = w2)"
      using assms(2) c f
      by (auto simp: CreateTask_def uuid_NewString_def time_Now_def t2_def base_def Let_def split: if_splits sum.splits)
    then show thesis using err w1(2) w2(2) by metis
  next
    case True
    then obtain u t3 where ok1: "r1 = Ok u" "r2 = Ok t3" and g: "\<not> (t_Broadcast t \<and> t_PropletID t \<noteq> [])"
      "\<not> (t_DependsOn t \<noteq> [] \<and> t_WorkflowID t = [])" by blast
    obtain nr where t3: "t3 = t2\<lparr>t_NextRun := nr\<rparr>"
    proof -
      have "t3 = t2\<lparr>t_NextRun := t_NextRun t3\<rparr>"
        using f ok1 by (auto simp: first_run_def time_Now_def Let_def split: if_splits sum.splits)
      then show ?thesis by (rule that)
    qed
    obtain r4 w4 where cr: "taskRepo_Create e t3 w2 = (r4, w4)" by fastforce
    have w4: "world_inv e w4"
      by (rule reach_invU [OF _ w2(1)], rule reach_result [OF cr]) (intro reach_intros reach_refl UNIV_I)
    have run: "CreateTask e t w = (case r4 of Err err \<Rightarrow> (Err err, w4)
        | Ok t \<Rightarrow> if t_Schedule t \<noteq> [] then (Ok t, snd (ScheduleTask e (t_ID t) w4)) else (Ok t, w4))"
      unfolding CreateTask_def if_not_P [OF g(1)] if_not_P [OF g(2)]
      using c f cr ok1
      by (simp add: uuid_NewString_def time_Now_def t2_def base_def Let_def case_prod_beta split: sum.splits)
    show thesis
    proof (cases r4)
      case (Inl er)
      then show thesis using err assms(2) run taskRepo_Create_Err [OF cr [unfolded Inl] w2(1)] w2(2) by auto
    next
      case (Inr t4)
      note st = taskRepo_Create_Ok [OF cr [unfolded Inr] w2(1)]
      have r: "r = Ok t3" and w': "w' = w4 \<or> w' = snd (ScheduleTask e (t_ID t3) w4)"
        using assms(2) run Inr st by (auto split: if_splits)
      obtain s where s: "same_but_run s t3" "task w' = (task w)(t_ID t3 \<mapsto> s)"
      proof (cases "w' = w4")
        case True
        then show ?thesis using that [of t3] st w2(2) by simp
      next
        case False
        then obtain r5 where "ScheduleTask e (t_ID t3) w4 = (r5, w')" using w' by (metis prod.collapse)
        from ScheduleTask_effect [OF w4 this] show ?thesis
          using st w2(2) that [of t3] that by (auto simp: fun_upd_twist)
      qed
      have "t3 = t\<lparr>t_ID := t_ID t3, t_CreatedAt := e_now e (Suc (w_step w1)),
          t_Kind := (if t_Kind t = [] then TaskKindStandard else t_Kind t),
          t_Priority := (if t_Priority t = 0 then svc_defaultPriority else t_Priority t), t_NextRun := nr\<rparr>"
        by (simp add: t3 t2_def base_def)
      then show thesis
        using ok [OF r _ _ _ _ _ s] c ok1 g st w2(2) by auto
    qed
  qed
qed

text \<open>
  C31. Creating a task: an error leaves the repository as it was; on success the task is stored
  under a new identifier with the fields of the request and the documented defaults for kind
  and priority, and every dependency names a stored task of the same workflow.
\<close>

theorem CreateTask_correct:
  assumes "world_inv e w" "length (r_storage (w_tasks w)) < 2 ^ 64" "CreateTask e t w = (r, w')"
  shows "case r of
      Err err \<Rightarrow> task w' = task w
    | Ok t' \<Rightarrow> task w (t_ID t') = None \<and> (\<exists>s. same_but_run s t' \<and> task w' = (task w)(t_ID t' \<mapsto> s)) \<and>
        (\<exists>now nr. t' = t\<lparr>t_ID := t_ID t', t_CreatedAt := now,
           t_Kind := (if t_Kind t = [] then TaskKindStandard else t_Kind t),
           t_Priority := (if t_Priority t = 0 then svc_defaultPriority else t_Priority t), t_NextRun := nr\<rparr>) \<and>
        list_all (\<lambda>d. \<exists>s. task w d = Some s \<and> t_WorkflowID s = t_WorkflowID t) (t_DependsOn t)"
  using assms(1,3)
proof (cases rule: CreateTask_stored)
  case (ok t' s now nr w1)
  have "list_all (\<lambda>d. \<exists>s. task w d = Some s \<and> t_WorkflowID s = t_WorkflowID t) (t_DependsOn t)"
    unfolding list_all_iff using check_workflow_Ok [OF ok(2) assms(1,2) _ ok(3)] by fastforce
  moreover have "\<exists>now nr. t' = t\<lparr>t_ID := t_ID t', t_CreatedAt := now,
      t_Kind := (if t_Kind t = [] then TaskKindStandard else t_Kind t),
      t_Priority := (if t_Priority t = 0 then svc_defaultPriority else t_Priority t), t_NextRun := nr\<rparr>"
    using ok(4) by blast
  ultimately show ?thesis using ok(1,6-8) by auto
qed simp

lemma CreateTask_correct_witness:
  "let t = Task_zero\<lparr>t_Name := ''n'', t_Schedule := ''* * * * *''\<rparr>; p = CreateTask env0 t NewService
   in \<exists>t'. fst p = Ok t' \<and> (\<exists>s. same_but_run s t' \<and> task (snd p) = (task NewService)(t_ID t' \<mapsto> s))"
proof -
  let ?p = "CreateTask env0 (Task_zero\<lparr>t_Name := ''n'', t_Schedule := ''* * * * *''\<rparr>) NewService"
  have "isl (fst ?p) = False" by code_simp
  then obtain t' where "fst ?p = Ok t'" by (cases "fst ?p") auto
  with CreateTask_correct [OF world_inv_NewService [of env0], of "Task_zero\<lparr>t_Name := ''n'', t_Schedule := ''* * * * *''\<rparr>" "fst ?p" "snd ?p"]
  show ?thesis by (simp add: NewService_def newMemoryTaskRepository_def NewInMemoryStorage_def)
qed

lemma updateCronTask_effect:
  assumes "world_inv e w" "task w (t_ID t) = Some t" "t_Schedule t = [] \<Longrightarrow> t_NextRun t = 0"
  shows "\<exists>s. same_but_run s t \<and> task (snd (updateCronTask e t w)) = (task w)(t_ID t \<mapsto> s)"
proof (cases "t_Schedule t = []")
  case True
  have "t\<lparr>t_Schedule := [], t_NextRun := 0\<rparr> = t" using True assms(3) by simp
  then have "task (snd (updateCronTask e t w)) = (task w)(t_ID t \<mapsto> t)"
    using UnscheduleTask_effect [OF assms(1) prod.collapse [symmetric], of "t_ID t"] True assms(2)
    by (auto simp: updateCronTask_def case_prod_beta fun_upd_idem)
  then show ?thesis by (intro exI [of _ t]) simp
next
  case False
  then have eq: "snd (updateCronTask e t w) = snd (ScheduleTask e (t_ID t) w)" by (simp add: updateCronTask_def case_prod_beta)
  consider "task (snd (updateCronTask e t w)) = task w"
    | s where "same_but_run s t" "task (snd (updateCronTask e t w)) = (task w)(t_ID t \<mapsto> s)"
    using ScheduleTask_effect [OF assms(1) prod.collapse [symmetric], of "t_ID t"] assms(2) unfolding eq by auto
  then show ?thesis
  proof cases
    case 1
    then show ?thesis using assms(2) by (intro exI [of _ t]) (simp add: fun_upd_idem)
  qed blast
qed

text \<open>Equal in the fields that an update never touches.\<close>

definition unedited :: "Task \<Rightarrow> Task" where
  "unedited t = t\<lparr>t_Name := [], t_Inputs := None, t_File := None, t_Priority := 0, t_Metadata := None,
     t_Schedule := [], t_IsRecurring := False, t_Timezone := [], t_NextRun := 0, t_UpdatedAt := 0\<rparr>"

definition update_frame :: "Task \<Rightarrow> Task \<Rightarrow> bool" where
  "update_frame old t \<longleftrightarrow> unedited t = unedited old"

lemma update_schedule_Ok:
  assumes "update_schedule e t d w = (Ok (d', changed), w')"
  shows "t_Schedule d' = t_Schedule t \<and> t_ID d' = t_ID d \<and> (changed \<and> t_Schedule d' = [] \<longrightarrow> t_NextRun d' = 0) \<and>
    (\<forall>old. update_frame old d \<longrightarrow> update_frame old d')"
  using assms
  by (auto simp: update_schedule_def time_Now_def Let_def update_frame_def unedited_def split: if_splits sum.splits)

lemma UpdateTask_effect:
  assumes "world_inv e w" "UpdateTask e t w = (r, w')"
  shows "case r of
      Err err \<Rightarrow> task w' = task w
    | Ok t' \<Rightarrow> t_ID t' = t_ID t \<and> t_Schedule t' = t_Schedule t \<and>
        (\<exists>old. task w (t_ID t) = Some old \<and> update_frame old t') \<and>
        (\<exists>s. same_but_run s t' \<and> task w' = (task w)(t_ID t \<mapsto> s))"
proof -
  obtain r1 w1 where g: "GetTask e (t_ID t) w = (r1, w1)" by fastforce
  have "reach e {} w w1" by (rule reach_result [OF g]) (intro reach_intros reach_refl)
  then have w1: "world_inv e w1" "task w1 = task w" using assms(1) reach_inv reach_views(1) by auto
  show ?thesis
  proof (cases r1)
    case (Inl err)
    then show ?thesis using assms(2) g w1 by (auto simp: UpdateTask_def)
  next
    case (Inr old)
    have old: "task w (t_ID t) = Some old" "t_ID old = t_ID t" using GetTask_Ok [OF g [unfolded Inr] assms(1)] by auto
    define d where "d = merge_update t old (e_now e (w_step w1))"
    have d: "t_ID d = t_ID t" "update_frame old d" using old by (simp_all add: d_def merge_update_def update_frame_def unedited_def)
    obtain r2 w2 where s: "update_schedule e t d (tick w1) = (r2, w2)" by fastforce
    have "reach e {} w1 w2" by (rule reach_result [OF s]) (intro reach_intros reach_refl)
    then have w2: "world_inv e w2" "task w2 = task w" using w1 reach_inv reach_views(1) by auto
    show ?thesis
    proof (cases r2)
      case (Inl err)
      then show ?thesis using assms(2) g Inr s w2 by (auto simp: UpdateTask_def time_Now_def d_def)
    next
      case r2: (Inr x)
      obtain d' changed where x: "x = (d', changed)" by fastforce
      note d' = update_schedule_Ok [OF s [unfolded r2 x]]
      obtain r3 w3 where u: "taskRepo_Update e d' w2 = (r3, w3)" by fastforce
      have w3: "world_inv e w3"
        by (rule reach_invU [OF _ w2(1)], rule reach_result [OF u]) (intro reach_intros reach_refl UNIV_I)
      have run: "UpdateTask e t w = (case r3 of Err err \<Rightarrow> (Err err, w3)
          | Ok _ \<Rightarrow> (Ok d', if changed then snd (updateCronTask e d' w3) else w3))"
        using g Inr s r2 x u by (simp add: UpdateTask_def time_Now_def d_def case_prod_beta split: sum.splits)
      show ?thesis
      proof (cases r3)
        case (Inl err)
        then show ?thesis using assms(2) run taskRepo_Update_Err [OF u [unfolded Inl] w2(1)] w2(2) by auto
      next
        case r3: (Inr un)
        have st: "task w3 = (task w)(t_ID t \<mapsto> d')" using taskRepo_Update_Ok [OF u [unfolded r3] w2(1)] d' d w2(2) by simp
        have "\<exists>s. same_but_run s d' \<and> task w' = (task w)(t_ID t \<mapsto> s)"
        proof (cases changed)
          case True
          then show ?thesis
            using updateCronTask_effect [OF w3, of d'] st d' d assms(2) run r3 by auto
        next
          case False
          then show ?thesis using st assms(2) run r3 by (intro exI [of _ d']) simp
        qed
        then show ?thesis using assms(2) run r3 d d' old(1) by auto
      qed
    qed
  qed
qed

text \<open>
  C32. Updating a task: an error leaves the repository as it was; on success the stored task
  keeps its identifier, state, placement, dependencies and results, and its schedule is the one
  of the request, so that a request without a schedule removes it.
\<close>

theorem UpdateTask_correct:
  assumes "world_inv e w" "UpdateTask e t w = (r, w')"
  shows "case r of
      Err err \<Rightarrow> task w' = task w
    | Ok t' \<Rightarrow> t_ID t' = t_ID t \<and> t_Schedule t' = t_Schedule t \<and>
        (\<exists>old. task w (t_ID t) = Some old \<and> update_frame old t') \<and>
        (\<exists>s. same_but_run s t' \<and> task w' = (task w)(t_ID t \<mapsto> s))"
  using assms by (rule UpdateTask_effect)

lemma UpdateTask_correct_witness:
  "let p = UpdateTask env0 (Task_zero\<lparr>t_ID := ''a'', t_Name := ''new''\<rparr>) two_tasks
   in \<exists>t'. fst p = Ok t' \<and> t_Schedule t' = [] \<and> (\<exists>s. same_but_run s t' \<and> task (snd p) = (task two_tasks)(''a'' \<mapsto> s))"
proof -
  let ?p = "UpdateTask env0 (Task_zero\<lparr>t_ID := ''a'', t_Name := ''new''\<rparr>) two_tasks"
  have "isl (fst ?p) = False" by code_simp
  then obtain t' where "fst ?p = Ok t'" by (cases "fst ?p") auto
  with UpdateTask_correct [OF two_tasks_simps(1), of "Task_zero\<lparr>t_ID := ''a'', t_Name := ''new''\<rparr>" "fst ?p" "snd ?p"]
  show ?thesis by (simp add: Task_zero_def)
qed

end
