(* ===== verification/TaskRun.thy ===== *)
theory TaskRun
  imports Queries DagSort
begin

text \<open>
  Starting and stopping tasks (\<^verbatim>\<open>manager/service.go\<close>), the workflow coordinator
  (\<^verbatim>\<open>manager/workflow.go\<close>) and the authorisation in front of a start
  (\<^verbatim>\<open>manager/middleware/plugin.go\<close>).

  \<open>StartTask\<close> asks the coordinator to start what is ready when a dependency is unfinished, and
  the coordinator starts tasks through the plugin middleware, which calls \<open>StartTask\<close> again. The
  bodies therefore take the function they call back as an argument, and the knot is tied with
  fuel: the result \<^const>\<open>None\<close> means that the call has not returned within the fuel.
\<close>

section \<open>Messages to the proplets\<close>

definition keyBroadcast :: string where
  "keyBroadcast = ''broadcast''"

definition start_payload :: "Task \<Rightarrow> string \<Rightarrow> anymap option \<Rightarrow> startPayload" where
  "start_payload t propletID parentResults =
     \<lparr>sl_ID = t_ID t, sl_Name = t_Name t, sl_State = t_State t, sl_ImageURL = t_ImageURL t, sl_File = t_File t,
      sl_Inputs = t_Inputs t, sl_CLIArgs = t_CLIArgs t, sl_Broadcast = t_Broadcast t, sl_Daemon = t_Daemon t,
      sl_Latent = t_Latent t, sl_Env = t_Env t, sl_Encrypted = t_Encrypted t,
      sl_KBSResourcePath = t_KBSResourcePath t, sl_MonitoringProfile = t_MonitoringProfile t,
      sl_PropletID = propletID, sl_HalStoragePath = t_HalStoragePath t, sl_ParentResults = parentResults,
      sl_Metadata = ElasticConfig t\<rparr>"

definition publishStart :: "env \<Rightarrow> Task \<Rightarrow> string \<Rightarrow> world \<Rightarrow> unit result \<times> world" where
  "publishStart e t propletID w =
     (case (if t_DependsOn t \<noteq> []
            then case GetParentResults e (t_ID t) w of
                   (Err _, w) \<Rightarrow> (Some [], w)
                 | (Ok parentResults, w) \<Rightarrow> (Some parentResults, w)
            else (None, w)) of
        (parentResults, w) \<Rightarrow>
          Publish e \<lparr>m_topic = e_baseTopic e @ ''/control/manager/start'',
                     m_payload = PStart (start_payload t propletID parentResults)\<rparr> w)"

definition stop_message :: "env \<Rightarrow> anymap \<Rightarrow> message" where
  "stop_message e payload = \<lparr>m_topic = e_baseTopic e @ ''/control/manager/stop'', m_payload = PMap payload\<rparr>"

definition publishStop :: "env \<Rightarrow> Task \<Rightarrow> string \<Rightarrow> world \<Rightarrow> unit result \<times> world" where
  "publishStop e t propletID w =
     Publish e (stop_message e [(''id'', AString (t_ID t)), (keyBroadcast, ABool (t_Broadcast t)),
                                (''proplet_id'', AString propletID)]) w"

section \<open>Bookkeeping\<close>

definition pinTaskToProplet :: "env \<Rightarrow> string \<Rightarrow> string \<Rightarrow> world \<Rightarrow> unit result \<times> world" where
  "pinTaskToProplet e taskID propletID w = taskPropletRepo_Create e taskID propletID w"

text \<open>Operations on \<open>t *task.Task\<close> return the task they leave behind besides the error.\<close>

definition persistTaskBeforeStart :: "env \<Rightarrow> Task \<Rightarrow> world \<Rightarrow> (unit result \<times> Task) \<times> world" where
  "persistTaskBeforeStart e t w =
     (case time_Now e w of (now, w) \<Rightarrow>
      let t = t\<lparr>t_UpdatedAt := now\<rparr>
      in case taskRepo_Update e t w of (r, w) \<Rightarrow> ((r, t), w))"

definition markTaskRunning :: "env \<Rightarrow> Task \<Rightarrow> world \<Rightarrow> (unit result \<times> Task) \<times> world" where
  "markTaskRunning e t w =
     (case time_Now e w of (start, w) \<Rightarrow>
      case time_Now e w of (now, w) \<Rightarrow>
      let t = t\<lparr>t_State := Running, t_StartTime := start, t_UpdatedAt := now\<rparr>
      in case taskRepo_Update e t w of (r, w) \<Rightarrow> ((r, t), w))"

text \<open>\<open>max(int64(p.TaskCount)+delta, 0)\<close>: the sum wraps around as a signed 64-bit integer.\<close>

definition bump_count :: "u64 \<Rightarrow> int \<Rightarrow> u64" where
  "bump_count c delta = word_of_int (max (sint (c + word_of_int delta)) 0)"

definition bumpPropletTaskCount :: "env \<Rightarrow> Proplet \<Rightarrow> int \<Rightarrow> world \<Rightarrow> unit result \<times> world" where
  "bumpPropletTaskCount e p delta w =
     propletRepo_Update e (p\<lparr>p_TaskCount := bump_count (p_TaskCount p) delta\<rparr>) w"

text \<open>The three branches of \<open>StartTask\<close> that give up after the task is pinned.\<close>

definition fail_task :: "env \<Rightarrow> Task \<Rightarrow> string \<Rightarrow> error \<Rightarrow> world \<Rightarrow> unit \<times> world" where
  "fail_task e t what err w =
     (case time_Now e w of (now, w) \<Rightarrow>
      case taskRepo_Update e (t\<lparr>t_State := Failed, t_Error := what @ error_text err, t_UpdatedAt := now\<rparr>) w of
        (_, w) \<Rightarrow> ((), w))"

section \<open>Placement\<close>

text \<open>The next calls to plugins have the numbers after \<open>w_step\<close>.\<close>

definition set_step :: "nat \<Rightarrow> world \<Rightarrow> world" where
  "set_step n w = w\<lparr>w_step := n\<rparr>"

definition runOnBeforePropletSelect :: "env \<Rightarrow> ctx \<Rightarrow> Task \<Rightarrow> world \<Rightarrow> PropletSelectResponse result \<times> world" where
  "runOnBeforePropletSelect e ctx t w =
     (let merged = \<lparr>sp_Allow = True, sp_Reason = [], sp_RequiredTags = [], sp_MinMemoryBytes = None\<rparr>
      in case e_plugins e of
           None \<Rightarrow> (Ok merged, w)
         | Some plugins \<Rightarrow>
             (let req = \<lparr>sr_Context = AuthFromContext ctx, sr_Task = NewTaskInfo t\<rparr>
              in case select_loop plugins req (w_step w) merged of (r, n) \<Rightarrow> (r, set_step n w)))"

definition selectPropletWithConstraints ::
    "env \<Rightarrow> Task \<Rightarrow> PropletSelectResponse \<Rightarrow> world \<Rightarrow> Proplet result \<times> world" where
  "selectPropletWithConstraints e t constraints w =
     (case listAllActiveProplets e w of
        (Err err, w) \<Rightarrow> (Err err, w)
      | (Ok proplets, w) \<Rightarrow>
          (let candidates = filter (\<lambda>p. propletMatchesConstraints p constraints) proplets
           in if candidates = []
              then if sp_RequiredTags constraints \<noteq> [] \<or> sp_MinMemoryBytes constraints \<noteq> None
                   then (Err (NewError ''no proplet satisfies plugin-required constraints''), w)
                   else (Err (NewError ''no active proplets available''), w)
              else scheduler_SelectProplet t candidates w))"

text \<open>
  The hook before a dispatch writes into the map of environment variables. The task that the
  in-memory repository holds shares this map, unless it was nil: \<open>share_env\<close> is that write.
\<close>

definition share_env :: "string \<Rightarrow> strmap option \<Rightarrow> world \<Rightarrow> world" where
  "share_env taskID env w =
     (case map_of (r_storage (w_tasks w)) taskID of
        Some (DTask s) \<Rightarrow>
          w\<lparr>w_tasks := (w_tasks w)\<lparr>r_storage := AList.update taskID (DTask (s\<lparr>t_Env := env\<rparr>)) (r_storage (w_tasks w))\<rparr>\<rparr>
      | _ \<Rightarrow> w)"

definition runOnBeforeDispatch ::
    "env \<Rightarrow> ctx \<Rightarrow> Task \<Rightarrow> Proplet \<Rightarrow> world \<Rightarrow> (unit result \<times> Task) \<times> world" where
  "runOnBeforeDispatch e ctx t p w =
     (case e_plugins e of
        None \<Rightarrow> ((Ok (), t), w)
      | Some plugins \<Rightarrow>
          (let req = \<lparr>dr_Context = AuthFromContext ctx, dr_Task = NewTaskInfo t,
                      dr_Proplet = \<lparr>pi_ID = p_ID p, pi_Name = p_Name p, pi_Tags = pm_Tags (p_Metadata p),
                        pi_TotalMemoryBytes = pm_TotalMemoryBytes (p_Metadata p),
                        pi_Location = pm_Location (p_Metadata p)\<rparr>\<rparr>
           in case dispatch_loop plugins (t_Env t \<noteq> None) req (w_step w) t of
                (r, t', n) \<Rightarrow>
                  ((r, t'), set_step n (if t_Env t \<noteq> None then share_env (t_ID t) (t_Env t') w else w))))"

section \<open>StartTask\<close>

text \<open>\<open>StartTask\<close> from the choice of the proplet on.\<close>

definition dispatch_task :: "env \<Rightarrow> ctx \<Rightarrow> string \<Rightarrow> Task \<Rightarrow> Proplet \<Rightarrow> world \<Rightarrow> unit result \<times> world" where
  "dispatch_task e ctx taskID t p w =
     (case runOnBeforeDispatch e ctx t p w of
        ((Err err, _), w) \<Rightarrow> (Err err, w)
      | ((Ok _, t), w) \<Rightarrow>
     (case pinTaskToProplet e taskID (p_ID p) w of
        (Err err, w) \<Rightarrow> (Err err, w)
      | (Ok _, w) \<Rightarrow>
     (case persistTaskBeforeStart e (t\<lparr>t_PropletID := p_ID p\<rparr>) w of
        ((Err err, _), w) \<Rightarrow> (Err err, w)
      | ((Ok _, t), w) \<Rightarrow>
     (case publishStart e t (p_ID p) w of
        (Err err, w) \<Rightarrow>
          (case taskPropletRepo_Delete e taskID w of (_, w) \<Rightarrow>
           case fail_task e t ''failed to publish start message: '' err w of (_, w) \<Rightarrow> (Err err, w))
      | (Ok _, w) \<Rightarrow>
     (case bumpPropletTaskCount e p 1 w of
        (Err err, w) \<Rightarrow>
          (case taskPropletRepo_Delete e taskID w of (_, w) \<Rightarrow>
           case publishStop e t (p_ID p) w of (_, w) \<Rightarrow>
           case fail_task e t ''failed to bump proplet task count: '' err w of (_, w) \<Rightarrow> (Err err, w))
      | (Ok _, w) \<Rightarrow>
     (case markTaskRunning e t w of
        ((Err err, t), w) \<Rightarrow>
          (case taskPropletRepo_Delete e taskID w of (_, w) \<Rightarrow>
           case bumpPropletTaskCount e p (- 1) w of (_, w) \<Rightarrow>
           case publishStop e t (p_ID p) w of (_, w) \<Rightarrow>
           case fail_task e t ''failed to mark task running: '' err w of (_, w) \<Rightarrow> (Err err, w))
      | ((Ok _, _), w) \<Rightarrow> (Ok (), w)))))))"

text \<open>The proplet of a task: the one it names, if it is alive, else one the scheduler selects.\<close>

definition choose_proplet :: "env \<Rightarrow> Task \<Rightarrow> PropletSelectResponse \<Rightarrow> world \<Rightarrow> Proplet result \<times> world" where
  "choose_proplet e t constraints w =
     (if t_PropletID t = [] then selectPropletWithConstraints e t constraints w
      else case GetProplet e (t_PropletID t) w of
             (Err err, w) \<Rightarrow> (Err err, w)
           | (Ok p, w) \<Rightarrow>
               if \<not> p_Alive p
               then (Err (NewError (''specified proplet '' @ t_PropletID t @ '' is not alive'')), w)
               else (Ok p, w))"

definition start_broadcast :: "env \<Rightarrow> Task \<Rightarrow> world \<Rightarrow> unit result \<times> world" where
  "start_broadcast e t w =
     (case persistTaskBeforeStart e t w of
        ((Err err, _), w) \<Rightarrow> (Err err, w)
      | ((Ok _, t), w) \<Rightarrow>
          (case publishStart e t [] w of
             (Err err, w) \<Rightarrow> (Err err, w)
           | (Ok _, w) \<Rightarrow> (case markTaskRunning e t w of ((r, _), w) \<Rightarrow> (r, w))))"

type_synonym 'a running = "'a option \<times> world"

fun deps_loop :: "(string \<Rightarrow> world \<Rightarrow> unit result running) \<Rightarrow> env \<Rightarrow> string \<Rightarrow> string \<Rightarrow> string list \<Rightarrow> world
    \<Rightarrow> unit result running" where
  "deps_loop check e taskID workflowID [] w = (Some (Ok ()), w)"
| "deps_loop check e taskID workflowID (depID # deps) w =
     (case GetTask e depID w of
        (Err err, w) \<Rightarrow> (Some (Err (Wrap (''failed to get dependency task '' @ depID @ '': '') err [])), w)
      | (Ok dep, w) \<Rightarrow>
          if t_State dep \<noteq> Completed \<and> t_State dep \<noteq> Failed \<and> t_State dep \<noteq> Skipped
          then if workflowID \<noteq> []
               then case check workflowID w of
                      (None, w) \<Rightarrow> (None, w)
                    | (Some _, w) \<Rightarrow> (Some (Err (NewError (''task '' @ taskID @ '' has unmet dependencies''))), w)
               else (Some (Err (NewError (''task '' @ taskID @ '' has unmet dependencies''))), w)
          else deps_loop check e taskID workflowID deps w)"

definition checkTaskDependencies ::
    "(string \<Rightarrow> world \<Rightarrow> unit result running) \<Rightarrow> env \<Rightarrow> string \<Rightarrow> Task \<Rightarrow> world \<Rightarrow> unit result running" where
  "checkTaskDependencies check e taskID t w = deps_loop check e taskID (t_WorkflowID t) (t_DependsOn t) w"

definition StartTask_with ::
    "(ctx \<Rightarrow> string \<Rightarrow> world \<Rightarrow> unit result running) \<Rightarrow> env \<Rightarrow> ctx \<Rightarrow> string \<Rightarrow> world \<Rightarrow> unit result running" where
  "StartTask_with check e ctx taskID w =
     (if w_shuttingDown w then (Some (Err (Sentinel errShuttingDown)), w)
      else case GetTask e taskID w of
        (Err err, w) \<Rightarrow> (Some (Err err), w)
      | (Ok t, w) \<Rightarrow>
     (case (if t_DependsOn t \<noteq> [] then checkTaskDependencies (check ctx) e taskID t w else (Some (Ok ()), w)) of
        (None, w) \<Rightarrow> (None, w)
      | (Some (Err err), w) \<Rightarrow> (Some (Err err), w)
      | (Some (Ok _), w) \<Rightarrow>
          if t_Broadcast t then case start_broadcast e t w of (r, w) \<Rightarrow> (Some r, w)
          else case runOnBeforePropletSelect e ctx t w of
            (Err err, w) \<Rightarrow> (Some (Err err), w)
          | (Ok constraints, w) \<Rightarrow>
              (case choose_proplet e t constraints w of
                 (Err err, w) \<Rightarrow> (Some (Err err), w)
               | (Ok p, w) \<Rightarrow> (case dispatch_task e ctx taskID t p w of (r, w) \<Rightarrow> (Some r, w)))))"

section \<open>The workflow coordinator\<close>

definition EvaluateConditionalExecution :: "Task \<Rightarrow> (string \<rightharpoonup> State) \<Rightarrow> bool" where
  "EvaluateConditionalExecution t parentStates =
     (if t_DependsOn t = [] then True
      else let runIf = (if t_RunIf t = [] then RunIfSuccess else t_RunIf t)
           in if runIf = RunIfSuccess then list_all (\<lambda>depID. parentStates depID = Some Completed) (t_DependsOn t)
              else if runIf = RunIfFailure then list_ex (\<lambda>depID. parentStates depID = Some Failed) (t_DependsOn t)
              else False)"

definition completed_map :: "Task list \<Rightarrow> string \<rightharpoonup> State" where
  "completed_map tasks = fold (\<lambda>t m. if IsTerminal (t_State t) then m(t_ID t \<mapsto> t_State t) else m) tasks Map.empty"

definition parent_states :: "(string \<rightharpoonup> State) \<Rightarrow> string list \<Rightarrow> string \<rightharpoonup> State" where
  "parent_states completed deps =
     fold (\<lambda>depID m. case completed depID of None \<Rightarrow> m | Some s \<Rightarrow> m(depID \<mapsto> s)) deps Map.empty"

fun ready_loop :: "(string \<Rightarrow> world \<Rightarrow> unit result running) \<Rightarrow> env \<Rightarrow> (string \<rightharpoonup> State) \<Rightarrow> Task list \<Rightarrow> world
    \<Rightarrow> unit result running" where
  "ready_loop start e completed [] w = (Some (Ok ()), w)"
| "ready_loop start e completed (t # ts) w =
     (if t_State t = Running \<or> t_State t = Scheduled then ready_loop start e completed ts w
      else if \<not> EvaluateConditionalExecution t (parent_states completed (t_DependsOn t))
      then case time_Now e w of (now, w) \<Rightarrow>
           case taskRepo_Update e (t\<lparr>t_State := Skipped, t_UpdatedAt := now\<rparr>) w of
             (_, w) \<Rightarrow> ready_loop start e completed ts w
      else case start (t_ID t) w of
             (None, w) \<Rightarrow> (None, w)
           | (Some _, w) \<Rightarrow> ready_loop start e completed ts w)"

definition CheckAndStart_with ::
    "(ctx \<Rightarrow> string \<Rightarrow> world \<Rightarrow> unit result running) \<Rightarrow> env \<Rightarrow> ctx \<Rightarrow> string \<Rightarrow> world \<Rightarrow> unit result running" where
  "CheckAndStart_with start e ctx workflowID w =
     (case taskRepo_ListByWorkflowID e workflowID w of
        (Err err, w) \<Rightarrow> (Some (Err (Wrap ''failed to get workflow tasks: '' err [])), w)
      | (Ok tasks, w) \<Rightarrow>
          if tasks = [] then (Some (Ok ()), w)
          else let completed = completed_map tasks
               in ready_loop (start (ContextWithSystem ctx)) e completed (GetReadyTasks tasks completed) w)"

section \<open>The plugin middleware in front of a start\<close>

definition authorize :: "env \<Rightarrow> ctx \<Rightarrow> Action \<Rightarrow> TaskInfo \<Rightarrow> world \<Rightarrow> unit result \<times> world" where
  "authorize e ctx action info w =
     (let plugins = nil_list (e_plugins e)
      in if plugins = [] then (Ok (), w)
         else let req = \<lparr>ar_Context = withAction (AuthFromContext ctx) action, ar_Task = info\<rparr>
              in case authorize_loop plugins req (w_step w) of (r, n) \<Rightarrow> (r, set_step n w))"

definition notifyStart :: "env \<Rightarrow> TaskInfo \<Rightarrow> world \<Rightarrow> unit \<times> world" where
  "notifyStart e info w =
     ((), w\<lparr>w_notified := w_notified w @
        map (\<lambda>p. (pl_Name p, \<lparr>ev_Task = info, ev_Success = False, ev_Result = [], ev_Error = []\<rparr>)) (nil_list (e_plugins e))\<rparr>)"

definition pm_StartTask_with ::
    "(ctx \<Rightarrow> string \<Rightarrow> world \<Rightarrow> unit result running) \<Rightarrow> env \<Rightarrow> ctx \<Rightarrow> string \<Rightarrow> world \<Rightarrow> unit result running" where
  "pm_StartTask_with start e ctx taskID w =
     (case GetTask e taskID w of
        (Err err, w) \<Rightarrow> (Some (Err err), w)
      | (Ok t, w) \<Rightarrow>
          (case authorize e ctx ActionStart (NewTaskInfo t) w of
             (Err err, w) \<Rightarrow> (Some (Err err), w)
           | (Ok _, w) \<Rightarrow>
               (case start ctx taskID w of
                  (None, w) \<Rightarrow> (None, w)
                | (Some (Err err), w) \<Rightarrow> (Some (Err err), w)
                | (Some (Ok _), w) \<Rightarrow>
                    (case notifyStart e (NewTaskInfo t) w of (_, w) \<Rightarrow> (Some (Ok ()), w)))))"

section \<open>Tying the knot\<close>

fun StartTask :: "nat \<Rightarrow> env \<Rightarrow> ctx \<Rightarrow> string \<Rightarrow> world \<Rightarrow> unit result running" where
  "StartTask 0 e ctx taskID w = (None, w)"
| "StartTask (Suc n) e ctx taskID w =
     StartTask_with (CheckAndStart_with (pm_StartTask_with (StartTask n e) e) e) e ctx taskID w"

definition pm_StartTask :: "nat \<Rightarrow> env \<Rightarrow> ctx \<Rightarrow> string \<Rightarrow> world \<Rightarrow> unit result running" where
  "pm_StartTask n e = pm_StartTask_with (StartTask n e) e"

definition CheckAndStartReadyTasks :: "nat \<Rightarrow> env \<Rightarrow> ctx \<Rightarrow> string \<Rightarrow> world \<Rightarrow> unit result running" where
  "CheckAndStartReadyTasks n e = CheckAndStart_with (pm_StartTask n e) e"

definition OnTaskCompletion :: "nat \<Rightarrow> env \<Rightarrow> ctx \<Rightarrow> string \<Rightarrow> world \<Rightarrow> unit result running" where
  "OnTaskCompletion n e ctx taskID w =
     (case GetTask e taskID w of
        (Err err, w) \<Rightarrow> (Some (Err (Wrap ''failed to get completed task: '' err [])), w)
      | (Ok t, w) \<Rightarrow>
          if t_WorkflowID t = [] then (Some (Ok ()), w)
          else CheckAndStartReadyTasks n e ctx (t_WorkflowID t) w)"

section \<open>StopTask\<close>

definition StopTask :: "env \<Rightarrow> string \<Rightarrow> world \<Rightarrow> unit result \<times> world" where
  "StopTask e taskID w =
     (case GetTask e taskID w of
        (Err err, w) \<Rightarrow> (Err err, w)
      | (Ok t, w) \<Rightarrow>
          if t_Broadcast t
          then Publish e (stop_message e [(''id'', AString (t_ID t)), (keyBroadcast, ABool (t_Broadcast t))]) w
          else case taskPropletRepo_Get e taskID w of
            (Err err, w) \<Rightarrow> (Err err, w)
          | (Ok propletID, w) \<Rightarrow>
         (case GetProplet e propletID w of
            (Err err, w) \<Rightarrow> (Err err, w)
          | (Ok p, w) \<Rightarrow>
         (case Publish e (stop_message e [(''id'', AString (t_ID t)), (keyBroadcast, ABool (t_Broadcast t)),
                                         (''proplet_id'', AString propletID)]) w of
            (Err err, w) \<Rightarrow> (Err err, w)
          | (Ok _, w) \<Rightarrow>
         (case taskPropletRepo_Delete e taskID w of
            (Err err, w) \<Rightarrow> (Err err, w)
          | (Ok _, w) \<Rightarrow> bumpPropletTaskCount e p (- 1) w))))"

section \<open>Frames\<close>

lemma reach_set_step: "reach e C w0 w \<Longrightarrow> w_step w \<le> n \<Longrightarrow> reach e C w0 (set_step n w)"
  by (erule reachI) (simp_all add: set_step_def changesI world_inv_def)

lemma select_loop_count: "n \<le> snd (select_loop ps req n merged)"
  by (induction ps arbitrary: n merged) (auto split: sum.splits intro: order_trans [OF _ Suc_leD])

lemma dispatch_loop_count: "n \<le> snd (snd (dispatch_loop ps sh req n t))"
  by (induction ps arbitrary: n req t) (auto simp: Let_def split: sum.splits intro: order_trans [OF _ Suc_leD])

lemma share_env_tasks_inv:
  assumes inv: "tasks_inv ff r" and s: "map_of (r_storage r) i = Some (DTask s)"
  shows "tasks_inv ff (r\<lparr>r_storage := AList.update i (DTask (s\<lparr>t_Env := env\<rparr>)) (r_storage r)\<rparr>)"
proof -
  let ?r = "r\<lparr>r_storage := AList.update i (DTask (s\<lparr>t_Env := env\<rparr>)) (r_storage r)\<rparr>"
  have v: "task_view r i = Some s" using s by (simp add: task_view_def typed_view_def)
  then have key: "t_ID s = i" "i \<noteq> []" using task_view_key [OF inv] by auto
  have view: "task_view ?r = (task_view r)(i \<mapsto> s\<lparr>t_Env := env\<rparr>)"
    by (simp add: task_view_def typed_view_update)
  have meta: "has_meta ff (s\<lparr>t_Env := env\<rparr>) k x = has_meta ff s k x" for k x by (simp add: has_meta_iff)
  have "(\<exists>t. task_view ?r j = Some t \<and> has_meta ff t k x) \<longleftrightarrow> (\<exists>t. task_view r j = Some t \<and> has_meta ff t k x)" for j k x
    unfolding view using v meta by (cases "j = i") auto
  moreover have "typed_inv as_Task t_ID (r_storage ?r)"
    using inv key typed_inv_update [of as_Task t_ID "r_storage r" "DTask (s\<lparr>t_Env := env\<rparr>)" "s\<lparr>t_Env := env\<rparr>"]
    by (simp add: tasks_inv_def)
  ultimately show ?thesis using inv by (simp add: tasks_inv_def)
qed

lemma reach_share_env:
  assumes "reach e C w0 w" "Tasks \<in> C"
  shows "reach e C w0 (share_env i env w)"
proof (cases "\<exists>s. map_of (r_storage (w_tasks w)) i = Some (DTask s)")
  case True
  then obtain s where s: "map_of (r_storage (w_tasks w)) i = Some (DTask s)" by blast
  show ?thesis
    unfolding share_env_def s option.case dval.case using assms
    by (rule reach_put_tasks) (rule share_env_tasks_inv [OF _ s])
next
  case False
  then have "share_env i env w = w" by (auto simp: share_env_def split: option.splits dval.splits)
  then show ?thesis using assms by simp
qed

lemma reach_start_parts [reach_intros]:
  assumes "reach e C w0 w"
  shows "Sent \<in> C \<Longrightarrow> reach e C w0 (snd (publishStart e t i w))"
    "Sent \<in> C \<Longrightarrow> reach e C w0 (snd (publishStop e t i w))"
    "Pins \<in> C \<Longrightarrow> reach e C w0 (snd (pinTaskToProplet e j i w))"
    "Tasks \<in> C \<Longrightarrow> reach e C w0 (snd (persistTaskBeforeStart e t w))"
    "Tasks \<in> C \<Longrightarrow> reach e C w0 (snd (markTaskRunning e t w))"
    "Proplets \<in> C \<Longrightarrow> reach e C w0 (snd (bumpPropletTaskCount e p d w))"
    "Tasks \<in> C \<Longrightarrow> reach e C w0 (snd (fail_task e t what err w))"
    "Sched \<in> C \<Longrightarrow> reach e C w0 (snd (selectPropletWithConstraints e t c w))"
  unfolding publishStart_def publishStop_def pinTaskToProplet_def persistTaskBeforeStart_def markTaskRunning_def
    bumpPropletTaskCount_def fail_task_def selectPropletWithConstraints_def
  by (assumption | rule reach_steps reach_intros assms)+

lemma reach_plugin_calls [reach_intros]:
  assumes "reach e C w0 w"
  shows "reach e C w0 (snd (runOnBeforePropletSelect e ctx t w))"
    "Tasks \<in> C \<Longrightarrow> reach e C w0 (snd (runOnBeforeDispatch e ctx t p w))"
    "reach e C w0 (snd (authorize e ctx a info w))"
    "Notified \<in> C \<Longrightarrow> reach e C w0 (snd (notifyStart e info w))"
proof -
  have step: "w_step (share_env i env w) = w_step w" for i env
    by (simp add: share_env_def split: option.splits dval.splits)
  show "reach e C w0 (snd (runOnBeforePropletSelect e ctx t w))"
    using assms select_loop_count
    by (auto simp: runOnBeforePropletSelect_def Let_def case_prod_beta intro!: reach_set_step split: option.splits)
  show "reach e C w0 (snd (authorize e ctx a info w))"
    using assms authorize_loop_count by (auto simp: authorize_def Let_def case_prod_beta intro!: reach_set_step)
  show "Tasks \<in> C \<Longrightarrow> reach e C w0 (snd (runOnBeforeDispatch e ctx t p w))"
    using assms dispatch_loop_count
    by (auto simp: runOnBeforeDispatch_def Let_def case_prod_beta step intro!: reach_set_step reach_share_env split: option.splits)
  show "Notified \<in> C \<Longrightarrow> reach e C w0 (snd (notifyStart e info w))"
    using assms unfolding notifyStart_def snd_conv by (elim reachI) (simp_all add: changesI world_inv_def)
qed

lemma reach_dispatch [reach_intros]:
  assumes "reach e C w0 w" "{Tasks, Proplets, Pins, Sched, Sent} \<subseteq> C"
  shows "reach e C w0 (snd (dispatch_task e ctx i t p w))" "reach e C w0 (snd (choose_proplet e t c w))"
    "reach e C w0 (snd (start_broadcast e t w))"
proof -
  have C: "Tasks \<in> C" "Proplets \<in> C" "Pins \<in> C" "Sched \<in> C" "Sent \<in> C" using assms(2) by auto
  show "reach e C w0 (snd (dispatch_task e ctx i t p w))" "reach e C w0 (snd (choose_proplet e t c w))"
    "reach e C w0 (snd (start_broadcast e t w))"
    unfolding dispatch_task_def choose_proplet_def start_broadcast_def
    by (assumption | rule reach_steps reach_intros assms C)+
qed

text \<open>The parts that starting tasks may change.\<close>

abbreviation start_parts :: "part set" where
  "start_parts \<equiv> {Tasks, Proplets, Pins, Sched, Sent, Notified}"

lemma reach_deps_loop:
  assumes "\<And>k w. reach e C w0 w \<Longrightarrow> reach e C w0 (snd (check k w))"
  shows "reach e C w0 w \<Longrightarrow> reach e C w0 (snd (deps_loop check e i k ds w))"
proof (induction ds arbitrary: w)
  case (Cons d ds)
  show ?case unfolding deps_loop.simps by (assumption | rule reach_steps reach_intros assms Cons)+
qed simp

lemma reach_ready_loop:
  assumes "\<And>i w. reach e C w0 w \<Longrightarrow> reach e C w0 (snd (start i w))" "Tasks \<in> C"
  shows "reach e C w0 w \<Longrightarrow> reach e C w0 (snd (ready_loop start e m ts w))"
proof (induction ts arbitrary: w)
  case (Cons t ts)
  show ?case unfolding ready_loop.simps by (assumption | rule reach_steps reach_intros assms Cons)+
qed simp

lemma reach_StartTask_with:
  assumes "\<And>ctx i w. reach e C w0 w \<Longrightarrow> reach e C w0 (snd (check ctx i w))" "start_parts \<subseteq> C"
  shows "reach e C w0 w \<Longrightarrow> reach e C w0 (snd (StartTask_with check e ctx i w))"
proof -
  have C: "{Tasks, Proplets, Pins, Sched, Sent} \<subseteq> C" using assms(2) by auto
  show "reach e C w0 w \<Longrightarrow> reach e C w0 (snd (StartTask_with check e ctx i w))"
    unfolding StartTask_with_def checkTaskDependencies_def
    by (assumption | rule reach_steps reach_intros reach_deps_loop assms(1) C)+
qed

lemma reach_CheckAndStart_with:
  assumes "\<And>ctx i w. reach e C w0 w \<Longrightarrow> reach e C w0 (snd (start ctx i w))" "start_parts \<subseteq> C"
  shows "reach e C w0 w \<Longrightarrow> reach e C w0 (snd (CheckAndStart_with start e ctx i w))"
proof -
  have C: "Tasks \<in> C" using assms(2) by auto
  show "reach e C w0 w \<Longrightarrow> reach e C w0 (snd (CheckAndStart_with start e ctx i w))"
    unfolding CheckAndStart_with_def
    by (assumption | rule reach_steps reach_intros reach_ready_loop assms(1) C)+
qed

lemma reach_pm_StartTask_with:
  assumes "\<And>ctx i w. reach e C w0 w \<Longrightarrow> reach e C w0 (snd (start ctx i w))" "start_parts \<subseteq> C"
  shows "reach e C w0 w \<Longrightarrow> reach e C w0 (snd (pm_StartTask_with start e ctx i w))"
proof -
  have C: "Notified \<in> C" using assms(2) by auto
  show "reach e C w0 w \<Longrightarrow> reach e C w0 (snd (pm_StartTask_with start e ctx i w))"
    unfolding pm_StartTask_with_def by (assumption | rule reach_steps reach_intros assms(1) C)+
qed

lemma reach_StartTask [reach_intros]:
  "reach e C w0 w \<Longrightarrow> start_parts \<subseteq> C \<Longrightarrow> reach e C w0 (snd (StartTask n e ctx i w))"
proof (induction n arbitrary: ctx i w)
  case (Suc n)
  show ?case unfolding StartTask.simps
    by (rule reach_StartTask_with reach_CheckAndStart_with reach_pm_StartTask_with Suc.IH Suc.prems | assumption)+
qed simp

lemma reach_start_ops [reach_intros]:
  assumes "reach e C w0 w" "start_parts \<subseteq> C"
  shows "reach e C w0 (snd (pm_StartTask n e ctx i w))" "reach e C w0 (snd (CheckAndStartReadyTasks n e ctx i w))"
    "reach e C w0 (snd (OnTaskCompletion n e ctx i w))"
  unfolding OnTaskCompletion_def CheckAndStartReadyTasks_def pm_StartTask_def
  by (assumption | rule reach_steps reach_intros reach_CheckAndStart_with reach_pm_StartTask_with assms)+

lemma reach_StopTask [reach_intros]:
  assumes "reach e C w0 w" "Sent \<in> C" "Pins \<in> C" "Proplets \<in> C"
  shows "reach e C w0 (snd (StopTask e i w))"
  unfolding StopTask_def by (assumption | rule reach_steps reach_intros assms)+

end
