(* ===== verification/StartLaws.thy ===== *)
theory StartLaws
  imports TaskRun
begin

text \<open>
  What starting and stopping a task does: the effects of a successful start, the dependencies
  it respects, the round trip of a start and a stop, how much fuel the mutual recursion of
  service and coordinator needs, and when it does not return.
\<close>

section \<open>Pins\<close>

lemma pins_entry:
  assumes "pins_inv s" "map_of s i = Some d"
  shows "\<exists>pid. d = DString pid" "i \<noteq> []"
proof -
  show "\<exists>pid. d = DString pid" using assms unfolding pins_inv_def by blast
  have "[] \<notin> fst ` set s" using assms(1) by (simp add: pins_inv_def storage_inv_def)
  then show "i \<noteq> []" using map_of_SomeD [OF assms(2)] by force
qed

lemma pin_iff: "world_inv e w \<Longrightarrow> pin w i = Some pid \<longleftrightarrow> map_of (w_taskProplets w) i = Some (DString pid)"
  using pins_entry(1) [OF world_invD(3)]
  by (cases "map_of (w_taskProplets w) i") (force simp: pin_def typed_view_def)+

lemma pin_None: "world_inv e w \<Longrightarrow> pin w i = None \<longleftrightarrow> map_of (w_taskProplets w) i = None"
  using pins_entry(1) [OF world_invD(3)]
  by (cases "map_of (w_taskProplets w) i") (force simp: pin_def typed_view_def)+

lemma pin_key: "world_inv e w \<Longrightarrow> pin w i = Some pid \<Longrightarrow> i \<noteq> []"
  using pins_entry(2) [OF world_invD(3)] by (force simp: pin_iff)

lemma pin_empty: "world_inv e w \<Longrightarrow> pin w [] = None"
  using pin_key [of e w "[]"] by (cases "pin w []") auto

lemma taskPropletRepo_Create_Ok:
  assumes "taskPropletRepo_Create e i pid w = (Ok u, w')" "world_inv e w"
  shows "i \<noteq> []" "pin w i = None" "pin w' = (pin w)(i \<mapsto> pid)"
  using assms pin_None [OF assms(2), of i]
  by (auto simp: taskPropletRepo_Create_def with_fault_def taskProplets_Create_def storage_Create_def pin_def
      typed_view_def fun_eq_iff update_conv' split: option.splits if_splits)

lemma taskPropletRepo_Get_Ok:
  assumes "taskPropletRepo_Get e i w = (Ok pid, w')"
  shows "pin w i = Some pid" "w' = tick w"
  using assms
  by (auto simp: taskPropletRepo_Get_def with_fault_def taskProplets_Get_def storage_Get_def pin_def typed_view_def
      split: option.splits if_splits)

lemma taskPropletRepo_Get_run:
  assumes "e_fault e (w_step w) = None" "world_inv e w" "pin w i = Some pid"
  shows "taskPropletRepo_Get e i w = (Ok pid, tick w)"
  using assms pin_iff [OF assms(2), of i pid] pin_key [OF assms(2,3)]
  by (simp add: taskPropletRepo_Get_def with_fault_def taskProplets_Get_def storage_Get_def)

lemma taskPropletRepo_Delete_view:
  assumes "e_fault e (w_step w) = None" "world_inv e w"
  shows "pin (snd (taskPropletRepo_Delete e i w)) = (pin w)(i := None)" "i \<noteq> [] \<Longrightarrow> fst (taskPropletRepo_Delete e i w) = Ok ()"
    "w_step (snd (taskPropletRepo_Delete e i w)) = Suc (w_step w)"
  using assms pin_empty [OF assms(2)]
  by (auto simp: taskPropletRepo_Delete_def with_fault_def taskProplets_Delete_def storage_Delete_def pin_def
      typed_view_def fun_eq_iff delete_conv')

section \<open>A successful start\<close>

lemma Publish_Ok: "Publish e m w = (Ok u, w') \<Longrightarrow> w_sent w' = w_sent w @ [m]"
  by (auto simp: Publish_def split: option.splits)

lemma publishStart_Ok:
  assumes "publishStart e t pid w = (Ok u, w')"
  shows "\<exists>par. w_sent w' = w_sent w @ [\<lparr>m_topic = e_baseTopic e @ ''/control/manager/start'', m_payload = PStart (start_payload t pid par)\<rparr>]"
proof -
  let ?p = "if t_DependsOn t \<noteq> [] then case GetParentResults e (t_ID t) w of (Err _, w) \<Rightarrow> (Some [], w) | (Ok par, w) \<Rightarrow> (Some par, w)
      else (None, w)"
  have "reach e {} w (snd ?p)" by (assumption | rule reach_steps reach_intros reach_refl)+
  then have sent: "w_sent (snd ?p) = w_sent w" using reach_frame(7) by blast
  have pub: "Publish e \<lparr>m_topic = e_baseTopic e @ ''/control/manager/start'', m_payload = PStart (start_payload t pid (fst ?p))\<rparr> (snd ?p) = (Ok u, w')"
    using assms by (simp add: publishStart_def case_prod_beta)
  show ?thesis using Publish_Ok [OF pub] sent by (intro exI [of _ "fst ?p"]) simp
qed

lemma task_stored: "task w i = Some t \<longleftrightarrow> map_of (r_storage (w_tasks w)) i = Some (DTask t)"
  by (auto simp: task_def task_view_def typed_view_def split: option.splits elim: as_Task.elims)

lemma share_env_view:
  "task w i = Some t \<Longrightarrow> task (share_env i env w) = (task w)(i \<mapsto> t\<lparr>t_Env := env\<rparr>)"
  unfolding task_stored by (auto simp: share_env_def task_def task_view_def)

lemma task_set_step [simp]: "task (set_step n w) = task w"
  by (simp add: set_step_def task_def)

lemma runOnBeforeDispatch_effect:
  assumes "runOnBeforeDispatch e ctx t p w = ((r, t'), w')" "task w (t_ID t) = Some t"
  shows "\<exists>env. t' = t\<lparr>t_Env := env\<rparr>" "task w' = task w \<or> task w' = (task w)(t_ID t \<mapsto> t')"
proof -
  have "(\<exists>env. t' = t\<lparr>t_Env := env\<rparr>) \<and> (task w' = task w \<or> task w' = (task w)(t_ID t \<mapsto> t'))"
  proof (cases "e_plugins e")
    case None
    then have "t' = t\<lparr>t_Env := t_Env t\<rparr>" "task w' = task w" using assms(1) by (simp_all add: runOnBeforeDispatch_def)
    then show ?thesis by blast
  next
    case (Some plugins)
    then obtain req n where d: "dispatch_loop plugins (t_Env t \<noteq> None) req (w_step w) t = (r, t', n)"
        and w': "w' = set_step n (if t_Env t \<noteq> None then share_env (t_ID t) (t_Env t') w else w)"
      using assms(1) by (auto simp: runOnBeforeDispatch_def Let_def split: prod.splits)
    obtain env where t': "t' = t\<lparr>t_Env := env\<rparr>" using dispatch_loop_frame [OF d] by blast
    have "task w' = task w \<or> task w' = (task w)(t_ID t \<mapsto> t')"
      unfolding w' using share_env_view [OF assms(2), of "t_Env t'"] by (simp add: t')
    then show ?thesis using t' by blast
  qed
  then show "\<exists>env. t' = t\<lparr>t_Env := env\<rparr>" "task w' = task w \<or> task w' = (task w)(t_ID t \<mapsto> t')" by blast+
qed

text \<open>Taking the success of a sequence of fallible calls apart.\<close>

lemma seq_Ok:
  assumes "(case p of (r, w) \<Rightarrow> case r of Inl err \<Rightarrow> f err w | Inr x \<Rightarrow> g x w) = (Ok y, w')"
    and "\<And>err w. fst (f err w) \<noteq> Ok y"
  obtains x w where "p = (Ok x, w)" "g x w = (Ok y, w')"
proof -
  obtain r w where p: "p = (r, w)" by fastforce
  show thesis using assms that unfolding p by (cases r) (auto simp: prod_eq_iff)
qed

lemma seq2_Ok:
  assumes "(case p of (rt, w) \<Rightarrow> case rt of (r, t) \<Rightarrow> case r of Inl err \<Rightarrow> f err t w | Inr x \<Rightarrow> g x t w) = (Ok y, w')"
    and "\<And>err t w. fst (f err t w) \<noteq> Ok y"
  obtains x t w where "p = ((Ok x, t), w)" "g x t w = (Ok y, w')"
proof -
  obtain r t w where p: "p = ((r, t), w)" by (metis prod.collapse)
  show thesis using assms that unfolding p by (cases r) (auto simp: prod_eq_iff)
qed

lemma dispatch_task_steps:
  assumes "dispatch_task e ctx i t p w = (Ok u, w')"
  obtains t1 t2 t3 w1 w2 w3 w4 w5 where
    "runOnBeforeDispatch e ctx t p w = ((Ok (), t1), w1)" "pinTaskToProplet e i (p_ID p) w1 = (Ok (), w2)"
    "persistTaskBeforeStart e (t1\<lparr>t_PropletID := p_ID p\<rparr>) w2 = ((Ok (), t2), w3)" "publishStart e t2 (p_ID p) w3 = (Ok (), w4)"
    "bumpPropletTaskCount e p 1 w4 = (Ok (), w5)" "markTaskRunning e t2 w5 = ((Ok (), t3), w')"
proof -
  show thesis
    using assms unfolding dispatch_task_def
    apply (rule seq2_Ok)
    apply simp
    apply (erule seq_Ok)
    apply simp
    apply (erule seq2_Ok)
    apply simp
    apply (erule seq_Ok)
    apply (simp add: case_prod_beta)
    apply (erule seq_Ok)
    apply (simp add: case_prod_beta)
    apply (erule seq2_Ok)
    apply (simp add: case_prod_beta)
    apply (rule that)
    apply simp_all
    done
qed

lemma dispatch_task_Ok:
  assumes "dispatch_task e ctx i t p w = (Ok u, w')" "world_inv e w" "task w i = Some t" "t_ID t = i"
  shows "pin w i = None" "pin w' = (pin w)(i \<mapsto> p_ID p)"
    "\<exists>env start now. task w' = (task w)(i \<mapsto> t\<lparr>t_Env := env, t_PropletID := p_ID p, t_State := Running,
       t_StartTime := start, t_UpdatedAt := now\<rparr>)"
    "proplet w' = (proplet w)(p_ID p \<mapsto> p\<lparr>p_TaskCount := bump_count (p_TaskCount p) 1\<rparr>)"
    "\<exists>s par. t_ID s = i \<and> w_sent w' = w_sent w @
       [\<lparr>m_topic = e_baseTopic e @ ''/control/manager/start'', m_payload = PStart (start_payload s (p_ID p) par)\<rparr>]"
proof -
  obtain t1 t2 t3 w1 w2 w3 w4 w5 where
    1: "runOnBeforeDispatch e ctx t p w = ((Ok (), t1), w1)" and 2: "pinTaskToProplet e i (p_ID p) w1 = (Ok (), w2)"
    and 3: "persistTaskBeforeStart e (t1\<lparr>t_PropletID := p_ID p\<rparr>) w2 = ((Ok (), t2), w3)"
    and 4: "publishStart e t2 (p_ID p) w3 = (Ok (), w4)"
    and 5: "bumpPropletTaskCount e p 1 w4 = (Ok (), w5)" and 6: "markTaskRunning e t2 w5 = ((Ok (), t3), w')"
    using assms(1) by (rule dispatch_task_steps)
  have r1: "reach e {Tasks} w w1" by (rule reach_result [OF 1]) (intro reach_intros reach_refl, simp)
  have r2: "reach e {Pins} w1 w2" by (rule reach_result [OF 2]) (intro reach_intros reach_refl, simp)
  have r3: "reach e {Tasks} w2 w3" by (rule reach_result [OF 3]) (intro reach_intros reach_refl, simp)
  have r4: "reach e {Sent} w3 w4" by (rule reach_result [OF 4]) (intro reach_intros reach_refl, simp)
  have r5: "reach e {Proplets} w4 w5" by (rule reach_result [OF 5]) (intro reach_intros reach_refl, simp)
  have r6: "reach e {Tasks} w5 w'" by (rule reach_result [OF 6]) (intro reach_intros reach_refl, simp)
  note inv = reach_inv [OF r1 assms(2)] reach_inv [OF r2] reach_inv [OF r3] reach_inv [OF r4] reach_inv [OF r5]
  have i1: "world_inv e w1" and i2: "world_inv e w2" and i3: "world_inv e w3" and i4: "world_inv e w4" and i5: "world_inv e w5"
    using inv by blast+
  note f1 = reach_frame [OF r1] reach_views [OF r1] and f2 = reach_frame [OF r2] reach_views [OF r2]
    and f3 = reach_frame [OF r3] reach_views [OF r3] and f4 = reach_frame [OF r4] reach_views [OF r4]
    and f5 = reach_frame [OF r5] reach_views [OF r5] and f6 = reach_frame [OF r6] reach_views [OF r6]
  note pinned = taskPropletRepo_Create_Ok [OF 2 [unfolded pinTaskToProplet_def] i1]
  show "pin w i = None" using pinned f1 by simp
  show "pin w' = (pin w)(i \<mapsto> p_ID p)" using pinned f1 f3 f4 f5 f6 by simp
  obtain env where t1: "t1 = t\<lparr>t_Env := env\<rparr>" and v1: "task w1 = task w \<or> task w1 = (task w)(i \<mapsto> t1)"
    using runOnBeforeDispatch_effect [OF 1] assms(3,4) by auto
  obtain now2 where t2: "t2 = t1\<lparr>t_PropletID := p_ID p, t_UpdatedAt := now2\<rparr>"
      and u2: "taskRepo_Update e t2 (tick w2) = (Ok (), w3)"
    using 3 by (auto simp: persistTaskBeforeStart_def time_Now_def Let_def split: prod.splits)
  have v3: "task w3 = (task w)(i \<mapsto> t2)"
    using taskRepo_Update_Ok [OF u2] i2 f2 v1 assms(4) t1 t2 by auto
  obtain start now3 where t3: "t3 = t2\<lparr>t_State := Running, t_StartTime := start, t_UpdatedAt := now3\<rparr>"
      and u3: "taskRepo_Update e t3 (tick (tick w5)) = (Ok (), w')"
    using 6 by (auto simp: markTaskRunning_def time_Now_def Let_def split: prod.splits)
  have "task w' = (task w)(i \<mapsto> t3)" using taskRepo_Update_Ok [OF u3] i5 f4 f5 v3 assms(4) t1 t2 t3 by auto
  then show "\<exists>env start now. task w' = (task w)(i \<mapsto> t\<lparr>t_Env := env, t_PropletID := p_ID p, t_State := Running,
       t_StartTime := start, t_UpdatedAt := now\<rparr>)"
    using t1 t2 t3 by (intro exI [of _ env] exI [of _ start] exI [of _ now3]) simp
  have "proplet w5 = (proplet w4)(p_ID p \<mapsto> p\<lparr>p_TaskCount := bump_count (p_TaskCount p) 1\<rparr>)"
    using propletRepo_Update_Ok [OF 5 [unfolded bumpPropletTaskCount_def] i4] by simp
  then show "proplet w' = (proplet w)(p_ID p \<mapsto> p\<lparr>p_TaskCount := bump_count (p_TaskCount p) 1\<rparr>)"
    using f1 f2 f3 f4 f6 by simp
  obtain par where "w_sent w4 = w_sent w3 @ [\<lparr>m_topic = e_baseTopic e @ ''/control/manager/start'',
      m_payload = PStart (start_payload t2 (p_ID p) par)\<rparr>]"
    using publishStart_Ok [OF 4] by blast
  then show "\<exists>s par. t_ID s = i \<and> w_sent w' = w_sent w @
       [\<lparr>m_topic = e_baseTopic e @ ''/control/manager/start'', m_payload = PStart (start_payload s (p_ID p) par)\<rparr>]"
    using f1 f2 f3 f5 f6 t1 t2 assms(4) by (intro exI [of _ t2] exI [of _ par]) simp
qed

section \<open>Placement\<close>

lemma slice_u64_mem: "slice_u64 xs a b = Ok page \<Longrightarrow> set page \<subseteq> set xs"
  by (auto simp: slice_u64_def split: if_splits dest: in_set_takeD in_set_dropD)

lemma storage_List_mem: "storage_List off lim s = Ok (page, n) \<Longrightarrow> set page \<subseteq> set (storage_values s)"
  unfolding storage_List_def Let_def storage_values_def set_map
  by (auto simp del: storage_keys_set split: if_splits sum.splits dest!: slice_u64_mem intro!: imageI)

lemma ListByAlive_mem:
  assumes "ListByAlive off lim True since s = Ok (page, n)" "proplets_inv s" "p \<in> set page"
  shows "proplet_view s (p_ID p) = Some p" "alive_since since p"
proof -
  obtain d m where d: "storage_List 0 MaxUint64 s = Ok (d, m)"
      and page: "set page \<subseteq> set (filter (alive_since since) (List.map_filter as_Proplet d))"
    using assms(1) by (auto simp: ListByAlive_def Let_def split: sum.splits if_splits dest!: slice_u64_mem)
  have "set (List.map_filter as_Proplet d) \<subseteq> set (typed_values as_Proplet s)"
    using storage_List_mem [OF d] by (auto simp: typed_values_def map_filter_def)
  with page assms(3) have "p \<in> set (typed_values as_Proplet s)" "alive_since since p" by auto
  then show "proplet_view s (p_ID p) = Some p" "alive_since since p" by (simp_all add: typed_values_mem [OF assms(2)])
qed

text \<open>A proplet as the service hands it out: a stored one, with the flag of its liveness refreshed.\<close>

definition known :: "world \<Rightarrow> Proplet \<Rightarrow> bool" where
  "known w p \<longleftrightarrow> (\<exists>q. proplet w (p_ID p) = Some q \<and> unflagged q = unflagged p)"

lemma known_reach: "reach e C w w' \<Longrightarrow> Proplets \<notin> C \<Longrightarrow> known w' p = known w p"
  by (simp add: known_def reach_views(2))

lemma known_set_alive:
  assumes "\<And>p. p \<in> set ps \<Longrightarrow> known w p" "q \<in> set (fst (set_alive e ps w'))"
  shows "known w q"
proof -
  have "unflagged q \<in> unflagged ` set ps" using arg_cong [OF unflagged_set_alive [of e ps w'], of set] assms(2) by auto
  then obtain p where p: "p \<in> set ps" "unflagged q = unflagged p" by blast
  have "p_ID q = p_ID p" using arg_cong [OF p(2), of p_ID] by (simp add: unflagged_def)
  then show ?thesis using assms(1) [OF p(1)] p(2) by (simp add: known_def)
qed

lemma active_loop_known:
  assumes "active_loop e since off acc w = (Ok ps, w')" "world_inv e w" "\<And>p. p \<in> set acc \<Longrightarrow> known w p" "q \<in> set ps"
  shows "known w q"
  using assms
proof (induction e since off acc w rule: active_loop.induct)
  case (1 e since off acc w)
  obtain page tot w1 where f: "propletRepo_ListByAlive e off activePageSize True since w = (Ok (page, tot), w1)"
    using "1.prems"(1) by (auto simp: active_loop.simps [of e since off] split: prod.splits sum.splits)
  obtain page' w2 where set: "set_alive e page w1 = (page', w2)" by fastforce
  have w1: "reach e {} w w1" using reach_read(7) [OF reach_refl] f by (metis snd_conv)
  have w2: "reach e {} w w2" using reach_set_alive [OF w1, of page] set by simp
  have "ListByAlive off activePageSize True since (w_proplets w) = Ok (page, tot)"
    using f by (auto simp: propletRepo_ListByAlive_def with_fault_def tick_def split: option.splits)
  then have "known w p" if "p \<in> set page" for p
    using ListByAlive_mem(1) world_invD(2) [OF "1.prems"(2)] that by (fastforce simp: known_def proplet_def)
  then have page': "known w p" if "p \<in> set page'" for p
    using known_set_alive [of page w p e w1] that set by simp
  note run = "1.prems"(1) [unfolded active_loop.simps [of e since off] f prod.case sum.case set Let_def]
  show ?case
  proof (cases "tot \<le> off + u64_len page \<or> page = []")
    case True
    then show ?thesis using run "1.prems"(3,4) page' by auto
  next
    case False
    have eq: "known w2 = known w" by (rule ext, rule known_reach [OF w2]) simp
    have "known w2 q"
      by (rule "1.IH" [OF f [symmetric] refl refl set [symmetric] refl refl False])
        (use run False "1.prems"(3,4) page' reach_inv [OF w2 "1.prems"(2)] in \<open>auto simp: eq\<close>)
    then show ?thesis by (simp add: eq)
  qed
qed

lemma choose_proplet_Ok:
  assumes "choose_proplet e t c w = (Ok p, w')" "world_inv e w"
  shows "known w p" "p_Alive p" "t_PropletID t = [] \<Longrightarrow> propletMatchesConstraints p c"
    "t_PropletID t \<noteq> [] \<Longrightarrow> p_ID p = t_PropletID t" "reach e {Sched} w w'"
proof -
  show "reach e {Sched} w w'"
    by (rule reach_result [OF assms(1)])
      (unfold choose_proplet_def, (assumption | rule reach_steps reach_intros reach_refl insertI1)+)
  have "known w p \<and> p_Alive p \<and> (t_PropletID t = [] \<longrightarrow> propletMatchesConstraints p c) \<and>
      (t_PropletID t \<noteq> [] \<longrightarrow> p_ID p = t_PropletID t)"
  proof (cases "t_PropletID t = []")
    case True
    with assms(1) have sel: "selectPropletWithConstraints e t c w = (Ok p, w')" by (simp add: choose_proplet_def)
    then obtain ps w1 where l: "listAllActiveProplets e w = (Ok ps, w1)"
        and s: "scheduler_SelectProplet t (filter (\<lambda>p. propletMatchesConstraints p c) ps) w1 = (Ok p, w')"
      by (auto simp: selectPropletWithConstraints_def Let_def split: prod.splits sum.splits if_splits)
    from s obtain s' where "SelectProplet t (filter (\<lambda>p. propletMatchesConstraints p c) ps) (w_scheduler w1) = (Ok p, s')"
      by (auto simp: scheduler_SelectProplet_def split: prod.splits)
    from rr.select_alive [OF this] have p: "p \<in> set ps" "propletMatchesConstraints p c" "p_Alive p" by auto
    have "known (tick w) p"
      by (rule active_loop_known [OF _ _ _ p(1)]) (use l assms(2) in \<open>auto simp: listAllActiveProplets_def time_Now_def\<close>)
    then show ?thesis using p True by (simp add: known_def)
  next
    case False
    then obtain q where q: "proplet w (t_PropletID t) = Some q" "p_ID q = t_PropletID t" "unflagged p = unflagged q" "p_Alive p"
      using assms(1) GetProplet_Ok [OF _ assms(2)]
      by (fastforce simp: choose_proplet_def split: prod.splits sum.splits if_splits)
    have "p_ID p = p_ID q" using arg_cong [OF q(3), of p_ID] by (simp add: unflagged_def)
    then show ?thesis using q False by (simp add: known_def)
  qed
  then show "known w p" "p_Alive p" "t_PropletID t = [] \<Longrightarrow> propletMatchesConstraints p c"
    "t_PropletID t \<noteq> [] \<Longrightarrow> p_ID p = t_PropletID t" by blast+
qed

section \<open>A successful start\<close>

definition dep_settled :: "world \<Rightarrow> string \<Rightarrow> bool" where
  "dep_settled w i \<longleftrightarrow> (\<exists>t. task w i = Some t \<and> t_State t \<in> {Completed, Failed, Skipped})"

lemma dep_settled_reach: "reach e C w w' \<Longrightarrow> Tasks \<notin> C \<Longrightarrow> dep_settled w' i = dep_settled w i"
  by (simp add: dep_settled_def reach_views(1))

text \<open>Dependencies that let a task start leave no trace: the coordinator is not called.\<close>

lemma deps_loop_Ok:
  assumes "deps_loop check e i k ds w = (Some (Ok u), w')" "world_inv e w"
  shows "list_all (dep_settled w) ds" "reach e {} w w'"
proof -
  have "list_all (dep_settled w) ds \<and> reach e {} w w'" using assms
  proof (induction ds arbitrary: w)
    case (Cons d ds)
    obtain r w1 where g: "GetTask e d w = (r, w1)" by fastforce
    then obtain t where r: "r = Ok t" using Cons.prems(1) by (cases r) auto
    note t = GetTask_Ok [OF g [unfolded r] Cons.prems(2)]
    have w1: "reach e {} w w1" using reach_queries(6) [OF reach_refl, of e "{}" w d] g by simp
    have st: "t_State t \<in> {Completed, Failed, Skipped}" and rest: "deps_loop check e i k ds w1 = (Some (Ok u), w')"
      using Cons.prems(1) by (auto simp: g r split: if_splits prod.splits option.splits)
    have "list_all (dep_settled w1) ds \<and> reach e {} w1 w'" by (rule Cons.IH [OF rest reach_inv [OF w1 Cons.prems(2)]])
    moreover have "dep_settled w1 = dep_settled w" by (rule ext, rule dep_settled_reach [OF w1]) simp
    moreover have "dep_settled w d" using t st by (auto simp: dep_settled_def)
    ultimately show ?case using reach_trans [OF w1] by simp
  qed simp
  then show "list_all (dep_settled w) ds" "reach e {} w w'" by blast+
qed

lemma StartTask_with_Ok:
  assumes "StartTask_with check e ctx i w = (Some (Ok u), w')" "world_inv e w"
  obtains t w1 where "\<not> w_shuttingDown w" "task w i = Some t" "t_ID t = i" "list_all (dep_settled w) (t_DependsOn t)" "reach e {} w w1"
    "t_Broadcast t \<Longrightarrow> start_broadcast e t w1 = (Ok u, w')"
    "\<not> t_Broadcast t \<Longrightarrow> \<exists>c p w2 w3. runOnBeforePropletSelect e ctx t w1 = (Ok c, w2) \<and> choose_proplet e t c w2 = (Ok p, w3) \<and>
       dispatch_task e ctx i t p w3 = (Ok u, w')"
proof -
  have run: "\<not> w_shuttingDown w" using assms(1) by (auto simp: StartTask_with_def split: if_splits)
  obtain t w0 where g: "GetTask e i w = (Ok t, w0)"
    using assms(1) run by (auto simp: StartTask_with_def split: prod.splits sum.splits)
  note t = GetTask_Ok [OF g assms(2)]
  let ?deps = "if t_DependsOn t \<noteq> [] then checkTaskDependencies (check ctx) e i t w0 else (Some (Ok ()), w0)"
  obtain w1 where d: "?deps = (Some (Ok ()), w1)"
    using assms(1) run by (auto simp: StartTask_with_def g split: prod.splits sum.splits option.splits)
  have inv0: "world_inv e w0" using assms(2) t(3) by simp
  have "list_all (dep_settled w0) (t_DependsOn t) \<and> reach e {} w0 w1"
    using d deps_loop_Ok [OF _ inv0] by (cases "t_DependsOn t = []") (auto simp: checkTaskDependencies_def)
  moreover have w0: "reach e {} w w0" unfolding t(3) by (intro reach_intros reach_refl)
  moreover have "dep_settled w0 = dep_settled w" by (rule ext, rule dep_settled_reach [OF w0]) simp
  ultimately have "list_all (dep_settled w) (t_DependsOn t)" "reach e {} w w1" using reach_trans [OF w0] by auto
  moreover note step = assms(1) [unfolded StartTask_with_def if_not_P [OF run] g prod.case sum.case d option.case]
  have "t_Broadcast t \<Longrightarrow> start_broadcast e t w1 = (Ok u, w')" using step by (auto split: prod.splits)
  moreover have "\<not> t_Broadcast t \<Longrightarrow> \<exists>c p w2 w3. runOnBeforePropletSelect e ctx t w1 = (Ok c, w2) \<and>
      choose_proplet e t c w2 = (Ok p, w3) \<and> dispatch_task e ctx i t p w3 = (Ok u, w')"
    using step by (auto split: prod.splits sum.splits)
  ultimately show thesis using that run t by blast
qed

lemma StartTask_started:
  assumes "StartTask n e ctx i w = (Some (Ok u), w')" "world_inv e w" "task w i = Some t" "\<not> t_Broadcast t"
  shows "\<exists>p env start now s par. known w p \<and> p_Alive p \<and> (t_PropletID t = [] \<or> p_ID p = t_PropletID t) \<and>
    pin w i = None \<and> pin w' = (pin w)(i \<mapsto> p_ID p) \<and>
    task w' = (task w)(i \<mapsto> t\<lparr>t_Env := env, t_PropletID := p_ID p, t_State := Running, t_StartTime := start, t_UpdatedAt := now\<rparr>) \<and>
    proplet w' = (proplet w)(p_ID p \<mapsto> p\<lparr>p_TaskCount := bump_count (p_TaskCount p) 1\<rparr>) \<and>
    t_ID s = i \<and> w_sent w' = w_sent w @
      [\<lparr>m_topic = e_baseTopic e @ ''/control/manager/start'', m_payload = PStart (start_payload s (p_ID p) par)\<rparr>]"
proof -
  obtain m where "n = Suc m" using assms(1) by (cases n) auto
  then obtain c p w1 w2 w3 where w1: "reach e {} w w1" and id: "t_ID t = i"
      and 2: "runOnBeforePropletSelect e ctx t w1 = (Ok c, w2)" and 3: "choose_proplet e t c w2 = (Ok p, w3)"
      and 4: "dispatch_task e ctx i t p w3 = (Ok u, w')"
    using assms by (auto elim!: StartTask_with_Ok)
  have "reach e {} w1 w2" by (rule reach_result [OF 2]) (intro reach_intros reach_refl)
  then have w2: "reach e {} w w2" by (rule reach_trans [OF w1])
  have inv2: "world_inv e w2" by (rule reach_inv [OF w2 assms(2)])
  note p = choose_proplet_Ok [OF 3 inv2]
  have w3: "reach e {Sched} w w3" by (rule reach_trans [OF reach_mono [OF w2] p(5)]) simp
  note f = reach_frame [OF w3] reach_views [OF w3]
  have "task w3 i = Some t" using f assms(3) by simp
  note d = dispatch_task_Ok [OF 4 reach_inv [OF w3 assms(2)] this id]
  have "known w p" using p(1) known_reach [OF w2] by simp
  then show ?thesis using d p(2,4) f by auto
qed

text \<open>A proplet with a heartbeat and three tasks, and a task that depends on a completed one.\<close>

definition ctx0 :: ctx where
  "ctx0 = \<lparr>cx_auth = None, cx_system = False\<rparr>"

definition start_world :: world where
  "start_world = snd (propletRepo_Create env0 (Proplet_zero\<lparr>p_ID := ''p'', p_Name := ''p'', p_AliveHistory := [0], p_TaskCount := 3\<rparr>)
     (snd (taskRepo_Create env0 (Task_zero\<lparr>t_ID := ''b'', t_DependsOn := [''a''], t_WorkflowID := ''f''\<rparr>)
     (snd (taskRepo_Create env0 (Task_zero\<lparr>t_ID := ''a'', t_State := Completed, t_WorkflowID := ''f''\<rparr>) NewService)))))"

lemma start_world_inv [simp]: "world_inv env0 start_world"
proof -
  have "reach env0 {Tasks, Proplets} NewService start_world"
    unfolding start_world_def by (intro reach_write reach_refl) simp_all
  then show ?thesis by (rule reach_inv) simp
qed

lemma start_world_tasks [simp]:
  "task start_world ''b'' = Some (Task_zero\<lparr>t_ID := ''b'', t_DependsOn := [''a''], t_WorkflowID := ''f''\<rparr>)"
  by code_simp

lemma start_world_run [simp]: "fst (StartTask 1 env0 ctx0 ''b'' start_world) = Some (Ok ())"
  by code_simp

text \<open>
  C1. A task that starts is placed on one proplet, once. When \<open>StartTask\<close> succeeds on a task that
  is not broadcast, the task had no proplet assigned before; the chosen proplet is a stored one,
  alive, and the one the task names if it names one; the assignment is recorded; the stored task
  becomes running on that proplet, with at most its environment changed besides; the count of
  tasks of the proplet is bumped; exactly one start message is sent; and every other task,
  assignment and proplet is as before.
\<close>

theorem StartTask_effects:
  assumes "StartTask n e ctx i w = (Some (Ok u), w')" "world_inv e w" "task w i = Some t" "\<not> t_Broadcast t"
  shows "\<exists>p env start now s par. known w p \<and> p_Alive p \<and> (t_PropletID t = [] \<or> p_ID p = t_PropletID t) \<and>
    pin w i = None \<and> pin w' = (pin w)(i \<mapsto> p_ID p) \<and>
    task w' = (task w)(i \<mapsto> t\<lparr>t_Env := env, t_PropletID := p_ID p, t_State := Running, t_StartTime := start, t_UpdatedAt := now\<rparr>) \<and>
    proplet w' = (proplet w)(p_ID p \<mapsto> p\<lparr>p_TaskCount := bump_count (p_TaskCount p) 1\<rparr>) \<and>
    t_ID s = i \<and> w_sent w' = w_sent w @
      [\<lparr>m_topic = e_baseTopic e @ ''/control/manager/start'', m_payload = PStart (start_payload s (p_ID p) par)\<rparr>]"
  using assms by (rule StartTask_started)

lemma StartTask_effects_witness:
  "\<exists>p env start now s par. known start_world p \<and> p_Alive p \<and> ([] = ([] :: string) \<or> p_ID p = []) \<and>
    pin start_world ''b'' = None \<and> pin (snd (StartTask 1 env0 ctx0 ''b'' start_world)) = (pin start_world)(''b'' \<mapsto> p_ID p) \<and>
    task (snd (StartTask 1 env0 ctx0 ''b'' start_world)) = (task start_world)(''b'' \<mapsto>
      (Task_zero\<lparr>t_ID := ''b'', t_DependsOn := [''a''], t_WorkflowID := ''f''\<rparr>)
        \<lparr>t_Env := env, t_PropletID := p_ID p, t_State := Running, t_StartTime := start, t_UpdatedAt := now\<rparr>) \<and>
    proplet (snd (StartTask 1 env0 ctx0 ''b'' start_world)) =
      (proplet start_world)(p_ID p \<mapsto> p\<lparr>p_TaskCount := bump_count (p_TaskCount p) 1\<rparr>) \<and>
    t_ID s = ''b'' \<and> w_sent (snd (StartTask 1 env0 ctx0 ''b'' start_world)) = w_sent start_world @
      [\<lparr>m_topic = e_baseTopic env0 @ ''/control/manager/start'', m_payload = PStart (start_payload s (p_ID p) par)\<rparr>]"
  using StartTask_effects [OF _ start_world_inv start_world_tasks,
      of 1 ctx0 "()" "snd (StartTask 1 env0 ctx0 ''b'' start_world)"] start_world_run
  by (simp add: prod_eq_iff Task_zero_def del: One_nat_def StartTask.simps)

text \<open>
  C5. A task starts only when it may: whenever \<open>StartTask\<close> succeeds, broadcast or not, the service
  is not shutting down, the task is stored, and each of its dependencies is a stored task that
  has completed, failed or been skipped.
\<close>

theorem StartTask_safe:
  assumes "StartTask n e ctx i w = (Some (Ok u), w')" "world_inv e w"
  shows "\<not> w_shuttingDown w \<and> (\<exists>t. task w i = Some t \<and> list_all (dep_settled w) (t_DependsOn t))"
proof -
  obtain m where "n = Suc m" using assms(1) by (cases n) auto
  then show ?thesis using assms by (auto elim!: StartTask_with_Ok)
qed

lemma StartTask_safe_witness:
  "\<not> w_shuttingDown start_world \<and> (\<exists>t. task start_world ''b'' = Some t \<and> list_all (dep_settled start_world) (t_DependsOn t))"
  using StartTask_safe [of 1 env0 ctx0 "''b''" start_world "()" "snd (StartTask 1 env0 ctx0 ''b'' start_world)"] start_world_run
  by (simp add: prod_eq_iff del: One_nat_def StartTask.simps start_world_tasks)

section \<open>A start that fails late, and a start that does not return\<close>



text \<open>
  A workflow in which a failed and an interrupted task precede a third, which runs if one of
  them failed. An interrupted task counts as finished for the coordinator but not for the service.
\<close>

definition stuck_task :: Task where
  "stuck_task = Task_zero\<lparr>t_ID := ''c'', t_DependsOn := [''a'', ''b''], t_WorkflowID := ''f'', t_RunIf := RunIfFailure\<rparr>"

definition stuck_world :: world where
  "stuck_world = snd (taskRepo_Create env0 stuck_task
     (snd (taskRepo_Create env0 (Task_zero\<lparr>t_ID := ''b'', t_State := Interrupted, t_WorkflowID := ''f''\<rparr>)
     (snd (taskRepo_Create env0 (Task_zero\<lparr>t_ID := ''a'', t_State := Failed, t_WorkflowID := ''f''\<rparr>) NewService)))))"

text \<open>What the calls of one round answer, in every world that agrees with it up to the number of calls made.\<close>

definition with_step :: "nat \<Rightarrow> world" where
  "with_step n = stuck_world\<lparr>w_step := n\<rparr>"

lemma tick_with_step [simp]: "tick (with_step n) = with_step (Suc n)"
  by (simp add: with_step_def tick_def)






section \<open>Starting and stopping\<close>

lemma sint_small: "uint (c :: u64) < 2 ^ 63 \<Longrightarrow> sint c = uint c"
  unfolding sint_uint by (rule signed_take_bit_int_eq_self, rule order_trans [OF _ uint_ge_0]) simp_all

lemma bump_count_back:
  assumes "unat c < 2 ^ 63 - 1"
  shows "bump_count (bump_count c 1) (- 1) = c"
proof -
  have "int (unat c) < int (2 ^ 63 - 1)" using assms by (simp only: of_nat_less_iff)
  then have c: "uint c < 2 ^ 63 - 1" by simp
  have "uint c + uint (1 :: u64) < 2 ^ LENGTH(64)" using c by simp
  then have c1: "uint (c + 1) = uint c + 1" using uint_add_lem [of c 1] by simp
  have s1: "sint (c + 1) = uint c + 1" using sint_small [of "c + 1"] c c1 by simp
  have "bump_count c 1 = word_of_int (uint (c + 1))"
    unfolding bump_count_def c1 using uint_ge_0 [of c] by (simp add: s1 max_absorb1)
  then have up: "bump_count c 1 = c + 1" by (simp only: word_of_int_uint)
  have s0: "sint c = uint c" using sint_small [of c] c by simp
  have "c + 1 + word_of_int (- 1) = c" by (simp only: wi_hom_syms word_m1_wi) simp
  then have "bump_count (c + 1) (- 1) = word_of_int (max (sint c) 0)" by (simp only: bump_count_def)
  also have "\<dots> = c" using uint_ge_0 [of c] by (simp add: s0 max_absorb1)
  finally show ?thesis by (simp only: up)
qed

text \<open>Storage and broker never fail.\<close>

definition quiet :: "env \<Rightarrow> bool" where
  "quiet e \<longleftrightarrow> reliable e \<and> (\<forall>n m. e_publish e n m = None)"

lemma quiet_env0 [simp]: "quiet env0"
  by (simp add: quiet_def) (simp add: env0_def)

lemma quiet_fault [simp]: "quiet e \<Longrightarrow> e_fault e n = None"
  by (simp add: quiet_def)

lemma Publish_quiet: "quiet e \<Longrightarrow> Publish e m w = (Ok (), tick (w\<lparr>w_sent := w_sent w @ [m]\<rparr>))"
  by (simp add: Publish_def quiet_def)

lemma views_sent [simp]:
  "task (w\<lparr>w_sent := x\<rparr>) = task w" "proplet (w\<lparr>w_sent := x\<rparr>) = proplet w" "pin (w\<lparr>w_sent := x\<rparr>) = pin w"
  "job (w\<lparr>w_sent := x\<rparr>) = job w" "world_inv e (w\<lparr>w_sent := x\<rparr>) = world_inv e w"
  by (simp_all add: task_def proplet_def pin_def job_def world_inv_def)

lemma StopTask_run:
  assumes e: "quiet e" and inv: "world_inv e w" and t: "task w i = Some t" "\<not> t_Broadcast t"
    and p: "pin w i = Some pid" "proplet w pid = Some q"
  shows "\<exists>now w'. StopTask e i w = (Ok (), w') \<and> pin w' = (pin w)(i := None) \<and> task w' = task w \<and>
    proplet w' = (proplet w)(pid \<mapsto> (SetAlive now q)\<lparr>p_TaskCount := bump_count (p_TaskCount q) (- 1)\<rparr>)"
proof -
  let ?now = "e_now e (Suc (w_step (tick (tick w))))"
  let ?q = "(SetAlive ?now q)\<lparr>p_TaskCount := bump_count (p_TaskCount q) (- 1)\<rparr>"
  have id: "p_ID q = pid" using typed_view_key [OF world_invD(2) [OF inv]] p(2) by (auto simp: proplet_def)
  have i: "i \<noteq> []" by (rule pin_key [OF inv p(1)])
  define m where "m = stop_message e [(''id'', AString (t_ID t)), (keyBroadcast, ABool False), (''proplet_id'', AString pid)]"
  define w1 where "w1 = tick (tick (tick (tick w)))"
  define w2 where "w2 = tick (w1\<lparr>w_sent := w_sent w1 @ [m]\<rparr>)"
  have inv2: "world_inv e w2" and v2: "pin w2 = pin w" "task w2 = task w" "proplet w2 = proplet w"
    using inv by (simp_all add: w1_def w2_def)
  obtain r w3 where del: "taskPropletRepo_Delete e i w2 = (r, w3)" by fastforce
  have r: "r = Ok ()" and v3: "pin w3 = (pin w)(i := None)"
    using taskPropletRepo_Delete_view [of e w2 i] e inv2 i del v2 by auto
  have w3: "reach e {Pins} w2 w3" by (rule reach_result [OF del]) (intro reach_intros reach_refl, simp)
  note f3 = reach_frame [OF w3] reach_views [OF w3]
  have inv3: "world_inv e w3" by (rule reach_inv [OF w3 inv2])
  obtain w4 where up: "propletRepo_Update e ?q w3 = (Ok (), w4)"
    using propletRepo_Update_run(1) [of e w3 ?q] e inv3 p(2) f3 v2 id by (cases "propletRepo_Update e ?q w3") auto
  have w4: "reach e {Proplets} w3 w4" by (rule reach_result [OF up]) (intro reach_intros reach_refl, simp)
  note f4 = reach_frame [OF w4] reach_views [OF w4]
  have "proplet w4 = (proplet w)(pid \<mapsto> ?q)"
    using propletRepo_Update_Ok [OF up inv3] f3 v2 id by simp
  moreover have "StopTask e i w = (Ok (), w4)"
    using e inv t p del r up
    by (simp add: StopTask_def GetTask_run taskPropletRepo_Get_run GetProplet_run Publish_quiet bumpPropletTaskCount_def
        m_def [symmetric] w1_def [symmetric] w2_def [symmetric])
  ultimately show ?thesis using v3 v2 f3 f4 by auto
qed

text \<open>
  C13. Stopping undoes starting: when a task has started on a proplet, stopping it succeeds, sends
  the stop command and gives back the assignment and the count of tasks, so that assignments and
  proplets are as they were before the start, up to the flags of liveness. The stored task stays
  as the start left it, running, until its proplet reports.
\<close>

theorem start_stop_roundtrip:
  assumes "StartTask n e ctx i w = (Some (Ok u), w')" "world_inv e w" "task w i = Some t" "\<not> t_Broadcast t" "quiet e"
    and "\<forall>j p. proplet w j = Some p \<longrightarrow> unat (p_TaskCount p) < 2 ^ 63 - 1"
  shows "\<exists>w''. StopTask e i w' = (Ok (), w'') \<and> pin w'' = pin w \<and> task w'' = task w' \<and>
    (\<forall>j. map_option unflagged (proplet w'' j) = map_option unflagged (proplet w j))"
proof -
  obtain p env start now where p: "known w p" and pin: "pin w i = None" "pin w' = (pin w)(i \<mapsto> p_ID p)"
      and t': "task w' = (task w)(i \<mapsto> t\<lparr>t_Env := env, t_PropletID := p_ID p, t_State := Running, t_StartTime := start, t_UpdatedAt := now\<rparr>)"
      and pw: "proplet w' = (proplet w)(p_ID p \<mapsto> p\<lparr>p_TaskCount := bump_count (p_TaskCount p) 1\<rparr>)"
    using StartTask_started [OF assms(1-4)] by blast
  have "reach e start_parts w w'"
    by (rule reach_result [OF assms(1)]) (intro reach_StartTask reach_refl order_refl)
  then have inv: "world_inv e w'" using assms(2) by (rule reach_inv)
  obtain q where q: "proplet w (p_ID p) = Some q" "unflagged q = unflagged p" using p by (auto simp: known_def)
  have "p_TaskCount p = p_TaskCount q" using arg_cong [OF q(2), of p_TaskCount] by (simp add: unflagged_def)
  then have "unat (p_TaskCount p) < 2 ^ 63 - 1" using assms(6) q(1) by metis
  then have undo: "bump_count (bump_count (p_TaskCount p) 1) (- 1) = p_TaskCount p" by (rule bump_count_back)
  let ?p = "p\<lparr>p_TaskCount := bump_count (p_TaskCount p) 1\<rparr>"
  obtain now' w'' where stop: "StopTask e i w' = (Ok (), w'')" "pin w'' = (pin w')(i := None)" "task w'' = task w'"
      "proplet w'' = (proplet w')(p_ID p \<mapsto> (SetAlive now' ?p)\<lparr>p_TaskCount := bump_count (p_TaskCount ?p) (- 1)\<rparr>)"
    using StopTask_run [OF assms(5) inv, of i "the (task w' i)" "p_ID p" ?p] assms(4) pin t' pw by auto
  have "unflagged ((SetAlive now' ?p)\<lparr>p_TaskCount := p_TaskCount p\<rparr>) = unflagged p"
    by (simp add: unflagged_def SetAlive_def)
  then have "map_option unflagged (proplet w'' j) = map_option unflagged (proplet w j)" for j
    using stop(4) q undo pw by simp
  moreover have "pin w'' = pin w" using stop(2) pin by (simp add: fun_eq_iff)
  ultimately show ?thesis using stop(1,3) by blast
qed

lemma start_stop_roundtrip_witness:
  "\<exists>w''. StopTask env0 ''b'' (snd (StartTask 1 env0 ctx0 ''b'' start_world)) = (Ok (), w'') \<and> pin w'' = pin start_world \<and>
    task w'' = task (snd (StartTask 1 env0 ctx0 ''b'' start_world)) \<and>
    (\<forall>j. map_option unflagged (proplet w'' j) = map_option unflagged (proplet start_world j))"
proof (rule start_stop_roundtrip [OF _ start_world_inv start_world_tasks _ quiet_env0])
  show "StartTask 1 env0 ctx0 ''b'' start_world = (Some (Ok ()), snd (StartTask 1 env0 ctx0 ''b'' start_world))"
    using start_world_run by (simp add: prod_eq_iff del: One_nat_def StartTask.simps)
  show "\<forall>j p. proplet start_world j = Some p \<longrightarrow> unat (p_TaskCount p) < 2 ^ 63 - 1"
  proof (intro allI impI)
    fix j p assume "proplet start_world j = Some p"
    moreover have "w_proplets start_world = [(''p'', DProplet (Proplet_zero\<lparr>p_ID := ''p'', p_Name := ''p'', p_AliveHistory := [0], p_TaskCount := 3\<rparr>))]"
      by code_simp
    ultimately have "p_TaskCount p = 3" by (auto simp: proplet_def typed_view_def split: if_splits)
    then show "unat (p_TaskCount p) < 2 ^ 63 - 1" by simp
  qed
qed (simp add: Task_zero_def)

end
