(* ===== verification/StartEnds.thy ===== *)
theory StartEnds
  imports StartLaws
begin

text \<open>
  When starting a task returns. The service and the coordinator call each other; unless a task
  was interrupted, the second call finds the dependencies settled and goes no deeper. The proof
  follows the coordinator through the ready tasks, with a calculus for operations that change
  one stored task only.
\<close>

section \<open>Operations on one task\<close>

text \<open>From \<open>w0\<close> to \<open>w\<close> no stored task but \<open>i\<close> has changed.\<close>

definition only :: "env \<Rightarrow> string \<Rightarrow> world \<Rightarrow> world \<Rightarrow> bool" where
  "only e i w0 w \<longleftrightarrow> reach e UNIV w0 w \<and> (\<forall>j. j \<noteq> i \<longrightarrow> task w j = task w0 j)"

lemma only_refl [simp]: "only e i w w"
  by (simp add: only_def)

lemma only_trans: "only e i w w' \<Longrightarrow> only e i w' w'' \<Longrightarrow> only e i w w''"
  using reach_trans by (auto simp: only_def)

lemma only_reach: "only e i w0 w \<Longrightarrow> reach e C w w' \<Longrightarrow> Tasks \<notin> C \<Longrightarrow> only e i w0 w'"
  using reach_trans [OF _ reach_mono] by (auto simp: only_def reach_views(1))

lemma only_inv: "only e i w0 w \<Longrightarrow> world_inv e w0 \<Longrightarrow> world_inv e w"
  unfolding only_def using reach_invU by blast

lemma only_Update:
  assumes "only e i w0 w" "world_inv e w0" "t_ID t = i"
  shows "only e i w0 (snd (taskRepo_Update e t w))"
proof -
  have "reach e UNIV w0 (snd (taskRepo_Update e t w))"
    using assms(1) by (intro reach_write) (simp_all add: only_def)
  then show ?thesis using taskRepo_Update_view [OF only_inv [OF assms(1,2)], of t] assms by (auto simp: only_def)
qed

text \<open>The rules take an operation on a task apart; results that hold the task keep its identifier.\<close>

lemma only_case_task:
  assumes "only e i w0 (snd p)" "t_ID (snd (fst p)) = i"
    and "\<And>r t w. only e i w0 w \<Longrightarrow> t_ID t = i \<Longrightarrow> only e i w0 (snd (g r t w))"
  shows "only e i w0 (snd (case p of (rt, w) \<Rightarrow> case rt of (r, t) \<Rightarrow> g r t w))"
  using assms by (simp add: case_prod_beta)

lemma only_case_state:
  "only e i w0 (snd p) \<Longrightarrow> (\<And>r w. only e i w0 w \<Longrightarrow> only e i w0 (snd (g r w))) \<Longrightarrow>
   only e i w0 (snd (case p of (r, w) \<Rightarrow> g r w))"
  by (simp add: case_prod_beta)

lemma only_case_sum:
  "(\<And>x. only e i w0 (snd (f x))) \<Longrightarrow> (\<And>y. only e i w0 (snd (g y))) \<Longrightarrow>
   only e i w0 (snd (case s of Inl x \<Rightarrow> f x | Inr y \<Rightarrow> g y))"
  by (cases s) simp_all

lemma only_pair: "only e i w0 w \<Longrightarrow> only e i w0 (snd (r, w))"
  by simp

lemma only_if: "only e i w0 (snd f) \<Longrightarrow> only e i w0 (snd g) \<Longrightarrow> only e i w0 (snd (if b then f else g))"
  by simp

lemma only_calls:
  assumes "only e i w0 w"
  shows "only e i w0 (snd (time_Now e w))" "only e i w0 (snd (Publish e m w))"
    "only e i w0 (snd (taskPropletRepo_Delete e j w))" "only e i w0 (snd (pinTaskToProplet e j pid w))"
    "only e i w0 (snd (bumpPropletTaskCount e p d w))" "only e i w0 (snd (publishStart e t pid w))"
    "only e i w0 (snd (publishStop e t pid w))" "only e i w0 (snd (runOnBeforePropletSelect e ctx t w))"
    "only e i w0 (snd (selectPropletWithConstraints e t c w))" "only e i w0 (snd (GetProplet e j w))"
  by (rule only_reach [OF assms, where C = "- {Tasks}"], (rule reach_refl reach_intros | simp)+)+

lemma task_results_ID:
  "t_ID (snd (fst (persistTaskBeforeStart e t w))) = t_ID t" "t_ID (snd (fst (markTaskRunning e t w))) = t_ID t"
  by (simp_all add: persistTaskBeforeStart_def markTaskRunning_def Let_def time_Now_def case_prod_beta)

lemma share_env_other: "j \<noteq> i \<Longrightarrow> task (share_env i env w) j = task w j"
  by (simp add: share_env_def task_def task_view_def typed_view_def update_conv' split: option.splits dval.splits)

lemma runOnBeforeDispatch_task:
  assumes "runOnBeforeDispatch e ctx t p w = ((r, t'), w')"
  shows "t_ID t' = t_ID t" "j \<noteq> t_ID t \<Longrightarrow> task w' j = task w j"
  using assms share_env_other [of j "t_ID t" "t_Env t'" w]
  by (auto simp: runOnBeforeDispatch_def Let_def task_set_step dest!: dispatch_loop_frame split: option.splits prod.splits if_splits)

lemma runOnBeforeDispatch_ID: "t_ID (snd (fst (runOnBeforeDispatch e ctx t p w))) = t_ID t"
  using runOnBeforeDispatch_task(1) [of e ctx t p w] by (metis prod.collapse)

lemma only_task_calls:
  assumes "only e i w0 w" "world_inv e w0" "t_ID t = i"
  shows "only e i w0 (snd (persistTaskBeforeStart e t w))" "only e i w0 (snd (markTaskRunning e t w))"
    "only e i w0 (snd (fail_task e t what err w))" "only e i w0 (snd (runOnBeforeDispatch e ctx t p w))"
proof -
  have tick: "only e i w0 (tick w)" "only e i w0 (tick (tick w))"
    using only_reach [OF assms(1), of "{}"] by (simp_all add: reach_intros)
  show "only e i w0 (snd (persistTaskBeforeStart e t w))" "only e i w0 (snd (markTaskRunning e t w))"
    "only e i w0 (snd (fail_task e t what err w))"
    using only_Update [OF tick(1) assms(2)] only_Update [OF tick(2) assms(2)] assms(3)
    by (simp_all add: persistTaskBeforeStart_def markTaskRunning_def fail_task_def Let_def time_Now_def case_prod_beta)
  obtain r t' w' where run: "runOnBeforeDispatch e ctx t p w = ((r, t'), w')" by (metis prod.collapse)
  have "reach e {Tasks} w w'" by (rule reach_result [OF run]) (intro reach_intros reach_refl, simp)
  then have "reach e UNIV w w'" by (rule reach_mono) simp
  then show "only e i w0 (snd (runOnBeforeDispatch e ctx t p w))"
    using runOnBeforeDispatch_task(2) [OF run] assms run reach_trans by (auto simp: only_def)
qed

lemma dispatch_task_only:
  assumes "only e i w0 w" "world_inv e w0" "t_ID t = i"
  shows "only e i w0 (snd (dispatch_task e ctx j t p w))"
  unfolding dispatch_task_def
  by (assumption | rule assms only_case_task only_task_calls only_calls only_case_sum only_pair only_if
      | simp add: task_results_ID runOnBeforeDispatch_ID assms
      | rule only_case_state)+

section \<open>Starting a task whose dependencies are settled\<close>

lemma start_tail_only:
  assumes "only e i w0 w" "world_inv e w0" "t_ID t = i"
  shows "only e i w0 (snd (start_broadcast e t w))" "only e i w0 (snd (choose_proplet e t c w))"
  unfolding start_broadcast_def choose_proplet_def
  by (assumption | rule assms only_case_task only_task_calls only_calls only_case_sum only_pair only_if
      | simp add: task_results_ID assms only_calls | rule only_case_state)+

lemma deps_loop_settled:
  assumes "world_inv e w" "list_all (dep_settled w) ds"
  shows "fst (deps_loop check e i k ds w) \<noteq> None \<and> reach e {} w (snd (deps_loop check e i k ds w))"
  using assms
proof (induction ds arbitrary: w)
  case (Cons d ds)
  obtain r w1 where g: "GetTask e d w = (r, w1)" by fastforce
  have w1: "reach e {} w w1" using reach_queries(6) [OF reach_refl, of e "{}" w d] g by simp
  show ?case
  proof (cases r)
    case (Inl err)
    then show ?thesis using g w1 by simp
  next
    case (Inr t)
    have "task w d = Some t" using GetTask_Ok(1) [OF g [unfolded Inr] Cons.prems(1)] .
    then have st: "t_State t \<in> {Completed, Failed, Skipped}" using Cons.prems(2) by (simp add: dep_settled_def)
    have "list_all (dep_settled w1) ds"
      using Cons.prems(2) dep_settled_reach [OF w1] by (simp add: list_all_iff)
    from Cons.IH [OF reach_inv [OF w1 Cons.prems(1)] this] show ?thesis
      using g Inr st reach_trans [OF w1] by auto
  qed
qed simp

definition deps_ready :: "world \<Rightarrow> string \<Rightarrow> bool" where
  "deps_ready w i \<longleftrightarrow> (\<forall>t. task w i = Some t \<longrightarrow> list_all (dep_settled w) (t_DependsOn t))"

lemma deps_ready_reach: "reach e C w w' \<Longrightarrow> Tasks \<notin> C \<Longrightarrow> deps_ready w' i = deps_ready w i"
  using dep_settled_reach [of e C w w'] by (simp add: deps_ready_def reach_views(1) list_all_iff)

lemma StartTask_with_settled:
  assumes inv: "world_inv e w" and ready: "deps_ready w i"
  shows "fst (StartTask_with check e ctx i w) \<noteq> None \<and> only e i w (snd (StartTask_with check e ctx i w))"
proof (cases "w_shuttingDown w")
  case False
  obtain r w1 where g: "GetTask e i w = (r, w1)" by fastforce
  have w1: "reach e {} w w1" using reach_queries(6) [OF reach_refl, of e "{}" w i] g by simp
  show ?thesis
  proof (cases r)
    case (Inl err)
    then show ?thesis using False g only_reach [OF only_refl w1] by (simp add: StartTask_with_def)
  next
    case (Inr t)
    note t = GetTask_Ok [OF g [unfolded Inr] inv]
    let ?d = "if t_DependsOn t \<noteq> [] then checkTaskDependencies (check ctx) e i t w1 else (Some (Ok ()), w1)"
    have "list_all (dep_settled w1) (t_DependsOn t)"
      using ready t(1) dep_settled_reach [OF w1] by (simp add: deps_ready_def list_all_iff)
    then have d: "fst ?d \<noteq> None" "reach e {} w1 (snd ?d)"
      using deps_loop_settled [OF reach_inv [OF w1 inv]] by (simp_all add: checkTaskDependencies_def)
    obtain x w2 where d': "?d = (Some x, w2)" using d(1) by (cases ?d) auto
    have o2: "only e i w w2" using only_reach [OF only_refl reach_trans [OF w1 d(2)]] d' by simp
    have step: "StartTask_with check e ctx i w = (case x of Err err \<Rightarrow> (Some (Err err), w2)
      | Ok _ \<Rightarrow> if t_Broadcast t then case start_broadcast e t w2 of (r, w) \<Rightarrow> (Some r, w)
          else case runOnBeforePropletSelect e ctx t w2 of
            (Err err, w) \<Rightarrow> (Some (Err err), w)
          | (Ok constraints, w) \<Rightarrow>
              (case choose_proplet e t constraints w of
                 (Err err, w) \<Rightarrow> (Some (Err err), w)
               | (Ok p, w) \<Rightarrow> (case dispatch_task e ctx i t p w of (r, w) \<Rightarrow> (Some r, w))))"
      unfolding StartTask_with_def using False g Inr d' by simp
    have "fst (StartTask_with check e ctx i w) \<noteq> None"
      unfolding step by (auto split: sum.splits prod.splits)
    moreover have "only e i w (snd (StartTask_with check e ctx i w))"
      unfolding step
      by (assumption | rule o2 inv t(2) only_calls dispatch_task_only start_tail_only only_case_sum only_pair only_if
          only_case_state)+
    ultimately show ?thesis by blast
  qed
qed (simp add: StartTask_with_def)

lemma pm_StartTask_settled:
  assumes inv: "world_inv e w" and ready: "deps_ready w i"
  shows "fst (pm_StartTask_with (StartTask (Suc n) e) e ctx i w) \<noteq> None \<and>
    only e i w (snd (pm_StartTask_with (StartTask (Suc n) e) e ctx i w))"
proof -
  obtain r w1 where g: "GetTask e i w = (r, w1)" by fastforce
  have w1: "reach e {} w w1" using reach_queries(6) [OF reach_refl, of e "{}" w i] g by simp
  show ?thesis
  proof (cases r)
    case (Inl err)
    then show ?thesis using g only_reach [OF only_refl w1] by (simp add: pm_StartTask_with_def)
  next
    case (Inr t)
    obtain a w2 where a: "authorize e ctx ActionStart (NewTaskInfo t) w1 = (a, w2)" by fastforce
    have "reach e {} w w2" by (rule reach_result [OF a]) (intro reach_intros w1)
    then have w2: "world_inv e w2" "deps_ready w2 i" "only e i w w2"
      using reach_inv inv ready deps_ready_reach only_reach [OF only_refl] by auto
    obtain s w3 where s: "StartTask (Suc n) e ctx i w2 = (Some s, w3)" and "only e i w2 w3"
      using StartTask_with_settled [OF w2(1,2), of "CheckAndStart_with (pm_StartTask_with (StartTask n e) e) e" ctx]
      by (cases "StartTask (Suc n) e ctx i w2") (auto simp: case_prod_beta)
    then have w3: "only e i w w3" using only_trans [OF w2(3)] by blast
    then have "only e i w (snd (notifyStart e (NewTaskInfo t) w3))"
      by (rule only_reach [where C = "{Notified}"]) (intro reach_intros reach_refl, simp_all)
    then show ?thesis using w2(3) w3 g Inr a s
      by (simp add: pm_StartTask_with_def case_prod_beta split: sum.splits del: StartTask.simps)
  qed
qed

section \<open>The coordinator\<close>

text \<open>The tasks still to be visited: their dependencies are settled and not among them.\<close>

definition ready_inv :: "world \<Rightarrow> Task list \<Rightarrow> bool" where
  "ready_inv w ts \<longleftrightarrow> distinct (map t_ID ts) \<and> (\<forall>t\<in>set ts. (\<exists>s. task w (t_ID t) = Some s \<and> t_DependsOn s = t_DependsOn t) \<and>
     (\<forall>d\<in>set (t_DependsOn t). dep_settled w d \<and> d \<notin> t_ID ` set ts))"

lemma ready_inv_tail:
  assumes "ready_inv w (t # ts)" "only e (t_ID t) w w'"
  shows "ready_inv w' ts"
proof -
  have same: "task w' j = task w j" if "j \<noteq> t_ID t" for j using assms(2) that by (simp add: only_def)
  have ids: "t_ID t \<notin> t_ID ` set ts" "distinct (map t_ID ts)" using assms(1) by (simp_all add: ready_inv_def)
  have "(\<exists>s. task w' (t_ID u) = Some s \<and> t_DependsOn s = t_DependsOn u) \<and>
      (\<forall>d\<in>set (t_DependsOn u). dep_settled w' d \<and> d \<notin> t_ID ` set ts)" if u: "u \<in> set ts" for u
  proof -
    have old: "\<exists>s. task w (t_ID u) = Some s \<and> t_DependsOn s = t_DependsOn u"
        "\<forall>d\<in>set (t_DependsOn u). dep_settled w d \<and> d \<notin> t_ID ` set (t # ts)"
      using assms(1) u by (simp_all add: ready_inv_def)
    have "task w' (t_ID u) = task w (t_ID u)" using ids(1) imageI [OF u, of t_ID] by (intro same) metis
    moreover have "dep_settled w' d" if "d \<in> set (t_DependsOn u)" for d
      using old(2) that same [of d] by (simp add: dep_settled_def)
    ultimately show ?thesis using old by simp
  qed
  then show ?thesis using ids(2) unfolding ready_inv_def by blast
qed

lemma ready_inv_head: "ready_inv w (t # ts) \<Longrightarrow> deps_ready w (t_ID t)"
  by (auto simp: ready_inv_def deps_ready_def list_all_iff)

lemma ready_loop_returns:
  assumes start: "\<And>i w. world_inv e w \<Longrightarrow> deps_ready w i \<Longrightarrow> fst (start i w) \<noteq> None \<and> only e i w (snd (start i w))"
  shows "world_inv e w \<Longrightarrow> ready_inv w ts \<Longrightarrow> fst (ready_loop start e m ts w) \<noteq> None"
proof (induction ts arbitrary: w)
  case (Cons t ts)
  note tail = ready_inv_tail [OF Cons.prems(2)]
  obtain s w1 where s: "start (t_ID t) w = (Some s, w1)" "only e (t_ID t) w w1"
    using start [OF Cons.prems(1) ready_inv_head [OF Cons.prems(2)]] by (cases "start (t_ID t) w") auto
  let ?u = "taskRepo_Update e (t\<lparr>t_State := Skipped, t_UpdatedAt := e_now e (w_step w)\<rparr>) (tick w)"
  have "only e (t_ID t) w (tick w)" by (rule only_reach [OF only_refl, of _ "{}"]) (simp_all add: reach_intros)
  then have u: "only e (t_ID t) w (snd ?u)" by (rule only_Update [OF _ Cons.prems(1)]) simp
  have "fst (ready_loop start e m ts w) \<noteq> None" "fst (ready_loop start e m ts w1) \<noteq> None"
      "fst (ready_loop start e m ts (snd ?u)) \<noteq> None"
    using Cons.IH [OF _ tail] only_inv [OF _ Cons.prems(1)] u s(2) by (auto intro: only_refl)
  then show ?case by (simp add: s(1) time_Now_def case_prod_beta)
qed simp

lemma completed_map_Some:
  "completed_map ts d = Some s \<Longrightarrow> \<exists>t\<in>set ts. t_ID t = d \<and> t_State t = s \<and> IsTerminal s"
proof -
  have "fold (\<lambda>t m. if IsTerminal (t_State t) then m(t_ID t \<mapsto> t_State t) else m) ts m0 d = Some s \<Longrightarrow>
      m0 d = Some s \<or> (\<exists>t\<in>set ts. t_ID t = d \<and> t_State t = s \<and> IsTerminal s)" for m0
    by (induction ts arbitrary: m0) (fastforce split: if_splits)+
  then show "completed_map ts d = Some s \<Longrightarrow> \<exists>t\<in>set ts. t_ID t = d \<and> t_State t = s \<and> IsTerminal s"
    unfolding completed_map_def by fastforce
qed

definition no_interrupted :: "world \<Rightarrow> bool" where
  "no_interrupted w \<longleftrightarrow> (\<forall>i t. task w i = Some t \<longrightarrow> t_State t \<noteq> Interrupted)"

lemma ready_inv_initial:
  assumes inv: "world_inv e w" and ts: "\<And>t. t \<in> set ts \<Longrightarrow> task w (t_ID t) = Some t" "distinct (map t_ID ts)"
    and no: "no_interrupted w"
  shows "ready_inv w (GetReadyTasks ts (completed_map ts))"
proof -
  let ?r = "GetReadyTasks ts (completed_map ts)"
  have "dep_settled w d \<and> d \<notin> t_ID ` set ?r" if t: "t \<in> set ?r" "d \<in> set (t_DependsOn t)" for t d
  proof -
    obtain u where u: "u \<in> set ts" "t_ID u = d" "IsTerminal (t_State u)"
      using t completed_map_Some by (fastforce simp: GetReadyTasks_mem)
    then have "task w d = Some u" using ts(1) by blast
    moreover have "t_State u \<in> {Completed, Failed, Skipped}"
      using u(3) no \<open>task w d = Some u\<close> by (auto simp: no_interrupted_def IsTerminal_def)
    moreover have "v = u" if "v \<in> set ts" "t_ID v = d" for v
      using ts(1) [OF that(1)] that(2) \<open>task w d = Some u\<close> by simp
    ultimately show ?thesis using u(3) by (auto simp: dep_settled_def GetReadyTasks_mem)
  qed
  moreover have "distinct (map t_ID ?r)" using ts(2) by (simp add: GetReadyTasks_def distinct_map_filter)
  ultimately show ?thesis using ts(1) by (auto simp: ready_inv_def GetReadyTasks_mem)
qed

lemma CheckAndStart_returns:
  assumes inv: "world_inv e w" and len: "length (r_storage (w_tasks w)) < 2 ^ 64" and no: "no_interrupted w"
  shows "fst (CheckAndStart_with (pm_StartTask_with (StartTask (Suc n) e) e) e ctx k w) \<noteq> None"
proof (cases "e_fault e (w_step w)")
  case None
  define ts where "ts = filter (\<lambda>t. t_WorkflowID t = k) (all_tasks (w_tasks w))"
  have l: "taskRepo_ListByWorkflowID e k w = (Ok ts, tick w)"
    by (simp add: taskRepo_ListByWorkflowID_def with_fault_def None ListByWorkflowID_eq [OF len] ts_def)
  have ts: "task (tick w) (t_ID t) = Some t" if "t \<in> set ts" for t
    using that all_tasks_mem [OF world_invD(1) [OF inv]] by (simp add: ts_def task_def)
  have "distinct (map t_ID ts)" using all_tasks_sorted [OF world_invD(1) [OF inv]] by (simp add: ts_def distinct_map_filter)
  then have "ready_inv (tick w) (GetReadyTasks ts (completed_map ts))"
    using ready_inv_initial [of e "tick w" ts] inv no ts by (simp add: no_interrupted_def)
  from ready_loop_returns [where start = "pm_StartTask_with (StartTask (Suc n) e) e (ContextWithSystem ctx)", OF pm_StartTask_settled _ this] inv show ?thesis
    by (simp add: CheckAndStart_with_def l Let_def)
qed (simp add: CheckAndStart_with_def taskRepo_ListByWorkflowID_def with_fault_def)

lemma deps_loop_returns:
  assumes "\<And>k w'. reach e {} w w' \<Longrightarrow> fst (check k w') \<noteq> None"
  shows "fst (deps_loop check e i k ds w) \<noteq> None"
  using assms
proof (induction ds arbitrary: w)
  case (Cons d ds)
  obtain r w1 where g: "GetTask e d w = (r, w1)" by fastforce
  have w1: "reach e {} w w1" using reach_queries(6) [OF reach_refl, of e "{}" w d] g by simp
  obtain c w2 where "check k w1 = (Some c, w2)" using Cons.prems [OF w1, of k] by (cases "check k w1") auto
  then show ?case using g Cons.IH [of w1] Cons.prems reach_trans [OF w1] by (cases r) auto
qed simp

lemma StartTask_ends:
  assumes "world_inv e w" "length (r_storage (w_tasks w)) < 2 ^ 64" "no_interrupted w"
  shows "\<exists>r w'. StartTask (Suc (Suc n)) e ctx i w = (Some r, w')"
proof -
  let ?check = "CheckAndStart_with (pm_StartTask_with (StartTask (Suc n) e) e) e"
  have check: "fst (?check ctx k w') \<noteq> None" if "reach e {} w w'" for k w'
    using CheckAndStart_returns [OF reach_inv [OF that assms(1)]] assms(2,3) reach_frame [OF that] reach_views [OF that]
    by (simp add: no_interrupted_def)
  obtain r w1 where g: "GetTask e i w = (r, w1)" by fastforce
  have w1: "reach e {} w w1" using reach_queries(6) [OF reach_refl, of e "{}" w i] g by simp
  have "deps_loop (?check ctx) e i k ds w1 \<noteq> (None, x)" for k ds x
    using deps_loop_returns [of e w1 "?check ctx" i k ds, OF check [OF reach_trans [OF w1]]] by (metis fst_conv)
  then have "fst (StartTask_with ?check e ctx i w) \<noteq> None"
    by (auto simp: StartTask_with_def g checkTaskDependencies_def split: prod.splits sum.splits option.splits)
  then show ?thesis by (cases "StartTask (Suc (Suc n)) e ctx i w") auto
qed

text \<open>
  C6. Unless a stored task was interrupted, \<open>StartTask\<close> returns, whatever storage, broker and
  plugins answer: the recursion through the coordinator is at most two calls deep, as every task
  the coordinator starts has settled dependencies and those stay settled while it works.
\<close>

theorem StartTask_returns:
  assumes "world_inv e w" "length (r_storage (w_tasks w)) < 2 ^ 64" "no_interrupted w"
  shows "\<exists>r w'. StartTask (Suc (Suc n)) e ctx i w = (Some r, w')"
  using assms by (rule StartTask_ends)

lemma StartTask_returns_witness: "\<exists>r w'. StartTask (Suc (Suc 0)) env0 ctx0 ''b'' start_world = (Some r, w')"
proof (rule StartTask_returns)
  have st: "r_storage (w_tasks start_world) =
      [(''a'', DTask (Task_zero\<lparr>t_ID := ''a'', t_State := Completed, t_WorkflowID := ''f''\<rparr>)),
       (''b'', DTask (Task_zero\<lparr>t_ID := ''b'', t_DependsOn := [''a''], t_WorkflowID := ''f''\<rparr>))]"
    by code_simp
  show "length (r_storage (w_tasks start_world)) < 2 ^ 64" by (simp add: st)
  show "no_interrupted start_world"
    by (auto simp: no_interrupted_def task_def task_view_def typed_view_def st Task_zero_def split: if_splits)
qed simp

end
