(* ===== verification/JobRun.thy ===== *)
theory JobRun
  imports JobList TaskOps StartEnds
begin

text \<open>
  Starting and stopping whole jobs (\<^verbatim>\<open>manager/service.go\<close>). In parallel mode the tasks without
  dependencies are started by one goroutine each; the starts are taken one after the other here,
  in an order that is a parameter, and their errors arrive in that order.
\<close>

section \<open>strings.TrimSpace\<close>

text \<open>The UTF-8 encodings of the code points that \<open>unicode.IsSpace\<close> accepts.\<close>

definition space_runes :: "string list" where
  "space_runes = [[CHR 0x09], [CHR 0x0A], [CHR 0x0B], [CHR 0x0C], [CHR 0x0D], [CHR 0x20],
     [CHR 0xC2, CHR 0x85], [CHR 0xC2, CHR 0xA0], [CHR 0xE1, CHR 0x9A, CHR 0x80],
     [CHR 0xE2, CHR 0x80, CHR 0x80], [CHR 0xE2, CHR 0x80, CHR 0x81], [CHR 0xE2, CHR 0x80, CHR 0x82],
     [CHR 0xE2, CHR 0x80, CHR 0x83], [CHR 0xE2, CHR 0x80, CHR 0x84], [CHR 0xE2, CHR 0x80, CHR 0x85],
     [CHR 0xE2, CHR 0x80, CHR 0x86], [CHR 0xE2, CHR 0x80, CHR 0x87], [CHR 0xE2, CHR 0x80, CHR 0x88],
     [CHR 0xE2, CHR 0x80, CHR 0x89], [CHR 0xE2, CHR 0x80, CHR 0x8A], [CHR 0xE2, CHR 0x80, CHR 0xA8],
     [CHR 0xE2, CHR 0x80, CHR 0xA9], [CHR 0xE2, CHR 0x80, CHR 0xAF], [CHR 0xE2, CHR 0x81, CHR 0x9F],
     [CHR 0xE3, CHR 0x80, CHR 0x80]]"

definition starts_with :: "string \<Rightarrow> string \<Rightarrow> bool" where
  "starts_with p s \<longleftrightarrow> take (length p) s = p"

function trim_left :: "string list \<Rightarrow> string \<Rightarrow> string" where
  "trim_left runes s =
     (case find (\<lambda>r. r \<noteq> [] \<and> starts_with r s) runes of
        None \<Rightarrow> s
      | Some r \<Rightarrow> trim_left runes (drop (length r) s))"
  by pat_completeness auto
termination trim_left
proof (relation "measure (\<lambda>(runes, s). length s)", goal_cases)
  case (2 runes s r)
  then have "r \<noteq> []" "take (length r) s = r" by (auto simp: find_Some_iff starts_with_def)
  then show ?case by (cases s) auto
qed simp

declare trim_left.simps [simp del]

definition TrimSpace :: "string \<Rightarrow> string" where
  "TrimSpace s = rev (trim_left (map rev space_runes) (rev (trim_left space_runes s)))"

section \<open>Stopping\<close>

fun stopJobTasks :: "env \<Rightarrow> Task list \<Rightarrow> world \<Rightarrow> unit \<times> world" where
  "stopJobTasks e [] w = ((), w)"
| "stopJobTasks e (t # ts) w =
     (if t_State t = Running \<or> t_State t = Scheduled
      then case StopTask e (t_ID t) w of (_, w) \<Rightarrow> stopJobTasks e ts w
      else stopJobTasks e ts w)"

definition StopJob :: "env \<Rightarrow> string \<Rightarrow> world \<Rightarrow> unit result \<times> world" where
  "StopJob e jobID w =
     (case getJobTasks e jobID w of
        (Err err, w) \<Rightarrow> (Err err, w)
      | (Ok tasks, w) \<Rightarrow> (case stopJobTasks e tasks w of (_, w) \<Rightarrow> (Ok (), w)))"

section \<open>Starting\<close>

definition start_error :: "string \<Rightarrow> error \<Rightarrow> error" where
  "start_error taskID err = Wrap (''failed to start task '' @ taskID @ '': '') err []"

text \<open>Every start is tried and the errors are collected.\<close>

fun start_all :: "nat \<Rightarrow> env \<Rightarrow> ctx \<Rightarrow> string list \<Rightarrow> error list \<Rightarrow> world \<Rightarrow> error list running" where
  "start_all n e ctx [] errs w = (Some errs, w)"
| "start_all n e ctx (taskID # ids) errs w =
     (case StartTask n e ctx taskID w of
        (None, w) \<Rightarrow> (None, w)
      | (Some (Err err), w) \<Rightarrow> start_all n e ctx ids (errs @ [start_error taskID err]) w
      | (Some (Ok _), w) \<Rightarrow> start_all n e ctx ids errs w)"

definition startJobParallel ::
    "nat \<Rightarrow> (string list \<Rightarrow> string list) \<Rightarrow> env \<Rightarrow> ctx \<Rightarrow> Task list \<Rightarrow> world \<Rightarrow> unit result running" where
  "startJobParallel n order e ctx tasks w =
     (case start_all n e ctx (order (map t_ID (filter (\<lambda>t. t_DependsOn t = []) tasks))) [] w of
        (None, w) \<Rightarrow> (None, w)
      | (Some errs, w) \<Rightarrow>
          if errs \<noteq> [] then case stopJobTasks e tasks w of (_, w) \<Rightarrow> (Some (Err (JoinErr errs)), w)
          else (Some (Ok ()), w))"

text \<open>The first error ends the loop; \<open>tasks\<close> are the tasks of the job as listed before the start.\<close>

fun start_until :: "nat \<Rightarrow> env \<Rightarrow> ctx \<Rightarrow> Task list \<Rightarrow> string list \<Rightarrow> world \<Rightarrow> unit result running" where
  "start_until n e ctx tasks [] w = (Some (Ok ()), w)"
| "start_until n e ctx tasks (taskID # ids) w =
     (case StartTask n e ctx taskID w of
        (None, w) \<Rightarrow> (None, w)
      | (Some (Err err), w) \<Rightarrow> (case stopJobTasks e tasks w of (_, w) \<Rightarrow> (Some (Err (start_error taskID err)), w))
      | (Some (Ok _), w) \<Rightarrow> start_until n e ctx tasks ids w)"

definition startJobSequential :: "nat \<Rightarrow> env \<Rightarrow> ctx \<Rightarrow> Task list \<Rightarrow> world \<Rightarrow> unit result running" where
  "startJobSequential n e ctx tasks w =
     start_until n e ctx tasks (map t_ID (filter (\<lambda>t. t_DependsOn t = []) tasks)) w"

definition startJobConfigurable :: "nat \<Rightarrow> env \<Rightarrow> ctx \<Rightarrow> Task list \<Rightarrow> world \<Rightarrow> unit result running" where
  "startJobConfigurable n e ctx tasks w =
     (case TopologicalSort (e_mapOrder e (w_step w) (remdups (map t_ID tasks))) tasks of
        Err err \<Rightarrow> (Some (Err (Wrap ''failed to sort tasks: '' err [])), w)
      | Ok sortedTasks \<Rightarrow> start_until n e ctx tasks (map t_ID (GetReadyTasks sortedTasks Map.empty)) w)"

definition ExecutionModeParallel :: string where "ExecutionModeParallel = ''parallel''"
definition ExecutionModeSequential :: string where "ExecutionModeSequential = ''sequential''"
definition ExecutionModeConfigurable :: string where "ExecutionModeConfigurable = ''configurable''"
definition EnvJobExecutionMode :: string where "EnvJobExecutionMode = ''JOB_EXECUTION_MODE''"

text \<open>The mode of the stored job, else that of the process environment.\<close>

definition job_mode :: "env \<Rightarrow> string \<Rightarrow> world \<Rightarrow> string \<times> world" where
  "job_mode e jobID w =
     (case (case jobRepo_Get e jobID w of
              (Err _, w) \<Rightarrow> ([], w)
            | (Ok storedJob, w) \<Rightarrow> (TrimSpace (j_ExecutionMode storedJob), w)) of
        (executionMode, w) \<Rightarrow>
          (if executionMode = [] then TrimSpace (e_executionMode e) else executionMode, w))"

text \<open>\<open>quote\<close> is the verb \<open>%q\<close> of the message about an unknown mode.\<close>

definition StartJob ::
    "nat \<Rightarrow> (string list \<Rightarrow> string list) \<Rightarrow> (string \<Rightarrow> string) \<Rightarrow> env \<Rightarrow> ctx \<Rightarrow> string \<Rightarrow> world \<Rightarrow> unit result running" where
  "StartJob n order quote e ctx jobID w =
     (if w_shuttingDown w then (Some (Err (Sentinel errShuttingDown)), w)
      else case getJobTasks e jobID w of
        (Err err, w) \<Rightarrow> (Some (Err err), w)
      | (Ok tasks, w) \<Rightarrow>
          if tasks = [] then (Some (Err (NewError (''job '' @ jobID @ '' has no tasks''))), w)
          else case job_mode e jobID w of (executionMode, w) \<Rightarrow>
            if executionMode = [] then (Some (Err (NewError (EnvJobExecutionMode @ '' must be set''))), w)
            else case ValidateDependenciesExist tasks of
              Err err \<Rightarrow> (Some (Err (Wrap ''dependency validation failed: '' err [])), w)
            | Ok _ \<Rightarrow>
           (case ValidateDAG tasks of
              Err err \<Rightarrow> (Some (Err (Wrap ''DAG validation failed: '' err [])), w)
            | Ok _ \<Rightarrow>
                if executionMode = ExecutionModeParallel then startJobParallel n order e ctx tasks w
                else if executionMode = ExecutionModeSequential then startJobSequential n e ctx tasks w
                else if executionMode = ExecutionModeConfigurable then startJobConfigurable n e ctx tasks w
                else (Some (Err (NewError (''invalid '' @ EnvJobExecutionMode @ '': '' @ quote executionMode @
                       '' (allowed: '' @ quote ExecutionModeParallel @ '', '' @ quote ExecutionModeSequential @
                       '', '' @ quote ExecutionModeConfigurable @ '')''))), w)))"

section \<open>Frames\<close>

lemma reach_stopJobTasks [reach_intros]:
  assumes "reach e C w0 w" "Sent \<in> C" "Pins \<in> C" "Proplets \<in> C"
  shows "reach e C w0 (snd (stopJobTasks e ts w))"
  using assms(1)
proof (induction ts arbitrary: w)
  case (Cons t ts)
  show ?case unfolding stopJobTasks.simps by (assumption | rule reach_steps reach_intros assms(2-4) Cons)+
qed simp

lemma reach_StopJob [reach_intros]:
  assumes "reach e C w0 w" "Sent \<in> C" "Pins \<in> C" "Proplets \<in> C"
  shows "reach e C w0 (snd (StopJob e i w))"
  unfolding StopJob_def by (assumption | rule reach_steps reach_intros assms)+

lemma reach_start_lists [reach_intros]:
  assumes "reach e C w0 w" "start_parts \<subseteq> C"
  shows "reach e C w0 (snd (start_all n e ctx ids errs w))" "reach e C w0 (snd (start_until n e ctx ts ids w))"
proof -
  have C: "Sent \<in> C" "Pins \<in> C" "Proplets \<in> C" using assms(2) by auto
  show "reach e C w0 (snd (start_all n e ctx ids errs w))" using assms(1)
  proof (induction ids arbitrary: w errs)
    case (Cons i ids)
    show ?case unfolding start_all.simps by (assumption | rule reach_steps reach_intros assms(2) Cons)+
  qed simp
  show "reach e C w0 (snd (start_until n e ctx ts ids w))" using assms(1)
  proof (induction ids arbitrary: w)
    case (Cons i ids)
    show ?case unfolding start_until.simps by (assumption | rule reach_steps reach_intros assms(2) C Cons)+
  qed simp
qed

lemma reach_StartJob [reach_intros]:
  assumes "reach e C w0 w" "start_parts \<subseteq> C"
  shows "reach e C w0 (snd (StartJob n order quote e ctx i w))"
proof -
  have C: "Sent \<in> C" "Pins \<in> C" "Proplets \<in> C" using assms(2) by auto
  show ?thesis
    unfolding StartJob_def job_mode_def startJobParallel_def startJobSequential_def startJobConfigurable_def
    by (assumption | rule reach_steps reach_intros assms C)+
qed

section \<open>Starting the roots of a job\<close>

definition running :: "world \<Rightarrow> string \<Rightarrow> bool" where
  "running w i \<longleftrightarrow> (\<exists>t. task w i = Some t \<and> t_State t = Running)"




















end
