(* ===== verification/Handlers.thy ===== *)
theory Handlers
  imports JobRun
begin

text \<open>
  The handlers of the messages that proplets send (\<^verbatim>\<open>manager/service.go\<close>): registration,
  heartbeats, results, results of invocations and metrics, and the dispatch on the topic. A
  message is a decoded JSON object. The handler of results may start tasks and takes fuel.
\<close>

section \<open>Proplets\<close>

text \<open>\<open>id, ok := msg[key].(string)\<close> with the two errors that the handlers share.\<close>

definition message_id :: "anymap \<Rightarrow> string \<Rightarrow> string \<Rightarrow> string result" where
  "message_id msg key what =
     (case as_string (map_of msg key) of
        None \<Rightarrow> Err (NewError (''invalid '' @ key))
      | Some i \<Rightarrow> if i = [] then Err (NewError (what @ '' id is empty'')) else Ok i)"

definition proplet_metadata :: "anymap \<Rightarrow> PropletMetadata" where
  "proplet_metadata msg =
     (let meta = Some (GetMap (Some msg) ''metadata'')
      in \<lparr>pm_Description = GetString meta ''description'' [], pm_Tags = GetStringSlice meta ''tags'',
          pm_Location = GetString meta ''location'' [], pm_IP = GetString meta ''ip'' [],
          pm_Environment = GetString meta ''environment'' [], pm_OS = GetString meta ''os'' [],
          pm_Hostname = GetString meta ''hostname'' [], pm_CPUArch = GetString meta ''cpu_arch'' [],
          pm_TotalMemoryBytes = GetUint64 meta ''total_memory_bytes'',
          pm_PropletVersion = GetString meta ''proplet_version'' [],
          pm_WasmRuntime = GetString meta ''wasm_runtime'' []\<rparr>)"

definition createPropletHandler :: "env \<Rightarrow> anymap \<Rightarrow> world \<Rightarrow> unit result \<times> world" where
  "createPropletHandler e msg w =
     (case message_id msg ''proplet_id'' ''proplet'' of
        Err err \<Rightarrow> (Err err, w)
      | Ok propletID \<Rightarrow>
          (let md = proplet_metadata msg
           in case GetProplet e propletID w of
                (Ok existing, w) \<Rightarrow> propletRepo_Update e (existing\<lparr>p_Metadata := md\<rparr>) w
              | (Err err, w) \<Rightarrow>
                  if errors_Is err ErrNotFound
                  then propletRepo_Create e (Proplet_zero\<lparr>p_ID := propletID, p_Name := e_name e (w_step w), p_Metadata := md\<rparr>) (tick w)
                  else (Err err, w)))"

definition aliveHistoryLimit :: nat where
  "aliveHistoryLimit = 10"

definition push_alive :: "gotime \<Rightarrow> gotime list \<Rightarrow> gotime list" where
  "push_alive now hist =
     (let hist = hist @ [now]
      in if aliveHistoryLimit < length hist then drop (length hist - aliveHistoryLimit) hist else hist)"

definition updateLivenessHandler :: "env \<Rightarrow> anymap \<Rightarrow> world \<Rightarrow> unit result \<times> world" where
  "updateLivenessHandler e msg w =
     (case message_id msg ''proplet_id'' ''proplet'' of
        Err err \<Rightarrow> (Err err, w)
      | Ok propletID \<Rightarrow>
          (case GetProplet e propletID w of
             (Err err, w) \<Rightarrow> if errors_Is err ErrNotFound then createPropletHandler e msg w else (Err err, w)
           | (Ok p, w) \<Rightarrow>
               (case time_Now e w of (now, w) \<Rightarrow>
                  propletRepo_Update e (p\<lparr>p_Alive := True, p_AliveHistory := push_alive now (p_AliveHistory p)\<rparr>) w)))"

section \<open>Results\<close>

definition notifyTaskComplete :: "env \<Rightarrow> Task \<Rightarrow> world \<Rightarrow> unit \<times> world" where
  "notifyTaskComplete e t w =
     (case e_plugins e of
        None \<Rightarrow> ((), w)
      | Some plugins \<Rightarrow>
          (let evt = \<lparr>ev_Task = NewTaskInfo t, ev_Success = (t_State t = Completed), ev_Result = [], ev_Error = t_Error t\<rparr>
           in ((), w\<lparr>w_notified := w_notified w @ map (\<lambda>p. (pl_Name p, evt)) plugins\<rparr>)))"

definition hasDependencyOnTask :: "Task \<Rightarrow> string \<Rightarrow> bool" where
  "hasDependencyOnTask t taskID = List.member (t_DependsOn t) taskID"

fun allDependenciesComplete :: "env \<Rightarrow> string list \<Rightarrow> world \<Rightarrow> bool \<times> world" where
  "allDependenciesComplete e [] w = (True, w)"
| "allDependenciesComplete e (checkDepID # deps) w =
     (case GetTask e checkDepID w of
        (Err err, w) \<Rightarrow> (False, w)
      | (Ok dep, w) \<Rightarrow> if \<not> IsTerminal (t_State dep) then (False, w) else allDependenciesComplete e deps w)"

fun startJobDependentTasks :: "nat \<Rightarrow> env \<Rightarrow> ctx \<Rightarrow> string \<Rightarrow> Task list \<Rightarrow> world \<Rightarrow> unit running" where
  "startJobDependentTasks n e ctx completedTaskID [] w = (Some (), w)"
| "startJobDependentTasks n e ctx completedTaskID (t # ts) w =
     (if t_State t \<noteq> Pending \<or> \<not> hasDependencyOnTask t completedTaskID
      then startJobDependentTasks n e ctx completedTaskID ts w
      else case allDependenciesComplete e (t_DependsOn t) w of
        (False, w) \<Rightarrow> startJobDependentTasks n e ctx completedTaskID ts w
      | (True, w) \<Rightarrow>
          (case StartTask n e ctx (t_ID t) w of
             (None, w) \<Rightarrow> (None, w)
           | (Some _, w) \<Rightarrow> startJobDependentTasks n e ctx completedTaskID ts w))"

text \<open>\<open>coordinator.OnTaskCompletion\<close>, whose error is only logged.\<close>

definition on_completion :: "nat \<Rightarrow> env \<Rightarrow> ctx \<Rightarrow> string \<Rightarrow> world \<Rightarrow> unit result running" where
  "on_completion n e ctx taskID w =
     (case OnTaskCompletion n e ctx taskID w of
        (None, w) \<Rightarrow> (None, w)
      | (Some _, w) \<Rightarrow> (Some (Ok ()), w))"

text \<open>The result as it is written into the task.\<close>

definition finish_task :: "anymap \<Rightarrow> gotime \<Rightarrow> Task \<Rightarrow> Task" where
  "finish_task msg now t =
     (let t = t\<lparr>t_Results := (case map_of msg ''results'' of None \<Rightarrow> ANil | Some r \<Rightarrow> r), t_State := Completed,
                t_UpdatedAt := now, t_FinishTime := now\<rparr>
      in case as_string (map_of msg ''error'') of
           Some errMsg \<Rightarrow> if errMsg \<noteq> [] then t\<lparr>t_Error := errMsg, t_State := Failed\<rparr> else t
         | None \<Rightarrow> t)"

definition updateResultsHandler :: "nat \<Rightarrow> env \<Rightarrow> ctx \<Rightarrow> anymap \<Rightarrow> world \<Rightarrow> unit result running" where
  "updateResultsHandler n e ctx msg w =
     (case message_id msg ''task_id'' ''task'' of
        Err err \<Rightarrow> (Some (Err err), w)
      | Ok taskID \<Rightarrow>
     (case GetTask e taskID w of
        (Err err, w) \<Rightarrow> (Some (Err err), w)
      | (Ok t, w) \<Rightarrow>
     (case time_Now e w of (now, w) \<Rightarrow>
      let t = finish_task msg now t
      in case taskRepo_Update e t w of
           (Err err, w) \<Rightarrow> (Some (Err err), w)
         | (Ok _, w) \<Rightarrow>
        (case notifyTaskComplete e t w of (_, w) \<Rightarrow>
           if t_JobID t = [] then on_completion n e ctx taskID w
           else case getJobTasks e (t_JobID t) w of
             (Err err, w) \<Rightarrow> on_completion n e ctx taskID w
           | (Ok jobTasks, w) \<Rightarrow>
               if t_State t = Failed
               then case stopJobTasks e jobTasks w of (_, w) \<Rightarrow> on_completion n e ctx taskID w
               else let allCompleted = list_all (\<lambda>j. t_State j = Completed \<or> t_State j = Skipped) jobTasks;
                        hasFailed = list_ex (\<lambda>j. t_State j = Failed) jobTasks
                    in case (if \<not> allCompleted \<and> \<not> hasFailed
                             then startJobDependentTasks n e ctx taskID jobTasks w else (Some (), w)) of
                         (None, w) \<Rightarrow> (None, w)
                       | (Some _, w) \<Rightarrow> on_completion n e ctx taskID w))))"

section \<open>Results of invocations\<close>

text \<open>Sending into a channel of capacity one; when it is full the result is dropped.\<close>

definition deliver :: "string \<Rightarrow> invokeResult \<Rightarrow> world \<Rightarrow> world" where
  "deliver invocationID res w =
     (case map_of (w_pendingInvokes w) invocationID of
        Some None \<Rightarrow> w\<lparr>w_pendingInvokes := AList.update invocationID (Some res) (w_pendingInvokes w)\<rparr>
      | _ \<Rightarrow> w)"

definition updateInvokeResultsHandler :: "anymap \<Rightarrow> world \<Rightarrow> unit result \<times> world" where
  "updateInvokeResultsHandler msg w =
     (case as_string (map_of msg ''invocation_id'') of
        None \<Rightarrow> (Ok (), w)
      | Some invocationID \<Rightarrow>
          if invocationID = [] then (Ok (), w)
          else if as_string (map_of msg ''results'') = None \<and> map_of msg ''results'' \<noteq> None
          then (Err (NewError ''invalid results type in invoke result message''), w)
          else let results = (case as_string (map_of msg ''results'') of None \<Rightarrow> [] | Some r \<Rightarrow> r)
               in if map_of msg ''error'' \<noteq> None \<and> map_of msg ''error'' \<noteq> Some ANil \<and> as_string (map_of msg ''error'') = None
                  then (Err (NewError ''invalid error type in invoke result message''), w)
                  else let errMsg = (case as_string (map_of msg ''error'') of None \<Rightarrow> [] | Some m \<Rightarrow> m)
                       in (Ok (), deliver invocationID \<lparr>ir_results = results, ir_err = errMsg\<rparr> w))"

section \<open>Metrics\<close>

text \<open>The timestamp of a message, else the clock.\<close>

definition message_time :: "env \<Rightarrow> anymap \<Rightarrow> world \<Rightarrow> gotime \<times> world" where
  "message_time e msg w =
     (let ts = (case as_string (map_of msg ''timestamp'') of
                  None \<Rightarrow> 0
                | Some s \<Rightarrow> (case e_parseTime e s of None \<Rightarrow> 0 | Some t \<Rightarrow> t))
      in if ts = 0 then time_Now e w else (ts, w))"

text \<open>Without its map a field keeps its zero value, which is what the parser yields on an empty map.\<close>

definition handleTaskMetrics :: "env \<Rightarrow> anymap \<Rightarrow> world \<Rightarrow> unit result \<times> world" where
  "handleTaskMetrics e msg w =
     (case message_id msg ''task_id'' ''task'' of
        Err err \<Rightarrow> (Err err, w)
      | Ok taskID \<Rightarrow>
          (case as_string (map_of msg ''proplet_id'') of
             None \<Rightarrow> (Err (NewError ''invalid proplet_id''), w)
           | Some propletID \<Rightarrow>
               (case message_time e msg w of (ts, w) \<Rightarrow>
                  metricsRepo_CreateTaskMetrics e
                    \<lparr>tm_TaskID = taskID, tm_PropletID = propletID,
                     tm_Metrics = parseProcessMetrics (e_wild e) (nil_list (as_map (map_of msg ''metrics''))),
                     tm_Aggregated = map_option (parseAggregatedMetrics (e_wild e)) (as_map (map_of msg ''aggregated'')),
                     tm_Timestamp = ts\<rparr> w)))"

definition handlePropletMetrics :: "env \<Rightarrow> anymap \<Rightarrow> world \<Rightarrow> unit result \<times> world" where
  "handlePropletMetrics e msg w =
     (case message_id msg ''proplet_id'' ''proplet'' of
        Err err \<Rightarrow> (Err err, w)
      | Ok propletID \<Rightarrow>
          (case message_time e msg w of (ts, w) \<Rightarrow>
             metricsRepo_CreatePropletMetrics e
               \<lparr>px_PropletID = propletID,
                px_Namespace = (case as_string (map_of msg ''namespace'') of None \<Rightarrow> [] | Some s \<Rightarrow> s),
                px_Timestamp = ts,
                px_CPU = parseCPUMetrics (nil_list (as_map (map_of msg ''cpu_metrics''))),
                px_Memory = parseMemoryMetrics (e_wild e) (nil_list (as_map (map_of msg ''memory_metrics'')))\<rparr> w))"

section \<open>The dispatch\<close>

definition returned :: "unit result \<times> world \<Rightarrow> unit result running" where
  "returned p = (Some (fst p), snd p)"

definition handle :: "nat \<Rightarrow> env \<Rightarrow> ctx \<Rightarrow> string \<Rightarrow> anymap \<Rightarrow> world \<Rightarrow> unit result running" where
  "handle n e ctx topic msg w =
     (let on = (\<lambda>suffix. topic = e_baseTopic e @ suffix)
      in if on ''/control/proplet/create'' then returned (createPropletHandler e msg w)
         else if on ''/control/proplet/alive'' then returned (updateLivenessHandler e msg w)
         else if on ''/control/proplet/results'' then updateResultsHandler n e ctx msg w
         else if on ''/control/proplet/invoke_results'' then returned (updateInvokeResultsHandler msg w)
         else if on ''/control/proplet/task_metrics'' then returned (handleTaskMetrics e msg w)
         else if on ''/control/proplet/metrics'' then returned (handlePropletMetrics e msg w)
         else (Some (Ok ()), w))"

section \<open>Frames\<close>

abbreviation handle_parts :: "part set" where
  "handle_parts \<equiv> {Tasks, Proplets, Pins, Sched, Sent, Notified, Invokes, MetricsData}"

lemma reach_notifyTaskComplete [reach_intros]:
  "reach e C w0 w \<Longrightarrow> Notified \<in> C \<Longrightarrow> reach e C w0 (snd (notifyTaskComplete e t w))"
  by (auto simp: notifyTaskComplete_def Let_def changesI world_inv_def split: option.splits elim!: reachI)

lemma reach_deliver [reach_intros]: "reach e C w0 w \<Longrightarrow> Invokes \<in> C \<Longrightarrow> reach e C w0 (deliver i r w)"
  by (auto simp: deliver_def changesI world_inv_def split: option.splits elim!: reachI)

lemma reach_proplet_handlers [reach_intros]:
  assumes "reach e C w0 w" "Proplets \<in> C"
  shows "reach e C w0 (snd (createPropletHandler e msg w))" "reach e C w0 (snd (updateLivenessHandler e msg w))"
  unfolding updateLivenessHandler_def createPropletHandler_def
  by (assumption | rule reach_steps reach_intros assms)+

lemma reach_metric_handlers [reach_intros]:
  assumes "reach e C w0 w" "MetricsData \<in> C"
  shows "reach e C w0 (snd (handleTaskMetrics e msg w))" "reach e C w0 (snd (handlePropletMetrics e msg w))"
  unfolding handleTaskMetrics_def handlePropletMetrics_def message_time_def
  by (assumption | rule reach_steps reach_intros assms)+

lemma reach_invoke_handler [reach_intros]:
  "reach e C w0 w \<Longrightarrow> Invokes \<in> C \<Longrightarrow> reach e C w0 (snd (updateInvokeResultsHandler msg w))"
  unfolding updateInvokeResultsHandler_def by (assumption | rule reach_steps reach_intros)+

lemma reach_allDependenciesComplete [reach_intros]:
  "reach e C w0 w \<Longrightarrow> reach e C w0 (snd (allDependenciesComplete e ds w))"
proof (induction ds arbitrary: w)
  case (Cons d ds)
  show ?case unfolding allDependenciesComplete.simps by (assumption | rule reach_steps reach_intros Cons)+
qed simp

lemma reach_bool: "reach e C w0 (snd f) \<Longrightarrow> reach e C w0 (snd g) \<Longrightarrow> reach e C w0 (snd (case b of True \<Rightarrow> f | False \<Rightarrow> g))"
  by (cases b) simp_all

lemma reach_startJobDependentTasks [reach_intros]:
  "reach e C w0 w \<Longrightarrow> start_parts \<subseteq> C \<Longrightarrow> reach e C w0 (snd (startJobDependentTasks n e ctx i ts w))"
proof (induction ts arbitrary: w)
  case (Cons t ts)
  show ?case unfolding startJobDependentTasks.simps
    by (assumption | rule reach_steps reach_bool reach_intros Cons)+
qed simp

lemma reach_updateResults [reach_intros]:
  assumes "reach e C w0 w" "start_parts \<subseteq> C"
  shows "reach e C w0 (snd (updateResultsHandler n e ctx msg w))"
proof -
  have C: "Tasks \<in> C" "Pins \<in> C" "Proplets \<in> C" "Sent \<in> C" "Notified \<in> C" using assms(2) by auto
  show ?thesis unfolding updateResultsHandler_def on_completion_def
    by (assumption | rule reach_steps reach_intros assms C)+
qed

lemma reach_handle [reach_intros]:
  assumes "reach e C w0 w" "handle_parts \<subseteq> C"
  shows "reach e C w0 (snd (handle n e ctx topic msg w))"
proof -
  have C: "start_parts \<subseteq> C" "Proplets \<in> C" "Invokes \<in> C" "MetricsData \<in> C" using assms(2) by auto
  show ?thesis unfolding handle_def returned_def
    by (assumption | rule reach_steps reach_intros assms C)+
qed

section \<open>Heartbeats\<close>







section \<open>Results\<close>

lemma notifyTaskComplete_views [simp]:
  "task (snd (notifyTaskComplete e t w)) = task w" "pin (snd (notifyTaskComplete e t w)) = pin w"
  "proplet (snd (notifyTaskComplete e t w)) = proplet w" "w_sent (snd (notifyTaskComplete e t w)) = w_sent w"
  "world_inv e' (snd (notifyTaskComplete e t w)) = world_inv e' w" "w_step (snd (notifyTaskComplete e t w)) = w_step w"
  by (simp_all add: notifyTaskComplete_def Let_def task_def pin_def proplet_def world_inv_def split: option.splits)

lemma finish_task_frame [simp]:
  "t_ID (finish_task msg now t) = t_ID t" "t_JobID (finish_task msg now t) = t_JobID t"
  "t_WorkflowID (finish_task msg now t) = t_WorkflowID t"
  by (simp_all add: finish_task_def Let_def split: option.splits)


definition busy_task :: Task where
  "busy_task = Task_zero\<lparr>t_ID := ''a'', t_State := Running, t_PropletID := ''p''\<rparr>"

text \<open>A running task, assigned to a proplet that counts it.\<close>

definition busy_world :: world where
  "busy_world = snd (taskPropletRepo_Create env0 ''a'' ''p'' (snd (taskRepo_Create env0 busy_task
     (snd (propletRepo_Create env0 (Proplet_zero\<lparr>p_ID := ''p'', p_TaskCount := 1\<rparr>) NewService)))))"

lemma busy_world_inv [simp]: "world_inv env0 busy_world"
proof -
  have "reach env0 {Tasks, Proplets, Pins} NewService busy_world"
    unfolding busy_world_def by (intro reach_write reach_refl) simp_all
  then show ?thesis by (rule reach_inv) simp
qed



end
