(* ===== verification/Lifecycle.thy ===== *)
theory Lifecycle
  imports Handlers
begin

text \<open>
  Subscription, shutdown and recovery of the manager service (\<^verbatim>\<open>manager/service.go\<close>). While a call
  waits, other goroutines handle messages and requests: what they do to the state is the
  parameter \<open>others\<close>, indexed by the wait. How many ticks pass before the context of a wait is
  done is a parameter as well.
\<close>

section \<open>Subscription\<close>

text \<open>\<open>pubsub.Subscribe\<close> is the parameter \<open>sub\<close>; the result lists the topics with a handler.\<close>

definition Subscribe :: "(string \<Rightarrow> error option) \<Rightarrow> env \<Rightarrow> string list result" where
  "Subscribe sub e =
     (let topic = e_baseTopic e @ ''/#''
      in case sub topic of
           Some err \<Rightarrow> Err err
         | None \<Rightarrow>
             (let flRoundStartTopic = e_baseTopic e @ ''/fl/rounds/start''
              in case sub flRoundStartTopic of
                   Some err \<Rightarrow> Err err
                 | None \<Rightarrow> Ok [topic, flRoundStartTopic]))"

section \<open>Shutdown\<close>

definition active :: "Task \<Rightarrow> bool" where
  "active t \<longleftrightarrow> t_State t = Running \<or> t_State t = Scheduled"

definition halt_message :: "env \<Rightarrow> string \<Rightarrow> string \<Rightarrow> message" where
  "halt_message e taskID propletID =
     stop_message e [(''id'', AString taskID), (''proplet_id'', AString propletID)]"

fun signal_loop :: "env \<Rightarrow> Task list \<Rightarrow> world \<Rightarrow> unit \<times> world" where
  "signal_loop e [] w = ((), w)"
| "signal_loop e (t # ts) w =
     (if \<not> active t then signal_loop e ts w
      else case taskPropletRepo_Get e (t_ID t) w of
        (Ok mappedPropletID, w) \<Rightarrow>
          (case Publish e (halt_message e (t_ID t) mappedPropletID) w of (_, w) \<Rightarrow> signal_loop e ts w)
      | (Err err, w) \<Rightarrow>
          if t_PropletID t = [] then signal_loop e ts w
          else case Publish e (halt_message e (t_ID t) (t_PropletID t)) w of (_, w) \<Rightarrow> signal_loop e ts w)"

definition signalStopToActiveTasks :: "env \<Rightarrow> world \<Rightarrow> unit result \<times> world" where
  "signalStopToActiveTasks e w =
     (case listAllTasks e w of
        (Err err, w) \<Rightarrow> (Err (Wrap ''failed to list tasks: '' err []), w)
      | (Ok allTasks, w) \<Rightarrow> (case signal_loop e allTasks w of (_, w) \<Rightarrow> (Ok (), w)))"

text \<open>\<open>ticks\<close> is the number of ticks before the context is done, \<open>ctxErr\<close> its error then.\<close>

fun waitForActiveTasks :: "nat \<Rightarrow> error \<Rightarrow> (nat \<Rightarrow> world \<Rightarrow> world) \<Rightarrow> env \<Rightarrow> world \<Rightarrow> unit result \<times> world" where
  "waitForActiveTasks ticks ctxErr others e w =
     (case listAllTasks e w of
        (Err err, w) \<Rightarrow> (Err (Wrap ''failed to list tasks: '' err []), w)
      | (Ok allTasks, w) \<Rightarrow>
          if length (filter active allTasks) = 0 then (Ok (), w)
          else (case ticks of
                  0 \<Rightarrow> (Err ctxErr, others 0 w)
                | Suc left \<Rightarrow> waitForActiveTasks left ctxErr others e (others ticks w)))"

declare waitForActiveTasks.simps [simp del]

definition interrupted :: "gotime \<Rightarrow> Task \<Rightarrow> Task" where
  "interrupted now t = t\<lparr>t_State := Interrupted, t_Error := ''interrupted by shutdown'', t_FinishTime := now, t_UpdatedAt := now\<rparr>"

fun interrupt_loop :: "env \<Rightarrow> gotime \<Rightarrow> Task list \<Rightarrow> world \<Rightarrow> unit \<times> world" where
  "interrupt_loop e now [] w = ((), w)"
| "interrupt_loop e now (t # ts) w =
     (if active t then case taskRepo_Update e (interrupted now t) w of (_, w) \<Rightarrow> interrupt_loop e now ts w
      else interrupt_loop e now ts w)"

definition interruptRunningTasks :: "env \<Rightarrow> world \<Rightarrow> unit result \<times> world" where
  "interruptRunningTasks e w =
     (case listAllTasks e w of
        (Err err, w) \<Rightarrow> (Err (Wrap ''failed to list tasks: '' err []), w)
      | (Ok allTasks, w) \<Rightarrow>
          (case time_Now e w of (now, w) \<Rightarrow>
           case interrupt_loop e now allTasks w of (_, w) \<Rightarrow> (Ok (), w)))"

definition Shutdown :: "nat \<Rightarrow> error \<Rightarrow> (nat \<Rightarrow> world \<Rightarrow> world) \<Rightarrow> env \<Rightarrow> world \<Rightarrow> unit result \<times> world" where
  "Shutdown ticks ctxErr others e w =
     (case signalStopToActiveTasks e (w\<lparr>w_shuttingDown := True\<rparr>) of (_, w) \<Rightarrow>
      case waitForActiveTasks ticks ctxErr others e (others (Suc ticks) w) of (_, w) \<Rightarrow>
      case interruptRunningTasks e w of (_, w) \<Rightarrow> (Ok (), w))"

section \<open>Recovery\<close>

definition recovered :: "gotime \<Rightarrow> Task \<Rightarrow> Task" where
  "recovered now t = t\<lparr>t_State := Failed, t_Error := ''interrupted by shutdown'', t_UpdatedAt := now\<rparr>"

text \<open>One goroutine per interrupted task.\<close>

definition recover_one :: "env \<Rightarrow> gotime \<Rightarrow> Task \<Rightarrow> world \<Rightarrow> unit \<times> world" where
  "recover_one e now t w =
     (case (case taskPropletRepo_Get e (t_ID t) w of
              (Err err, w) \<Rightarrow> ((), w)
            | (Ok propletID, w) \<Rightarrow> (case Publish e (halt_message e (t_ID t) propletID) w of (_, w) \<Rightarrow> ((), w))) of
        (_, w) \<Rightarrow> (case taskRepo_Update e (recovered now t) w of (_, w) \<Rightarrow> ((), w)))"

fun recover_loop :: "env \<Rightarrow> gotime \<Rightarrow> Task list \<Rightarrow> world \<Rightarrow> unit \<times> world" where
  "recover_loop e now [] w = ((), w)"
| "recover_loop e now (t # ts) w =
     (if t_State t \<noteq> Interrupted then recover_loop e now ts w
      else case recover_one e now t w of (_, w) \<Rightarrow> recover_loop e now ts w)"

text \<open>\<open>order\<close> is the order in which the goroutines run.\<close>

definition RecoverInterruptedTasks :: "(Task list \<Rightarrow> Task list) \<Rightarrow> env \<Rightarrow> world \<Rightarrow> unit result \<times> world" where
  "RecoverInterruptedTasks order e w =
     (case listAllTasks e w of
        (Err err, w) \<Rightarrow> (Err (Wrap ''failed to list tasks: '' err []), w)
      | (Ok allTasks, w) \<Rightarrow>
          (case time_Now e w of (now, w) \<Rightarrow>
           case recover_loop e now (order allTasks) w of (_, w) \<Rightarrow> (Ok (), w)))"

section \<open>Frames\<close>

lemma reach_signal_loop [reach_intros]: "reach e C w0 w \<Longrightarrow> Sent \<in> C \<Longrightarrow> reach e C w0 (snd (signal_loop e ts w))"
proof (induction ts arbitrary: w)
  case (Cons t ts)
  show ?case unfolding signal_loop.simps by (assumption | rule reach_steps reach_intros Cons)+
qed simp

lemma reach_interrupt_loop [reach_intros]: "reach e C w0 w \<Longrightarrow> Tasks \<in> C \<Longrightarrow> reach e C w0 (snd (interrupt_loop e now ts w))"
proof (induction ts arbitrary: w)
  case (Cons t ts)
  show ?case unfolding interrupt_loop.simps by (assumption | rule reach_steps reach_intros Cons)+
qed simp

lemma reach_recover_loop [reach_intros]:
  "reach e C w0 w \<Longrightarrow> Tasks \<in> C \<Longrightarrow> Sent \<in> C \<Longrightarrow> reach e C w0 (snd (recover_loop e now ts w))"
proof (induction ts arbitrary: w)
  case (Cons t ts)
  show ?case unfolding recover_loop.simps recover_one_def by (assumption | rule reach_steps reach_intros Cons)+
qed simp

lemma reach_lifecycle [reach_intros]:
  assumes "reach e C w0 w"
  shows "Sent \<in> C \<Longrightarrow> reach e C w0 (snd (signalStopToActiveTasks e w))"
    "Tasks \<in> C \<Longrightarrow> reach e C w0 (snd (interruptRunningTasks e w))"
    "Tasks \<in> C \<Longrightarrow> Sent \<in> C \<Longrightarrow> reach e C w0 (snd (RecoverInterruptedTasks order e w))"
  unfolding signalStopToActiveTasks_def interruptRunningTasks_def RecoverInterruptedTasks_def
  by (assumption | rule reach_steps reach_intros assms)+

text \<open>Other goroutines keep the invariant and do not end the shutdown.\<close>

definition cooperative :: "env \<Rightarrow> (nat \<Rightarrow> world \<Rightarrow> world) \<Rightarrow> bool" where
  "cooperative e others \<longleftrightarrow> (\<forall>k w. reach e (- {Shut}) w (others k w))"

lemma cooperative_reach: "cooperative e others \<Longrightarrow> reach e C w0 w \<Longrightarrow> - {Shut} \<subseteq> C \<Longrightarrow> reach e C w0 (others k w)"
  unfolding cooperative_def by (blast intro: reach_trans reach_mono)

lemma reach_waitForActiveTasks [reach_intros]:
  "reach e C w0 w \<Longrightarrow> cooperative e others \<Longrightarrow> - {Shut} \<subseteq> C \<Longrightarrow> reach e C w0 (snd (waitForActiveTasks k err others e w))"
proof (induction k arbitrary: w)
  case 0
  then show ?case unfolding waitForActiveTasks.simps [of 0] nat.case
    by - (assumption | rule reach_steps reach_intros cooperative_reach)+
next
  case (Suc k)
  then show ?case unfolding waitForActiveTasks.simps [of "Suc k"] nat.case
    by - (assumption | rule reach_steps reach_intros cooperative_reach Suc.IH)+
qed

lemma reach_set_shut [reach_intros]: "reach e C w0 w \<Longrightarrow> Shut \<in> C \<Longrightarrow> reach e C w0 (w\<lparr>w_shuttingDown := b\<rparr>)"
  by (erule reachI) (simp_all add: changesI world_inv_def)

lemma reach_Shutdown:
  assumes "reach e UNIV w0 w" "cooperative e others"
  shows "reach e UNIV w0 (snd (Shutdown k err others e w))"
  unfolding Shutdown_def by (assumption | rule reach_steps reach_intros cooperative_reach assms UNIV_I subset_UNIV)+

section \<open>Sweeping through the stored tasks\<close>

text \<open>
  Shutdown and recovery walk through a list of tasks and rewrite those in a certain state. The
  loop promises one rewrite per such task and no other change to the stored tasks.
\<close>

locale sweep =
  fixes e :: env and hit :: "Task \<Rightarrow> bool" and f :: "Task \<Rightarrow> Task" and loop :: "Task list \<Rightarrow> world \<Rightarrow> unit \<times> world"
  assumes loop_Nil: "loop [] w = ((), w)"
    and loop_Cons: "reliable e \<Longrightarrow> world_inv e w \<Longrightarrow> task w (t_ID t) = Some t \<Longrightarrow>
      \<exists>w1. loop (t # ts) w = loop ts w1 \<and> world_inv e w1 \<and>
        task w1 = (task w)(t_ID t \<mapsto> (if hit t then f t else t))"
begin

lemma loop_all:
  assumes "reliable e" "world_inv e w" "distinct (map t_ID ts)" "\<And>t. t \<in> set ts \<Longrightarrow> task w (t_ID t) = Some t"
  shows "\<exists>w'. loop ts w = ((), w') \<and>
    (\<forall>i. task w' i = (if i \<in> t_ID ` set ts then map_option (\<lambda>t. if hit t then f t else t) (task w i) else task w i))"
  using assms(2-4)
proof (induction ts arbitrary: w)
  case Nil
  then show ?case by (simp add: loop_Nil)
next
  case (Cons t ts)
  obtain w1 where w1: "loop (t # ts) w = loop ts w1" "world_inv e w1"
      "task w1 = (task w)(t_ID t \<mapsto> (if hit t then f t else t))"
    using loop_Cons [OF assms(1) Cons.prems(1) Cons.prems(3), of t ts] by auto
  have out: "t_ID t \<notin> t_ID ` set ts" "distinct (map t_ID ts)" using Cons.prems(2) by simp_all
  have "task w1 (t_ID u) = Some u" if "u \<in> set ts" for u
    using out(1) imageI [OF that, of t_ID] Cons.prems(3) [of u] that w1(3) by (metis fun_upd_other list.set_intros(2))
  from Cons.IH [OF w1(2) out(2) this] obtain w' where w': "loop ts w1 = ((), w')"
      "\<And>i. task w' i = (if i \<in> t_ID ` set ts then map_option (\<lambda>t. if hit t then f t else t) (task w1 i) else task w1 i)"
    by blast
  have "task w' i = (if i \<in> t_ID ` set (t # ts) then map_option (\<lambda>t. if hit t then f t else t) (task w i) else task w i)" for i
    using w'(2) [of i] w1(3) out(1) Cons.prems(3) [of t] by (cases "i = t_ID t") auto
  then show ?case using w1(1) w'(1) by auto
qed

lemma loop_stored:
  assumes "reliable e" "world_inv e w" "mset ts = mset (all_tasks (w_tasks w))"
  shows "\<exists>w'. loop ts w = ((), w') \<and> task w' = map_option (\<lambda>t. if hit t then f t else t) \<circ> task w"
proof -
  have mem: "t \<in> set ts \<longleftrightarrow> task w (t_ID t) = Some t" for t
    using all_tasks_mem [OF world_invD(1) [OF assms(2)]] mset_eq_setD [OF assms(3)] by (simp add: task_def)
  have "mset (map t_ID ts) = mset (map t_ID (all_tasks (w_tasks w)))" using assms(3) by (simp only: mset_map)
  then have "distinct (map t_ID ts)"
    using all_tasks_sorted [OF world_invD(1) [OF assms(2)]] by (metis mset_eq_imp_distinct_iff)
  from loop_all [OF assms(1,2) this] mem obtain w' where w': "loop ts w = ((), w')"
      "\<And>i. task w' i = (if i \<in> t_ID ` set ts then map_option (\<lambda>t. if hit t then f t else t) (task w i) else task w i)"
    by blast
  have "task w i = None" if "i \<notin> t_ID ` set ts" for i
  proof (cases "task w i")
    case (Some t)
    then have "t_ID t = i" using task_view_key [OF world_invD(1) [OF assms(2)]] by (auto simp: task_def)
    then show ?thesis using Some mem [of t] that by auto
  qed
  then have "task w' i = map_option (\<lambda>t. if hit t then f t else t) (task w i)" for i
    using w'(2) [of i] by auto
  then show ?thesis using w'(1) by (auto simp: fun_eq_iff)
qed

end

lemma update_inv: "world_inv e w \<Longrightarrow> world_inv e (snd (taskRepo_Update e t w))"
proof -
  have "reach e UNIV w (snd (taskRepo_Update e t w))" by (intro reach_intros reach_refl UNIV_I)
  then show "world_inv e w \<Longrightarrow> world_inv e (snd (taskRepo_Update e t w))" by (rule reach_invU)
qed

interpretation interrupt: sweep e active "interrupted now" "interrupt_loop e now" for e now
proof (unfold_locales, goal_cases)
  case (2 w t ts)
  have id: "t_ID (interrupted now t) = t_ID t" by (simp add: interrupted_def)
  show ?case
  proof (cases "active t")
    case True
    let ?w1 = "snd (taskRepo_Update e (interrupted now t) w)"
    have "task ?w1 = (task w)(t_ID t \<mapsto> interrupted now t)"
      using taskRepo_Update_run(2) [of e w "interrupted now t"] 2 id by simp
    then show ?thesis using True update_inv [OF 2(2)] by (intro exI [of _ ?w1]) (simp add: case_prod_beta)
  qed (use 2 in \<open>auto simp: fun_upd_idem\<close>)
qed simp

interpretation recover: sweep e "\<lambda>t. t_State t = Interrupted" "recovered now" "recover_loop e now" for e now
proof (unfold_locales, goal_cases)
  case (2 w t ts)
  have id: "t_ID (recovered now t) = t_ID t" by (simp add: recovered_def)
  show ?case
  proof (cases "t_State t = Interrupted")
    case True
    let ?p = "case taskPropletRepo_Get e (t_ID t) w of (Err err, w) \<Rightarrow> ((), w)
      | (Ok pid, w) \<Rightarrow> (case Publish e (halt_message e (t_ID t) pid) w of (_, w) \<Rightarrow> ((), w))"
    have p: "reach e {Sent} w (snd ?p)" by (assumption | rule reach_steps reach_intros reach_refl insertI1)+
    let ?w1 = "snd (taskRepo_Update e (recovered now t) (snd ?p))"
    have inv: "world_inv e (snd ?p)" and v: "task (snd ?p) = task w" using reach_inv [OF p 2(2)] reach_views [OF p] by auto
    have "task ?w1 = (task w)(t_ID t \<mapsto> recovered now t)"
      using taskRepo_Update_run(2) [of e "snd ?p" "recovered now t"] inv v 2 id by simp
    then show ?thesis using True update_inv [OF inv]
      by (intro exI [of _ ?w1]) (simp add: recover_one_def case_prod_beta)
  qed (use 2 in \<open>auto simp: fun_upd_idem\<close>)
qed simp

section \<open>Properties\<close>

definition no_active :: "world \<Rightarrow> bool" where
  "no_active w \<longleftrightarrow> (\<forall>i t. task w i = Some t \<longrightarrow> \<not> active t)"

definition room :: "world \<Rightarrow> bool" where
  "room w \<longleftrightarrow> length (r_storage (w_tasks w)) + 100 < 2 ^ 64"

lemma room_reach: "reach e C w w' \<Longrightarrow> Tasks \<notin> C \<Longrightarrow> room w' = room w"
  by (simp add: room_def reach_frame(1))

lemma listed_tasks:
  assumes "reliable e" "world_inv e w" "room w"
  obtains w' where "listAllTasks e w = (Ok (all_tasks (w_tasks w)), w')" "reach e {} w w'"
proof -
  obtain w' where l: "listAllTasks e w = (Ok (all_tasks (w_tasks w)), w')"
    using listAllTasks_run [OF assms(1,2)] assms(3) by (auto simp: room_def)
  moreover have "reach e {} w w'" by (rule reach_result [OF l]) (intro reach_intros reach_refl)
  ultimately show thesis by (rule that)
qed

lemma interruptRunningTasks_run:
  assumes "reliable e" "world_inv e w" "room w"
  shows "\<exists>now w'. interruptRunningTasks e w = (Ok (), w') \<and>
    task w' = map_option (\<lambda>t. if active t then interrupted now t else t) \<circ> task w"
proof -
  obtain w1 where l: "listAllTasks e w = (Ok (all_tasks (w_tasks w)), w1)" "reach e {} w w1"
    by (rule listed_tasks [OF assms])
  have inv: "world_inv e (tick w1)" using reach_inv [OF l(2) assms(2)] by simp
  have "all_tasks (w_tasks (tick w1)) = all_tasks (w_tasks w)" "task (tick w1) = task w"
    using reach_frame [OF l(2)] reach_views [OF l(2)] by simp_all
  then obtain w' where "interrupt_loop e (e_now e (w_step w1)) (all_tasks (w_tasks w)) (tick w1) = ((), w')"
      "task w' = map_option (\<lambda>t. if active t then interrupted (e_now e (w_step w1)) t else t) \<circ> task w"
    using interrupt.loop_stored [OF assms(1) inv, of "all_tasks (w_tasks w)" "e_now e (w_step w1)"] by auto
  then show ?thesis using l(1) by (auto simp: interruptRunningTasks_def time_Now_def)
qed

lemma interrupted_inactive: "\<not> active (if active t then interrupted now t else t)"
  by (simp add: active_def interrupted_def)

lemma no_active_interrupted:
  assumes "task w' = map_option (\<lambda>t. if active t then interrupted now t else t) \<circ> task w"
  shows "no_active w'"
  unfolding no_active_def
proof (intro allI impI)
  fix i t assume "task w' i = Some t"
  then obtain u where "t = (if active u then interrupted now u else u)" unfolding assms comp_def map_option_eq_Some by blast
  then show "\<not> active t" by (simp only: interrupted_inactive not_False_eq_True)
qed

text \<open>
  C10. Shutdown ends with a quiet service, whatever other goroutines do meanwhile: it returns without
  an error however long the waits last, no stored task is running or scheduled any more, and
  later requests to start a task or a job are refused without an effect.
\<close>

theorem Shutdown_quiesces:
  assumes "reliable e" "world_inv e w" "cooperative e others" "room w" "\<forall>k w. room w \<longrightarrow> room (others k w)"
  shows "\<exists>w'. Shutdown ticks ctxErr others e w = (Ok (), w') \<and> w_shuttingDown w' \<and> no_active w' \<and>
    StartTask (Suc n) e ctx i w' = (Some (Err (Sentinel errShuttingDown)), w') \<and>
    StartJob n order quote e ctx j w' = (Some (Err (Sentinel errShuttingDown)), w')"
proof -
  let ?w = "w\<lparr>w_shuttingDown := True\<rparr>"
  let ?w1 = "snd (signalStopToActiveTasks e ?w)"
  let ?w2 = "others (Suc ticks) ?w1"
  let ?w3 = "snd (waitForActiveTasks ticks ctxErr others e ?w2)"
  have r1: "reach e {Sent} ?w ?w1" by (intro reach_intros reach_refl) simp
  have r2: "reach e (- {Shut}) ?w1 ?w2" using assms(3) by (simp add: cooperative_def)
  have r3: "reach e (- {Shut}) ?w2 ?w3" by (intro reach_intros reach_refl assms(3) order_refl)
  have "reach e (- {Shut}) ?w ?w3"
    by (rule reach_trans [OF reach_mono [OF r1] reach_trans [OF r2 r3]]) simp
  then have inv3: "world_inv e ?w3" and shut3: "w_shuttingDown ?w3"
    using reach_inv assms(2) by (fastforce simp: world_inv_def, simp add: reach_frame(6))
  have room_wait: "room w0 \<Longrightarrow> room (snd (waitForActiveTasks k ctxErr others e w0))" for k w0
  proof (induction k arbitrary: w0)
    case 0
    obtain r w1 where l: "listAllTasks e w0 = (r, w1)" by fastforce
    have "reach e {} w0 w1" by (rule reach_result [OF l]) (intro reach_intros reach_refl)
    then have "room w1" using 0 by (simp add: room_reach)
    then show ?case using l assms(5) by (cases r) (simp_all add: waitForActiveTasks.simps [of 0])
  next
    case (Suc k)
    obtain r w1 where l: "listAllTasks e w0 = (r, w1)" by fastforce
    have "reach e {} w0 w1" by (rule reach_result [OF l]) (intro reach_intros reach_refl)
    then have "room w1" using Suc.prems by (simp add: room_reach)
    then show ?case using l assms(5) Suc.IH by (cases r) (simp_all add: waitForActiveTasks.simps [of "Suc k"])
  qed
  have "room ?w1" using room_reach [OF r1] assms(4) by (simp add: room_def)
  then have "room ?w3" using room_wait assms(5) by blast
  then obtain now w' where i: "interruptRunningTasks e ?w3 = (Ok (), w')"
      "task w' = map_option (\<lambda>t. if active t then interrupted now t else t) \<circ> task ?w3"
    using interruptRunningTasks_run [OF assms(1) inv3] by blast
  have "no_active w'" by (rule no_active_interrupted [OF i(2)])
  moreover have "reach e {Tasks} ?w3 w'" by (rule reach_result [OF i(1)]) (intro reach_intros reach_refl, simp)
  then have "w_shuttingDown w'" using shut3 by (simp add: reach_frame(6))
  moreover have "Shutdown ticks ctxErr others e w = (Ok (), w')" using i(1) by (simp add: Shutdown_def case_prod_beta)
  ultimately show ?thesis by (simp add: StartTask_with_def StartJob_def)
qed

lemma Shutdown_quiesces_witness:
  "\<exists>w'. Shutdown 2 (Sentinel DeadlineExceeded) (\<lambda>k w. w) env0 busy_world = (Ok (), w') \<and> w_shuttingDown w' \<and> no_active w' \<and>
    StartTask (Suc 0) env0 ctx0 ''a'' w' = (Some (Err (Sentinel errShuttingDown)), w') \<and>
    StartJob 0 id id env0 ctx0 ''j'' w' = (Some (Err (Sentinel errShuttingDown)), w')"
proof (rule Shutdown_quiesces)
  have "length (r_storage (w_tasks busy_world)) = 1" by code_simp
  then show "room busy_world" by (simp add: room_def)
qed (simp_all add: cooperative_def)

lemma RecoverInterruptedTasks_run:
  assumes "reliable e" "world_inv e w" "room w" "\<And>ts. mset (order ts) = mset ts"
  shows "\<exists>now w'. RecoverInterruptedTasks order e w = (Ok (), w') \<and>
    task w' = map_option (\<lambda>t. if t_State t = Interrupted then recovered now t else t) \<circ> task w"
proof -
  obtain w1 where l: "listAllTasks e w = (Ok (all_tasks (w_tasks w)), w1)" "reach e {} w w1"
    by (rule listed_tasks [OF assms(1-3)])
  have inv: "world_inv e (tick w1)" using reach_inv [OF l(2) assms(2)] by simp
  have same: "all_tasks (w_tasks (tick w1)) = all_tasks (w_tasks w)" "task (tick w1) = task w"
    using reach_frame [OF l(2)] reach_views [OF l(2)] by simp_all
  have "mset (order (all_tasks (w_tasks w))) = mset (all_tasks (w_tasks (tick w1)))" using assms(4) same by simp
  from recover.loop_stored [OF assms(1) inv this, of "e_now e (w_step w1)"]
  obtain w' where "recover_loop e (e_now e (w_step w1)) (order (all_tasks (w_tasks w))) (tick w1) = ((), w')"
      "task w' = map_option (\<lambda>t. if t_State t = Interrupted then recovered (e_now e (w_step w1)) t else t) \<circ> task w"
    using same by auto
  then show ?thesis using l(1) by (auto simp: RecoverInterruptedTasks_def time_Now_def)
qed

lemma no_interrupted_recovered:
  assumes "task w' = map_option (\<lambda>t. if t_State t = Interrupted then recovered now t else t) \<circ> task w"
  shows "no_interrupted w'"
  unfolding no_interrupted_def
proof (intro allI impI)
  fix i t assume "task w' i = Some t"
  then obtain u where u: "t = (if t_State u = Interrupted then recovered now u else u)"
    unfolding assms comp_def map_option_eq_Some by blast
  show "t_State t \<noteq> Interrupted" by (cases "t_State u = Interrupted") (simp_all add: u recovered_def)
qed

lemma length_storage:
  assumes "world_inv e w"
  shows "length (r_storage (w_tasks w)) = card (dom (task w))"
proof -
  note inv = world_invD(1) [OF assms]
  have "i \<in> dom (task w) \<longleftrightarrow> i \<in> t_ID ` set (all_tasks (w_tasks w))" for i
  proof
    assume "i \<in> dom (task w)"
    then obtain t where t: "task_view (w_tasks w) i = Some t" by (auto simp: task_def)
    then have "t_ID t = i" using task_view_key [OF inv] by blast
    then show "i \<in> t_ID ` set (all_tasks (w_tasks w))" using t all_tasks_mem [OF inv, of t] by blast
  next
    assume "i \<in> t_ID ` set (all_tasks (w_tasks w))"
    then obtain t where "t \<in> set (all_tasks (w_tasks w))" "i = t_ID t" by blast
    then show "i \<in> dom (task w)" using all_tasks_mem [OF inv, of t] by (simp add: task_def domI)
  qed
  then have "dom (task w) = t_ID ` set (all_tasks (w_tasks w))" by blast
  then have "card (dom (task w)) = length (all_tasks (w_tasks w))"
    using all_tasks_sorted [OF inv] distinct_card [of "map t_ID (all_tasks (w_tasks w))"] by simp
  then show ?thesis using length_all_tasks [OF inv] by simp
qed

text \<open>
  C12. Recovery after a restart: in whatever order its goroutines run, each task that was
  interrupted becomes failed, no other task changes, and from then on starting any task returns:
  the recursion that an interrupted task can cause is gone.
\<close>

theorem recovery_unblocks:
  assumes "reliable e" "world_inv e w" "room w" "\<And>ts. mset (order ts) = mset ts"
  shows "\<exists>now w'. RecoverInterruptedTasks order e w = (Ok (), w') \<and>
    task w' = map_option (\<lambda>t. if t_State t = Interrupted then recovered now t else t) \<circ> task w \<and>
    (\<forall>n ctx i. \<exists>r w''. StartTask (Suc (Suc n)) e ctx i w' = (Some r, w''))"
proof -
  obtain now w' where r: "RecoverInterruptedTasks order e w = (Ok (), w')"
      "task w' = map_option (\<lambda>t. if t_State t = Interrupted then recovered now t else t) \<circ> task w"
    using RecoverInterruptedTasks_run [OF assms] by blast
  have "reach e {Tasks, Sent} w w'" by (rule reach_result [OF r(1)]) (intro reach_intros reach_refl, simp_all)
  then have inv: "world_inv e w'" using assms(2) by (rule reach_inv)
  have "dom (task w') = dom (task w)" by (auto simp: r(2))
  then have "length (r_storage (w_tasks w')) < 2 ^ 64"
    using length_storage [OF inv] length_storage [OF assms(2)] assms(3) by (simp add: room_def)
  from StartTask_ends [OF inv this no_interrupted_recovered [OF r(2)]] r show ?thesis by blast
qed

definition halted_world :: world where
  "halted_world = snd (taskRepo_Create env0 (Task_zero\<lparr>t_ID := ''a'', t_State := Interrupted\<rparr>) NewService)"

lemma recovery_unblocks_witness:
  "\<exists>now w'. RecoverInterruptedTasks rev env0 halted_world = (Ok (), w') \<and>
    task w' = map_option (\<lambda>t. if t_State t = Interrupted then recovered now t else t) \<circ> task halted_world \<and>
    (\<forall>n ctx i. \<exists>r w''. StartTask (Suc (Suc n)) env0 ctx i w' = (Some r, w''))"
proof (rule recovery_unblocks)
  have "reach env0 {Tasks} NewService halted_world"
    unfolding halted_world_def by (intro reach_write reach_refl) simp_all
  then show "world_inv env0 halted_world" by (rule reach_inv) simp
  have "length (r_storage (w_tasks halted_world)) = 1" by code_simp
  then show "room halted_world" by (simp add: room_def)
qed simp_all

end
