(* ===== verification/CronRun.thy ===== *)
theory CronRun
  imports Lifecycle
begin

text \<open>
  The cron scheduler (\<^verbatim>\<open>manager/cron.go\<close>): loading the schedules, starting the tasks that are due
  and the loop that does so on every tick. It starts tasks through the plugin middleware, as the
  service it is given; the events of its loop are a parameter.
\<close>

definition cron_listAllTasks :: "env \<Rightarrow> world \<Rightarrow> Task list result \<times> world" where
  "cron_listAllTasks e w = task_pages e 0 [] w"

definition is_due :: "gotime \<Rightarrow> Task \<Rightarrow> bool" where
  "is_due now t \<longleftrightarrow> t_Schedule t \<noteq> [] \<and> t_NextRun t \<noteq> 0 \<and> \<not> now < t_NextRun t"

definition triggerScheduledTask :: "nat \<Rightarrow> env \<Rightarrow> ctx \<Rightarrow> Task \<Rightarrow> world \<Rightarrow> unit result running" where
  "triggerScheduledTask n e ctx t w =
     (case pm_StartTask n e (ContextWithSystem ctx) (t_ID t) w of
        (None, w) \<Rightarrow> (None, w)
      | (Some (Err err), w) \<Rightarrow> (Some (Err (Wrap ''failed to start scheduled task: '' err [])), w)
      | (Some (Ok _), w) \<Rightarrow> (Some (Ok ()), w))"

text \<open>What follows a start: the next run of a recurring task, else the end of the schedule.\<close>

definition reschedule :: "env \<Rightarrow> Task \<Rightarrow> world \<Rightarrow> unit \<times> world" where
  "reschedule e t w =
     (case taskRepo_Get e (t_ID t) w of
        (Err err, w) \<Rightarrow> ((), w)
      | (Ok fresh, w) \<Rightarrow>
          if t_IsRecurring t then case updateNextRun e fresh w of (_, w) \<Rightarrow> ((), w)
          else case time_Now e w of (now, w) \<Rightarrow>
               case taskRepo_Update e (fresh\<lparr>t_Schedule := [], t_NextRun := 0, t_UpdatedAt := now\<rparr>) w of (_, w) \<Rightarrow> ((), w))"

fun due_loop :: "nat \<Rightarrow> env \<Rightarrow> ctx \<Rightarrow> Task list \<Rightarrow> world \<Rightarrow> unit running" where
  "due_loop n e ctx [] w = (Some (), w)"
| "due_loop n e ctx (t # ts) w =
     (case triggerScheduledTask n e ctx t w of
        (None, w) \<Rightarrow> (None, w)
      | (Some (Err err), w) \<Rightarrow> due_loop n e ctx ts w
      | (Some (Ok _), w) \<Rightarrow> (case reschedule e t w of (_, w) \<Rightarrow> due_loop n e ctx ts w))"

definition processScheduledTasks :: "nat \<Rightarrow> env \<Rightarrow> ctx \<Rightarrow> world \<Rightarrow> unit result running" where
  "processScheduledTasks n e ctx w =
     (case cron_listAllTasks e w of
        (Err err, w) \<Rightarrow> (Some (Err (Wrap ''failed to list tasks: '' err [])), w)
      | (Ok tasks, w) \<Rightarrow>
          (case time_Now e w of (now, w) \<Rightarrow>
           case due_loop n e ctx (GetReadyTasksByPriority (filter (is_due now) tasks)) w of
             (None, w) \<Rightarrow> (None, w)
           | (Some _, w) \<Rightarrow> (Some (Ok ()), w)))"

fun load_loop :: "env \<Rightarrow> Task list \<Rightarrow> world \<Rightarrow> unit \<times> world" where
  "load_loop e [] w = ((), w)"
| "load_loop e (t # ts) w =
     (if t_Schedule t = [] then load_loop e ts w
      else case time_Now e w of (now, w) \<Rightarrow>
        if t_NextRun t = 0 \<or> t_NextRun t < now
        then case updateNextRun e t w of (_, w) \<Rightarrow> load_loop e ts w
        else load_loop e ts w)"

definition loadScheduledTasks :: "env \<Rightarrow> world \<Rightarrow> unit result \<times> world" where
  "loadScheduledTasks e w =
     (case cron_listAllTasks e w of
        (Err err, w) \<Rightarrow> (Err (Wrap ''failed to list tasks: '' err []), w)
      | (Ok tasks, w) \<Rightarrow> (case load_loop e tasks w of (_, w) \<Rightarrow> (Ok (), w)))"

text \<open>The cases of the \<open>select\<close> in \<open>Start\<close>; with no further event the loop still waits.\<close>

datatype cron_event = CtxDone error | StopChan | Tick

fun cron_loop :: "nat \<Rightarrow> env \<Rightarrow> ctx \<Rightarrow> cron_event list \<Rightarrow> world \<Rightarrow> unit result running" where
  "cron_loop n e ctx [] w = (None, w)"
| "cron_loop n e ctx (CtxDone err # evs) w = (Some (Err err), w)"
| "cron_loop n e ctx (StopChan # evs) w = (Some (Ok ()), w)"
| "cron_loop n e ctx (Tick # evs) w =
     (case processScheduledTasks n e ctx w of
        (None, w) \<Rightarrow> (None, w)
      | (Some _, w) \<Rightarrow> cron_loop n e ctx evs w)"

definition cron_Start :: "nat \<Rightarrow> env \<Rightarrow> ctx \<Rightarrow> cron_event list \<Rightarrow> world \<Rightarrow> unit result running" where
  "cron_Start n e ctx evs w = (case loadScheduledTasks e w of (_, w) \<Rightarrow> cron_loop n e ctx evs w)"

text \<open>\<open>service.StartCronScheduler\<close>; the scheduler is always there.\<close>

definition StartCronScheduler :: "nat \<Rightarrow> env \<Rightarrow> ctx \<Rightarrow> cron_event list \<Rightarrow> world \<Rightarrow> unit result running" where
  "StartCronScheduler n e ctx evs w = cron_Start n e ctx evs w"

section \<open>Frames\<close>

lemma reach_reschedule [reach_intros]:
  "reach e C w0 w \<Longrightarrow> Tasks \<in> C \<Longrightarrow> reach e C w0 (snd (reschedule e t w))"
  unfolding reschedule_def by (assumption | rule reach_steps reach_intros)+

lemma reach_due_loop [reach_intros]:
  "reach e C w0 w \<Longrightarrow> start_parts \<subseteq> C \<Longrightarrow> reach e C w0 (snd (due_loop n e ctx ts w))"
proof (induction ts arbitrary: w)
  case (Cons t ts)
  have C: "Tasks \<in> C" using Cons.prems(2) by auto
  show ?case unfolding due_loop.simps triggerScheduledTask_def
    by (assumption | rule reach_steps reach_intros Cons C)+
qed simp

lemma reach_load_loop [reach_intros]: "reach e C w0 w \<Longrightarrow> Tasks \<in> C \<Longrightarrow> reach e C w0 (snd (load_loop e ts w))"
proof (induction ts arbitrary: w)
  case (Cons t ts)
  show ?case unfolding load_loop.simps by (assumption | rule reach_steps reach_intros Cons)+
qed simp

lemma reach_cron [reach_intros]:
  assumes "reach e C w0 w" "start_parts \<subseteq> C"
  shows "reach e C w0 (snd (processScheduledTasks n e ctx w))" "reach e C w0 (snd (loadScheduledTasks e w))"
proof -
  have C: "Tasks \<in> C" using assms(2) by auto
  show "reach e C w0 (snd (processScheduledTasks n e ctx w))" "reach e C w0 (snd (loadScheduledTasks e w))"
    unfolding processScheduledTasks_def loadScheduledTasks_def cron_listAllTasks_def
    by (assumption | rule reach_steps reach_intros assms C)+
qed

lemma reach_cron_loop [reach_intros]:
  "reach e C w0 w \<Longrightarrow> start_parts \<subseteq> C \<Longrightarrow> reach e C w0 (snd (cron_loop n e ctx evs w))"
proof (induction evs arbitrary: w)
  case (Cons ev evs)
  show ?case
  proof (cases ev)
    case Tick
    show ?thesis unfolding Tick cron_loop.simps by (assumption | rule reach_steps reach_intros Cons)+
  qed (simp_all add: Cons.prems)
qed simp

lemma reach_StartCronScheduler [reach_intros]:
  "reach e C w0 w \<Longrightarrow> start_parts \<subseteq> C \<Longrightarrow> reach e C w0 (snd (StartCronScheduler n e ctx evs w))"
  unfolding StartCronScheduler_def cron_Start_def by (assumption | rule reach_steps reach_intros)+

section \<open>Properties\<close>





end
