(* ===== verification/Invoke.thy ===== *)
theory Invoke
  imports CronRun
begin

text \<open>
  Invocation of latent tasks (\<^verbatim>\<open>manager/service.go\<close>). An invocation registers a channel of
  capacity one under a fresh identifier, publishes the request and waits for the result, the
  timer or the end of the context. What other goroutines do while it waits is the parameter
  \<open>others\<close>, and which case of the \<open>select\<close> is taken is the parameter \<open>wakes\<close>; both are indexed by
  the number of calls made so far. A result is taken only if one is there: otherwise the call
  has not returned.
\<close>

section \<open>Candidates\<close>

text \<open>\<open>strings.Contains\<close>.\<close>

fun strings_Contains :: "string \<Rightarrow> string \<Rightarrow> bool" where
  "strings_Contains [] sub = (sub = [])"
| "strings_Contains (c # s) sub = (take (length sub) (c # s) = sub \<or> strings_Contains s sub)"

definition errNotPrecompiledSubstr :: string where
  "errNotPrecompiledSubstr = ''has not been precompiled''"

definition isNotPrecompiledError :: "error \<Rightarrow> bool" where
  "isNotPrecompiledError err = strings_Contains (error_text err) errNotPrecompiledSubstr"

fun index_of :: "string \<Rightarrow> Proplet list \<Rightarrow> nat option" where
  "index_of firstID [] = None"
| "index_of firstID (p # ps) = (if p_ID p = firstID then Some 0 else map_option Suc (index_of firstID ps))"

definition orderedProplets :: "Proplet list \<Rightarrow> string \<Rightarrow> Proplet list" where
  "orderedProplets proplets firstID =
     (case index_of firstID proplets of
        None \<Rightarrow> proplets
      | Some idx \<Rightarrow> if idx = 0 then proplets else drop idx proplets @ take idx proplets)"

section \<open>Messages\<close>

definition publishInvoke ::
    "env \<Rightarrow> string \<Rightarrow> string \<Rightarrow> string \<Rightarrow> string list option \<Rightarrow> strmap option \<Rightarrow> world \<Rightarrow> unit result \<times> world" where
  "publishInvoke e taskID propletID invocationID inputs env w =
     (let payload = [(''id'', AString taskID), (keyBroadcast, ABool False), (''proplet_id'', AString propletID),
                     (''invocation_id'', AString invocationID),
                     (''inputs'', case inputs of None \<Rightarrow> ANil | Some xs \<Rightarrow> AStrSlice xs)] @
                    (if nil_list env \<noteq> [] then [(''env'', AMap (map (\<lambda>(k, v). (k, AString v)) (nil_list env)))] else [])
      in Publish e \<lparr>m_topic = e_baseTopic e @ ''/control/manager/invoke'', m_payload = PMap payload\<rparr> w)"

definition redeployLatent :: "env \<Rightarrow> Task \<Rightarrow> string \<Rightarrow> world \<Rightarrow> unit result \<times> world" where
  "redeployLatent e t propletID w =
     Publish e \<lparr>m_topic = e_baseTopic e @ ''/control/manager/start'', m_payload = PStart
       \<lparr>sl_ID = t_ID t, sl_Name = t_Name t, sl_State = t_State t, sl_ImageURL = t_ImageURL t, sl_File = t_File t,
        sl_Inputs = t_Inputs t, sl_CLIArgs = t_CLIArgs t, sl_Broadcast = False, sl_Daemon = False, sl_Latent = True,
        sl_Env = t_Env t, sl_Encrypted = t_Encrypted t, sl_KBSResourcePath = t_KBSResourcePath t,
        sl_MonitoringProfile = t_MonitoringProfile t, sl_PropletID = propletID,
        sl_HalStoragePath = t_HalStoragePath t, sl_ParentResults = None, sl_Metadata = None\<rparr>\<rparr> w"

fun recoverLatentDeployment :: "env \<Rightarrow> Task \<Rightarrow> Proplet list \<Rightarrow> world \<Rightarrow> unit \<times> world" where
  "recoverLatentDeployment e t [] w = ((), w)"
| "recoverLatentDeployment e t (p # ps) w =
     (case redeployLatent e t (p_ID p) w of (_, w) \<Rightarrow> recoverLatentDeployment e t ps w)"

definition invocationProplet :: "env \<Rightarrow> Task \<Rightarrow> world \<Rightarrow> string result \<times> world" where
  "invocationProplet e t w =
     (if t_Broadcast t
      then case svc_SelectProplet e t w of
             (Err err, w) \<Rightarrow> (Err err, w)
           | (Ok p, w) \<Rightarrow> (Ok (p_ID p), w)
      else taskPropletRepo_Get e (t_ID t) w)"

section \<open>Waiting for a result\<close>

datatype wake = FromResult | FromTimer | FromCtx error

record waiting =
  wa_others :: "nat \<Rightarrow> world \<Rightarrow> world"
  wa_wakes :: "nat \<Rightarrow> wake"

definition register :: "string \<Rightarrow> world \<Rightarrow> world" where
  "register invocationID w = w\<lparr>w_pendingInvokes := AList.update invocationID None (w_pendingInvokes w)\<rparr>"

definition unregister :: "string \<Rightarrow> world \<Rightarrow> world" where
  "unregister invocationID w = w\<lparr>w_pendingInvokes := AList.delete invocationID (w_pendingInvokes w)\<rparr>"

text \<open>The \<open>select\<close>: \<^const>\<open>None\<close> when the chosen case is not enabled.\<close>

definition await :: "wake \<Rightarrow> Task \<Rightarrow> string \<Rightarrow> world \<Rightarrow> string result option" where
  "await wake t invocationID w =
     (case wake of
        FromResult \<Rightarrow>
          (case map_of (w_pendingInvokes w) invocationID of
             Some (Some res) \<Rightarrow> Some (if ir_err res \<noteq> [] then Err (NewError (ir_err res)) else Ok (ir_results res))
           | _ \<Rightarrow> None)
      | FromTimer \<Rightarrow> Some (Err (NewError (''invocation of task '' @ t_ID t @ '' timed out after 30s'')))
      | FromCtx err \<Rightarrow> Some (Err err))"

definition invokeOnProplet ::
    "waiting \<Rightarrow> env \<Rightarrow> Task \<Rightarrow> string \<Rightarrow> string list option \<Rightarrow> strmap option \<Rightarrow> world \<Rightarrow> string result running" where
  "invokeOnProplet wa e t propletID inputs env w =
     (case uuid_NewString e w of (invocationID, w) \<Rightarrow>
      case publishInvoke e (t_ID t) propletID invocationID inputs env (register invocationID w) of
        (Err err, w) \<Rightarrow> (Some (Err err), unregister invocationID w)
      | (Ok _, w) \<Rightarrow>
          (let k = w_step w; w = wa_others wa k w
           in case await (wa_wakes wa k) t invocationID w of
                None \<Rightarrow> (None, w)
              | Some r \<Rightarrow> (Some r, unregister invocationID w)))"

text \<open>The candidates in turn; the deployments are repeated after the last one has failed.\<close>

fun try_candidates ::
    "waiting \<Rightarrow> env \<Rightarrow> Task \<Rightarrow> string list option \<Rightarrow> strmap option \<Rightarrow> Proplet list \<Rightarrow> Proplet list \<Rightarrow> world \<Rightarrow> string result running" where
  "try_candidates wa e t inputs env cands [] w = (Some (Ok []), w)"
| "try_candidates wa e t inputs env cands (p # ps) w =
     (case invokeOnProplet wa e t (p_ID p) inputs env w of
        (None, w) \<Rightarrow> (None, w)
      | (Some (Ok results), w) \<Rightarrow> (Some (Ok results), w)
      | (Some (Err err), w) \<Rightarrow>
          if \<not> isNotPrecompiledError err then (Some (Err err), w)
          else if ps = []
          then case recoverLatentDeployment e t cands w of (_, w) \<Rightarrow> (Some (Err err), w)
          else try_candidates wa e t inputs env cands ps w)"

definition invokeBroadcast ::
    "waiting \<Rightarrow> env \<Rightarrow> Task \<Rightarrow> string list option \<Rightarrow> strmap option \<Rightarrow> world \<Rightarrow> string result running" where
  "invokeBroadcast wa e t inputs env w =
     (case listAllActiveProplets e w of
        (Err err, w) \<Rightarrow> (Some (Err err), w)
      | (Ok proplets, w) \<Rightarrow>
          (case scheduler_SelectProplet t proplets w of
             (Err err, w) \<Rightarrow> (Some (Err err), w)
           | (Ok first, w) \<Rightarrow>
               (let cands = orderedProplets proplets (p_ID first)
                in try_candidates wa e t inputs env cands cands w)))"

definition InvokeTask ::
    "waiting \<Rightarrow> env \<Rightarrow> string \<Rightarrow> string list option \<Rightarrow> strmap option \<Rightarrow> world \<Rightarrow> string result running" where
  "InvokeTask wa e taskID inputs env w =
     (if w_shuttingDown w then (Some (Err (Sentinel errShuttingDown)), w)
      else case GetTask e taskID w of
        (Err err, w) \<Rightarrow> (Some (Err err), w)
      | (Ok t, w) \<Rightarrow>
          if \<not> t_Latent t
          then (Some (Err (NewError (''task '' @ taskID @ '' is not a latent task and cannot be invoked''))), w)
          else if \<not> t_Broadcast t
          then case invocationProplet e t w of
                 (Err err, w) \<Rightarrow> (Some (Err err), w)
               | (Ok propletID, w) \<Rightarrow> invokeOnProplet wa e t propletID inputs env w
          else invokeBroadcast wa e t inputs env w)"

section \<open>Frames\<close>

text \<open>Other goroutines keep the invariant and do not end a shutdown.\<close>

definition good_waiting :: "env \<Rightarrow> waiting \<Rightarrow> bool" where
  "good_waiting e wa \<longleftrightarrow> cooperative e (wa_others wa)"

lemma reach_registers [reach_intros]:
  assumes "reach e C w0 w" "Invokes \<in> C"
  shows "reach e C w0 (register i w)" "reach e C w0 (unregister i w)"
  using assms by (auto simp: register_def unregister_def changesI world_inv_def elim!: reachI)

lemma reach_invoke_messages [reach_intros]:
  assumes "reach e C w0 w" "Sent \<in> C"
  shows "reach e C w0 (snd (publishInvoke e i p k inputs env w))" "reach e C w0 (snd (redeployLatent e t p w))"
    "reach e C w0 (snd (recoverLatentDeployment e t ps w))"
proof -
  show "reach e C w0 (snd (publishInvoke e i p k inputs env w))"
    unfolding publishInvoke_def by (assumption | rule reach_steps reach_intros assms)+
  have one: "reach e C w0 w \<Longrightarrow> reach e C w0 (snd (redeployLatent e t p w))" for p w
    unfolding redeployLatent_def by (assumption | rule reach_intros assms(2))+
  then show "reach e C w0 (snd (redeployLatent e t p w))" using assms(1) by blast
  show "reach e C w0 (snd (recoverLatentDeployment e t ps w))" using assms(1)
  proof (induction ps arbitrary: w)
    case (Cons p ps)
    show ?case unfolding recoverLatentDeployment.simps by (assumption | rule reach_steps one Cons)+
  qed simp
qed

lemma reach_invokeOnProplet [reach_intros]:
  assumes "reach e C w0 w" "good_waiting e wa" "- {Shut} \<subseteq> C"
  shows "reach e C w0 (snd (invokeOnProplet wa e t p inputs env w))"
proof -
  have C: "Invokes \<in> C" "Sent \<in> C" using assms(3) by auto
  have others: "reach e C w0 w \<Longrightarrow> reach e C w0 (wa_others wa k w)" for k w
    using cooperative_reach assms(2,3) by (simp add: good_waiting_def)
  show ?thesis unfolding invokeOnProplet_def Let_def
    by (assumption | rule reach_steps reach_registers reach_invoke_messages reach_uuid others assms C)+
qed

lemma reach_try_candidates [reach_intros]:
  "reach e C w0 w \<Longrightarrow> good_waiting e wa \<Longrightarrow> - {Shut} \<subseteq> C \<Longrightarrow> reach e C w0 (snd (try_candidates wa e t inputs env cs ps w))"
proof (induction ps arbitrary: w)
  case (Cons p ps)
  have C: "Sent \<in> C" using Cons.prems(3) by auto
  show ?case unfolding try_candidates.simps by (assumption | rule reach_steps reach_intros Cons C)+
qed simp

lemma reach_InvokeTask [reach_intros]:
  assumes "reach e C w0 w" "good_waiting e wa" "- {Shut} \<subseteq> C"
  shows "reach e C w0 (snd (InvokeTask wa e i inputs env w))"
proof -
  have C: "Sched \<in> C" using assms(3) by auto
  show ?thesis unfolding InvokeTask_def invokeBroadcast_def invocationProplet_def
    by (assumption | rule reach_steps reach_intros assms C)+
qed

section \<open>Properties\<close>

lemma index_of_Some: "index_of i ps = Some k \<Longrightarrow> k < length ps \<and> p_ID (ps ! k) = i"
  by (induction ps arbitrary: k) (auto split: if_splits simp: nth_Cons')

text \<open>The candidates are the proplets, turned so that the chosen one comes first.\<close>

lemma orderedProplets_rotate:
  "mset (orderedProplets ps i) = mset ps" "i \<in> p_ID ` set ps \<Longrightarrow> p_ID (hd (orderedProplets ps i)) = i"
proof -
  show "mset (orderedProplets ps i) = mset ps"
    by (auto simp: orderedProplets_def split: option.splits) (metis append_take_drop_id mset_append union_commute)
  assume "i \<in> p_ID ` set ps"
  then have "index_of i ps \<noteq> None" by (induction ps) auto
  then obtain k where k: "index_of i ps = Some k" by blast
  from index_of_Some [OF k] show "p_ID (hd (orderedProplets ps i)) = i"
    unfolding orderedProplets_def k option.case by (cases "k = 0") (auto simp: hd_append hd_drop_conv_nth hd_conv_nth)
qed

definition message_result :: "anymap \<Rightarrow> string \<Rightarrow> string \<Rightarrow> bool" where
  "message_result msg u r \<longleftrightarrow> map_of msg ''invocation_id'' = Some (AString u) \<and> map_of msg ''results'' = Some (AString r) \<and>
     map_of msg ''error'' = None"

text \<open>The handler of results as messages arrive one after the other.\<close>

definition arrive :: "anymap list \<Rightarrow> world \<Rightarrow> world" where
  "arrive msgs w = fold (\<lambda>msg w. snd (updateInvokeResultsHandler msg w)) msgs w"

lemma handler_pending:
  "w_pendingInvokes (snd (updateInvokeResultsHandler msg w)) = w_pendingInvokes w \<or>
   (\<exists>i r. as_string (map_of msg ''invocation_id'') = Some i \<and> map_of (w_pendingInvokes w) i = Some None \<and>
     w_pendingInvokes (snd (updateInvokeResultsHandler msg w)) = AList.update i (Some r) (w_pendingInvokes w))"
proof (cases "as_string (map_of msg ''invocation_id'')")
  case (Some i)
  have "w_pendingInvokes (deliver i r w) = w_pendingInvokes w \<or> map_of (w_pendingInvokes w) i = Some None \<and>
      w_pendingInvokes (deliver i r w) = AList.update i (Some r) (w_pendingInvokes w)" for r
    by (simp add: deliver_def split: option.splits)
  then show ?thesis using Some unfolding updateInvokeResultsHandler_def Let_def by auto
qed (simp add: updateInvokeResultsHandler_def)

lemma arrive_full: "map_of (w_pendingInvokes w) u = Some (Some r) \<Longrightarrow> map_of (w_pendingInvokes (arrive msgs w)) u = Some (Some r)"
proof (induction msgs arbitrary: w)
  case (Cons m ms)
  have "map_of (w_pendingInvokes (snd (updateInvokeResultsHandler m w))) u = Some (Some r)"
    using handler_pending [of m w] Cons.prems by (auto simp: update_conv')
  then show ?case using Cons.IH by (simp add: arrive_def)
qed (simp add: arrive_def)

lemma arrive_other:
  "list_all (\<lambda>m. as_string (map_of m ''invocation_id'') \<noteq> Some u) msgs \<Longrightarrow>
   map_of (w_pendingInvokes (arrive msgs w)) u = map_of (w_pendingInvokes w) u"
proof (induction msgs arbitrary: w)
  case (Cons m ms)
  have "map_of (w_pendingInvokes (snd (updateInvokeResultsHandler m w))) u = map_of (w_pendingInvokes w) u"
    using handler_pending [of m w] Cons.prems by (auto simp: update_conv')
  then show ?case using Cons by (simp add: arrive_def)
qed (simp add: arrive_def)

lemma arrive_first:
  assumes "map_of (w_pendingInvokes w) u = Some None" "u \<noteq> []" "message_result msg u r"
    and "list_all (\<lambda>m. as_string (map_of m ''invocation_id'') \<noteq> Some u) pre"
  shows "map_of (w_pendingInvokes (arrive (pre @ [msg] @ post) w)) u = Some (Some \<lparr>ir_results = r, ir_err = []\<rparr>)"
proof -
  let ?w = "arrive pre w"
  have "map_of (w_pendingInvokes ?w) u = Some None" using arrive_other [OF assms(4)] assms(1) by simp
  then have "map_of (w_pendingInvokes (snd (updateInvokeResultsHandler msg ?w))) u = Some (Some \<lparr>ir_results = r, ir_err = []\<rparr>)"
    using assms(2,3) by (simp add: updateInvokeResultsHandler_def message_result_def as_string_def deliver_def Let_def update_conv')
  from arrive_full [OF this, of post] show ?thesis by (simp add: arrive_def)
qed

text \<open>
  C14. An invocation returns the first result that arrives for it. While it waits, messages for
  other invocations and later messages for this one may arrive in any number; the first message
  with its identifier decides, and when the call has returned its channel is gone.
\<close>

theorem invoke_first_result:
  assumes "quiet e" "world_inv e w" "\<not> w_shuttingDown w" "task w i = Some t" "t_Latent t" "\<not> t_Broadcast t" "pin w i = Some pid"
    and "u = e_uuid e (Suc (Suc (w_step w)))" "u \<noteq> []" "message_result msg u r"
    and "list_all (\<lambda>m. as_string (map_of m ''invocation_id'') \<noteq> Some u) pre"
  shows "\<exists>w'. InvokeTask \<lparr>wa_others = (\<lambda>k. arrive (pre @ [msg] @ post)), wa_wakes = (\<lambda>k. FromResult)\<rparr> e i inputs env w
      = (Some (Ok r), w') \<and> map_of (w_pendingInvokes w') u = None"
proof -
  let ?wa = "\<lparr>wa_others = (\<lambda>k. arrive (pre @ [msg] @ post)), wa_wakes = (\<lambda>k. FromResult)\<rparr>"
  let ?w1 = "tick (tick w)"
  have id: "t_ID t = i" using task_view_key [OF world_invD(1) [OF assms(2)]] assms(4) by (auto simp: task_def)
  have run: "InvokeTask ?wa e i inputs env w = invokeOnProplet ?wa e t pid inputs env ?w1"
    using assms(1-7) id by (simp add: InvokeTask_def GetTask_run invocationProplet_def taskPropletRepo_Get_run)
  obtain m where p: "publishInvoke e i pid u inputs env (register u (tick ?w1)) =
      (Ok (), tick ((register u (tick ?w1))\<lparr>w_sent := w_sent (register u (tick ?w1)) @ [m]\<rparr>))"
    using assms(1) by (simp add: publishInvoke_def Let_def Publish_quiet)
  let ?w2 = "tick ((register u (tick ?w1))\<lparr>w_sent := w_sent (register u (tick ?w1)) @ [m]\<rparr>)"
  have "map_of (w_pendingInvokes ?w2) u = Some None" by (simp add: register_def tick_def update_conv')
  from arrive_first [OF this assms(9-11)]
  have got: "map_of (w_pendingInvokes (arrive (pre @ [msg] @ post) ?w2)) u = Some (Some \<lparr>ir_results = r, ir_err = []\<rparr>)" .
  have "invokeOnProplet ?wa e t pid inputs env ?w1 = (Some (Ok r), unregister u (arrive (pre @ [msg] @ post) ?w2))"
    using p got assms(8) id by (simp add: invokeOnProplet_def uuid_NewString_def await_def Let_def)
  then show ?thesis using run by (simp add: unregister_def delete_conv')
qed

definition latent_task :: Task where
  "latent_task = Task_zero\<lparr>t_ID := ''a'', t_State := Running, t_Latent := True\<rparr>"

definition latent_world :: world where
  "latent_world = snd (taskPropletRepo_Create env0 ''a'' ''p'' (snd (taskRepo_Create env0 latent_task NewService)))"

lemma latent_world_simps:
  "world_inv env0 latent_world" "task latent_world ''a'' = Some latent_task" "pin latent_world ''a'' = Some ''p''"
  "w_step latent_world = 2" "\<not> w_shuttingDown latent_world"
proof -
  have "reach env0 {Tasks, Pins} NewService latent_world"
    unfolding latent_world_def by (intro reach_write reach_refl) simp_all
  then show "world_inv env0 latent_world" by (rule reach_inv) simp
qed code_simp+

text \<open>The answer to the invocation \<open>u4\<close> between a message for another one and a second answer.\<close>

definition answer :: "string \<Rightarrow> string \<Rightarrow> anymap" where
  "answer u r = [(''invocation_id'', AString u), (''results'', AString r)]"

lemma invoke_first_result_witness:
  "\<exists>w'. InvokeTask \<lparr>wa_others = (\<lambda>k. arrive ([answer ''x'' ''1''] @ [answer ''u4'' ''2''] @ [answer ''u4'' ''3''])),
      wa_wakes = (\<lambda>k. FromResult)\<rparr> env0 ''a'' None None latent_world = (Some (Ok ''2''), w') \<and>
    map_of (w_pendingInvokes w') ''u4'' = None"
proof (rule invoke_first_result)
  have "e_uuid env0 4 = ''u4''" by code_simp
  then show "''u4'' = e_uuid env0 (Suc (Suc (w_step latent_world)))" by (simp add: latent_world_simps)
qed (simp_all add: latent_world_simps, simp_all add: latent_task_def Task_zero_def message_result_def answer_def as_string_def)

end
