(* ===== verification/Middleware.thy ===== *)
theory Middleware
  imports Invoke
begin

text \<open>
  The plugin middleware (\<^verbatim>\<open>manager/middleware/plugin.go\<close>): every request that changes tasks is
  authorised by all plugins first, and new tasks are enriched. The middleware passes all other
  requests on. Its \<open>StartTask\<close> is in theory \<open>TaskRun\<close>, as the coordinator starts tasks through it.
\<close>

definition enrich :: "env \<Rightarrow> ctx \<Rightarrow> TaskInfo \<Rightarrow> world \<Rightarrow> EnrichResponse \<times> world" where
  "enrich e ctx info w =
     (case enrich_loop (nil_list (e_plugins e)) \<lparr>er_Context = AuthFromContext ctx, er_Task = info\<rparr> (w_step w) EnrichResponse_zero of
        (merged, n) \<Rightarrow> (merged, set_step n w))"

definition pm_CreateTask :: "env \<Rightarrow> ctx \<Rightarrow> Task \<Rightarrow> world \<Rightarrow> Task result \<times> world" where
  "pm_CreateTask e ctx t w =
     (let info = NewTaskInfo t
      in case authorize e ctx ActionCreate info w of
           (Err err, w) \<Rightarrow> (Err err, w)
         | (Ok _, w) \<Rightarrow> (case enrich e ctx info w of (enriched, w) \<Rightarrow> CreateTask e (applyEnrichment t enriched) w))"

definition pm_UpdateTask :: "env \<Rightarrow> ctx \<Rightarrow> Task \<Rightarrow> world \<Rightarrow> Task result \<times> world" where
  "pm_UpdateTask e ctx t w =
     (case authorize e ctx ActionUpdate (NewTaskInfo t) w of
        (Err err, w) \<Rightarrow> (Err err, w)
      | (Ok _, w) \<Rightarrow> UpdateTask e t w)"

definition pm_DeleteTask :: "env \<Rightarrow> ctx \<Rightarrow> string \<Rightarrow> world \<Rightarrow> unit result \<times> world" where
  "pm_DeleteTask e ctx taskID w =
     (case GetTask e taskID w of
        (Err err, w) \<Rightarrow> (Err err, w)
      | (Ok t, w) \<Rightarrow>
          (case authorize e ctx ActionDelete (NewTaskInfo t) w of
             (Err err, w) \<Rightarrow> (Err err, w)
           | (Ok _, w) \<Rightarrow> DeleteTask e taskID w))"

definition pm_InvokeTask ::
    "waiting \<Rightarrow> env \<Rightarrow> ctx \<Rightarrow> string \<Rightarrow> string list option \<Rightarrow> strmap option \<Rightarrow> world \<Rightarrow> string result running" where
  "pm_InvokeTask wa e ctx taskID inputs env w =
     (case GetTask e taskID w of
        (Err err, w) \<Rightarrow> (Some (Err err), w)
      | (Ok t, w) \<Rightarrow>
          (case authorize e ctx ActionInvoke (NewTaskInfo t) w of
             (Err err, w) \<Rightarrow> (Some (Err err), w)
           | (Ok _, w) \<Rightarrow> InvokeTask wa e taskID inputs env w))"

definition pm_StopTask :: "env \<Rightarrow> ctx \<Rightarrow> string \<Rightarrow> world \<Rightarrow> unit result \<times> world" where
  "pm_StopTask e ctx taskID w =
     (case GetTask e taskID w of
        (Err err, w) \<Rightarrow> (Err err, w)
      | (Ok t, w) \<Rightarrow>
          (case authorize e ctx ActionStop (NewTaskInfo t) w of
             (Err err, w) \<Rightarrow> (Err err, w)
           | (Ok _, w) \<Rightarrow> StopTask e taskID w))"

text \<open>The loop over new tasks in \<open>CreateWorkflow\<close> and \<open>CreateJob\<close>.\<close>

fun admit_tasks :: "env \<Rightarrow> ctx \<Rightarrow> Task list \<Rightarrow> world \<Rightarrow> Task list result \<times> world" where
  "admit_tasks e ctx [] w = (Ok [], w)"
| "admit_tasks e ctx (t # ts) w =
     (let info = NewTaskInfo t
      in case authorize e ctx ActionCreate info w of
           (Err err, w) \<Rightarrow> (Err err, w)
         | (Ok _, w) \<Rightarrow>
             (case enrich e ctx info w of (enriched, w) \<Rightarrow>
              case admit_tasks e ctx ts w of
                (Err err, w) \<Rightarrow> (Err err, w)
              | (Ok ts, w) \<Rightarrow> (Ok (applyEnrichment t enriched # ts), w)))"

definition pm_CreateWorkflow :: "env \<Rightarrow> ctx \<Rightarrow> Task list \<Rightarrow> world \<Rightarrow> Task list result \<times> world" where
  "pm_CreateWorkflow e ctx tasks w =
     (case admit_tasks e ctx tasks w of
        (Err err, w) \<Rightarrow> (Err err, w)
      | (Ok tasks, w) \<Rightarrow> CreateWorkflow e tasks w)"

definition pm_CreateJob ::
    "env \<Rightarrow> ctx \<Rightarrow> string \<Rightarrow> Task list \<Rightarrow> string \<Rightarrow> world \<Rightarrow> (string \<times> Task list) result \<times> world" where
  "pm_CreateJob e ctx name tasks executionMode w =
     (case admit_tasks e ctx tasks w of
        (Err err, w) \<Rightarrow> (Err err, w)
      | (Ok tasks, w) \<Rightarrow> CreateJob e name tasks executionMode w)"

text \<open>The loop over stored tasks in \<open>StartJob\<close> and \<open>StopJob\<close>.\<close>

fun authorize_tasks :: "env \<Rightarrow> ctx \<Rightarrow> Action \<Rightarrow> Task list \<Rightarrow> world \<Rightarrow> unit result \<times> world" where
  "authorize_tasks e ctx action [] w = (Ok (), w)"
| "authorize_tasks e ctx action (t # ts) w =
     (case authorize e ctx action (NewTaskInfo t) w of
        (Err err, w) \<Rightarrow> (Err err, w)
      | (Ok _, w) \<Rightarrow> authorize_tasks e ctx action ts w)"

definition pm_StartJob ::
    "nat \<Rightarrow> (string list \<Rightarrow> string list) \<Rightarrow> (string \<Rightarrow> string) \<Rightarrow> env \<Rightarrow> ctx \<Rightarrow> string \<Rightarrow> world \<Rightarrow> unit result running" where
  "pm_StartJob n order quote e ctx jobID w =
     (case GetJob e jobID w of
        (Err err, w) \<Rightarrow> (Some (Err err), w)
      | (Ok tasks, w) \<Rightarrow>
          (case authorize_tasks e ctx ActionStart tasks w of
             (Err err, w) \<Rightarrow> (Some (Err err), w)
           | (Ok _, w) \<Rightarrow> StartJob n order quote e ctx jobID w))"

definition pm_StopJob :: "env \<Rightarrow> ctx \<Rightarrow> string \<Rightarrow> world \<Rightarrow> unit result \<times> world" where
  "pm_StopJob e ctx jobID w =
     (case GetJob e jobID w of
        (Err err, w) \<Rightarrow> (Err err, w)
      | (Ok tasks, w) \<Rightarrow>
          (case authorize_tasks e ctx ActionStop tasks w of
             (Err err, w) \<Rightarrow> (Err err, w)
           | (Ok _, w) \<Rightarrow> StopJob e jobID w))"

definition pm_Shutdown :: "nat \<Rightarrow> error \<Rightarrow> (nat \<Rightarrow> world \<Rightarrow> world) \<Rightarrow> env \<Rightarrow> world \<Rightarrow> unit result \<times> world" where
  "pm_Shutdown ticks ctxErr others e w = Shutdown ticks ctxErr others e (others (Suc (Suc ticks)) w)"

section \<open>Frames\<close>

lemma enrich_loop_count: "n \<le> snd (enrich_loop ps req n m)"
  by (induction ps arbitrary: n m) (auto split: sum.splits intro: order_trans [OF _ Suc_leD])

lemma reach_enrich [reach_intros]: "reach e C w0 w \<Longrightarrow> reach e C w0 (snd (enrich e ctx info w))"
  using enrich_loop_count by (auto simp: enrich_def case_prod_beta intro!: reach_set_step)

lemma reach_admit_tasks [reach_intros]: "reach e C w0 w \<Longrightarrow> reach e C w0 (snd (admit_tasks e ctx ts w))"
proof (induction ts arbitrary: w)
  case (Cons t ts)
  show ?case unfolding admit_tasks.simps by (assumption | rule reach_steps reach_intros Cons)+
qed simp

lemma reach_authorize_tasks [reach_intros]: "reach e C w0 w \<Longrightarrow> reach e C w0 (snd (authorize_tasks e ctx a ts w))"
proof (induction ts arbitrary: w)
  case (Cons t ts)
  show ?case unfolding authorize_tasks.simps by (assumption | rule reach_steps reach_intros Cons)+
qed simp

lemma reach_pm [reach_intros]:
  assumes "reach e C w0 w"
  shows "Tasks \<in> C \<Longrightarrow> reach e C w0 (snd (pm_CreateTask e ctx t w))"
    "Tasks \<in> C \<Longrightarrow> reach e C w0 (snd (pm_UpdateTask e ctx t w))"
    "Tasks \<in> C \<Longrightarrow> reach e C w0 (snd (pm_DeleteTask e ctx i w))"
    "Tasks \<in> C \<Longrightarrow> reach e C w0 (snd (pm_CreateWorkflow e ctx ts w))"
    "Tasks \<in> C \<Longrightarrow> Jobs \<in> C \<Longrightarrow> reach e C w0 (snd (pm_CreateJob e ctx name ts m w))"
    "Sent \<in> C \<Longrightarrow> Pins \<in> C \<Longrightarrow> Proplets \<in> C \<Longrightarrow> reach e C w0 (snd (pm_StopTask e ctx i w))"
    "Sent \<in> C \<Longrightarrow> Pins \<in> C \<Longrightarrow> Proplets \<in> C \<Longrightarrow> reach e C w0 (snd (pm_StopJob e ctx i w))"
    "start_parts \<subseteq> C \<Longrightarrow> reach e C w0 (snd (pm_StartJob n order quote e ctx i w))"
    "good_waiting e wa \<Longrightarrow> - {Shut} \<subseteq> C \<Longrightarrow> reach e C w0 (snd (pm_InvokeTask wa e ctx i inputs env w))"
  unfolding pm_CreateTask_def pm_UpdateTask_def pm_DeleteTask_def pm_CreateWorkflow_def pm_CreateJob_def
    pm_StopTask_def pm_StopJob_def pm_StartJob_def pm_InvokeTask_def
  by (assumption | rule reach_steps reach_intros assms)+

section \<open>Properties\<close>










end
