(* ===== verification/Rounds.thy ===== *)
theory Rounds
  imports Middleware
begin

text \<open>
  Rounds of federated learning (\<^verbatim>\<open>manager/service.go\<close>): a message announces a round, and the manager
  creates and starts one task for each participant that is alive. The context of the round has a
  deadline; whether it is over is read anew by every call.
\<close>

record roundConfig =
  rc_roundID :: string
  rc_modelURI :: string
  rc_taskWasmImage :: string
  rc_hyperparams :: "anymap option"

definition nonempty :: "any option \<Rightarrow> string option" where
  "nonempty v = (case as_string v of Some s \<Rightarrow> if s = [] then None else Some s | None \<Rightarrow> None)"

definition parseRoundStartMessage :: "env \<Rightarrow> anymap \<Rightarrow> world \<Rightarrow> roundConfig result \<times> world" where
  "parseRoundStartMessage e msg w =
     (case nonempty (map_of msg ''round_id'') of
        None \<Rightarrow> (Err (NewError ''invalid round_id''), w)
      | Some roundID \<Rightarrow>
     (case ctx_Err e w of
        (Some err, w) \<Rightarrow> (Err err, w)
      | (None, w) \<Rightarrow>
     (case nonempty (map_of msg ''model_uri'') of
        None \<Rightarrow> (Err (NewError ''invalid model_uri''), w)
      | Some modelURI \<Rightarrow>
     (case nonempty (map_of msg ''task_wasm_image'') of
        None \<Rightarrow> (Err (NewError ''invalid task_wasm_image''), w)
      | Some taskWasmImage \<Rightarrow>
          if nil_list (as_slice (map_of msg ''participants'')) = []
          then (Err (NewError ''invalid participants''), w)
          else (Ok \<lparr>rc_roundID = roundID, rc_modelURI = modelURI, rc_taskWasmImage = taskWasmImage,
                    rc_hyperparams = as_map (map_of msg ''hyperparams'')\<rparr>, w)))))"

definition extractParticipants :: "anymap \<Rightarrow> string list" where
  "extractParticipants msg =
     filter (\<lambda>pid. pid \<noteq> []) (strings_of (nil_list (as_slice (map_of msg ''participants''))))"

definition isPropletAvailable :: "env \<Rightarrow> string \<Rightarrow> world \<Rightarrow> bool \<times> world" where
  "isPropletAvailable e propletID w =
     (case GetProplet e propletID w of
        (Err err, w) \<Rightarrow> (False, w)
      | (Ok p, w) \<Rightarrow> (p_Alive p, w))"

definition createRoundTask :: "env \<Rightarrow> roundConfig \<Rightarrow> string \<Rightarrow> world \<Rightarrow> Task \<times> world" where
  "createRoundTask e config propletID w =
     (case time_Now e w of (now, w) \<Rightarrow>
        (Task_zero\<lparr>t_Name := ''fl-round-'' @ rc_roundID config @ ''-'' @ propletID, t_Kind := TaskKindStandard,
           t_State := Pending, t_ImageURL := rc_taskWasmImage config, t_PropletID := propletID, t_CreatedAt := now,
           t_Env := Some ([(''ROUND_ID'', rc_roundID config), (''MODEL_URI'', rc_modelURI config)] @
             (case rc_hyperparams config of
                None \<Rightarrow> []
              | Some hyperparams \<Rightarrow>
                  (case e_marshal e hyperparams of None \<Rightarrow> [] | Some json \<Rightarrow> [(''HYPERPARAMS'', json)])))\<rparr>, w))"

definition launchTaskForParticipant :: "nat \<Rightarrow> env \<Rightarrow> ctx \<Rightarrow> roundConfig \<Rightarrow> string \<Rightarrow> world \<Rightarrow> unit running" where
  "launchTaskForParticipant n e ctx config propletID w =
     (case createRoundTask e config propletID w of (t, w) \<Rightarrow>
      case CreateTask e t w of
        (Err err, w) \<Rightarrow> (Some (), w)
      | (Ok created, w) \<Rightarrow>
          (case StartTask n e ctx (t_ID created) w of
             (None, w) \<Rightarrow> (None, w)
           | (Some _, w) \<Rightarrow> (Some (), w)))"

fun launchTasksForParticipants :: "nat \<Rightarrow> env \<Rightarrow> ctx \<Rightarrow> roundConfig \<Rightarrow> string list \<Rightarrow> world \<Rightarrow> unit running" where
  "launchTasksForParticipants n e ctx config [] w = (Some (), w)"
| "launchTasksForParticipants n e ctx config (propletID # ps) w =
     (case ctx_Err e w of
        (Some err, w) \<Rightarrow> (Some (), w)
      | (None, w) \<Rightarrow>
     (case isPropletAvailable e propletID w of
        (available, w) \<Rightarrow>
          if \<not> available then launchTasksForParticipants n e ctx config ps w
          else case launchTaskForParticipant n e ctx config propletID w of
                 (None, w) \<Rightarrow> (None, w)
               | (Some _, w) \<Rightarrow> launchTasksForParticipants n e ctx config ps w))"

definition processRoundStart :: "nat \<Rightarrow> env \<Rightarrow> ctx \<Rightarrow> anymap \<Rightarrow> world \<Rightarrow> unit running" where
  "processRoundStart n e ctx msg w =
     (case parseRoundStartMessage e msg w of
        (Err err, w) \<Rightarrow> (Some (), w)
      | (Ok config, w) \<Rightarrow>
          (let participants = extractParticipants msg
           in if participants = [] then (Some (), w)
              else launchTasksForParticipants n e ctx config participants w))"

section \<open>Frames\<close>

lemma reach_createRoundTask [reach_intros]: "reach e C w0 w \<Longrightarrow> reach e C w0 (snd (createRoundTask e config i w))"
  unfolding createRoundTask_def by (assumption | rule reach_steps reach_intros)+

lemma reach_isPropletAvailable [reach_intros]: "reach e C w0 w \<Longrightarrow> reach e C w0 (snd (isPropletAvailable e i w))"
  unfolding isPropletAvailable_def by (assumption | rule reach_steps reach_intros)+

lemma reach_launchTasks [reach_intros]:
  "reach e C w0 w \<Longrightarrow> start_parts \<subseteq> C \<Longrightarrow> reach e C w0 (snd (launchTasksForParticipants n e ctx config ps w))"
proof (induction ps arbitrary: w)
  case (Cons p ps)
  have C: "Tasks \<in> C" using Cons.prems(2) by auto
  show ?case unfolding launchTasksForParticipants.simps launchTaskForParticipant_def
    by (assumption | rule reach_steps reach_intros Cons C)+
qed simp

lemma reach_processRoundStart [reach_intros]:
  "reach e C w0 w \<Longrightarrow> start_parts \<subseteq> C \<Longrightarrow> reach e C w0 (snd (processRoundStart n e ctx msg w))"
  unfolding processRoundStart_def parseRoundStartMessage_def
  by (assumption | rule reach_steps reach_intros)+

end
