(* ===== verification/Sdf.thy ===== *)
theory Sdf
  imports Queries
begin

text \<open>
  The description of a proplet in the Semantic Definition Format (\<open>pkg/sdf/sdf.go\<close>,
  \<open>pkg/sdf/proplet.go\<close>) and \<open>GetPropletSDF\<close> of the service, which serves it. Go maps with literal
  keys are association lists, a nil pointer is \<^const>\<open>None\<close>, a float64 its bit pattern.
\<close>

section \<open>Documents\<close>

record Info =
  i_Title :: string
  i_Version :: string
  i_Copyright :: string
  i_License :: string

datatype DataAfford = DataAfford
  (d_Description: string) (d_Type: string) (d_SdfRef: string)
  (d_Properties: "(string \<times> DataAfford) list")
  (d_AdditionalProperties: "DataAfford option") (d_Items: "DataAfford option")
  (d_ReadOnly: bool) (d_Minimum: "u64 option") (d_Maximum: "u64 option")
  (d_Enum: "any list") (d_Required: "string list")

record PropertyAfford =
  pa_Data :: DataAfford
  pa_Observable :: bool

record ActionAfford =
  aa_Description :: string
  aa_SdfInputData :: "DataAfford option"
  aa_SdfOutputData :: "DataAfford option"

record EventAfford =
  ea_Description :: string
  ea_SdfOutputData :: "DataAfford option"

record ThingAfford =
  ta_Description :: string
  ta_SdfProperty :: "(string \<times> PropertyAfford) list"
  ta_SdfAction :: "(string \<times> ActionAfford) list"
  ta_SdfEvent :: "(string \<times> EventAfford) list"
  ta_SdfData :: "(string \<times> DataAfford) list"

record Document =
  doc_Info :: Info
  doc_Namespace :: "(string \<times> string) list"
  doc_DefaultNamespace :: string
  doc_SdfProperty :: "(string \<times> PropertyAfford) list"
  doc_SdfAction :: "(string \<times> ActionAfford) list"
  doc_SdfEvent :: "(string \<times> EventAfford) list"
  doc_SdfThing :: "(string \<times> ThingAfford) list"
  doc_SdfData :: "(string \<times> DataAfford) list"

section \<open>The document of a proplet\<close>

definition schemaVersion :: string where
  "schemaVersion = ''1.0''"

definition minPtr :: "u64 option" where
  "minPtr = Some 0"

text \<open>Literals that set a few fields: a type with a lower bound, an array, a reference, an object.\<close>

definition of_type :: "string \<Rightarrow> DataAfford" where
  "of_type ty = DataAfford [] ty [] [] None None False None None [] []"

definition count_type :: DataAfford where
  "count_type = DataAfford [] ''integer'' [] [] None None False minPtr None [] []"

definition array_of :: "DataAfford \<Rightarrow> DataAfford" where
  "array_of d = DataAfford [] ''array'' [] [] None (Some d) False None None [] []"

definition sdf_ref :: "string \<Rightarrow> DataAfford" where
  "sdf_ref r = DataAfford [] [] r [] None None False None None [] []"

definition object_type :: "string \<Rightarrow> string list \<Rightarrow> (string \<times> DataAfford) list \<Rightarrow> DataAfford" where
  "object_type description required properties =
    DataAfford description ''object'' [] properties None None False None None [] required"

definition property :: "string \<Rightarrow> string \<Rightarrow> bool \<Rightarrow> u64 option \<Rightarrow> bool \<Rightarrow> PropertyAfford" where
  "property description ty readOnly minimum observable =
    \<lparr>pa_Data = DataAfford description ty [] [] None None readOnly minimum None [] [],
     pa_Observable = observable\<rparr>"

definition proplet_properties :: "(string \<times> PropertyAfford) list" where
  "proplet_properties = [
    (''id'', property ''Unique proplet identifier'' ''string'' True None False),
    (''name'', property ''Human-readable proplet name'' ''string'' False None False),
    (''alive'', property ''Whether the proplet sent a heartbeat within the liveness window''
       ''boolean'' True None True),
    (''task_count'', property ''Number of tasks currently running on this proplet''
       ''integer'' True minPtr True),
    (''metadata'', \<lparr>pa_Data = sdf_ref ''#/sdfThing/Proplet/sdfData/PropletMetadata'',
       pa_Observable = False\<rparr>)]"

definition proplet_actions :: "(string \<times> ActionAfford) list" where
  "proplet_actions = [
    (''start_task'', \<lparr>aa_Description = ''Dispatch a WebAssembly task to this proplet'',
       aa_SdfInputData = Some (sdf_ref ''#/sdfThing/Proplet/sdfData/TaskDispatch''),
       aa_SdfOutputData = None\<rparr>),
    (''stop_task'', \<lparr>aa_Description = ''Stop a running task on this proplet'',
       aa_SdfInputData = Some (sdf_ref ''#/sdfThing/Proplet/sdfData/TaskStop''),
       aa_SdfOutputData = None\<rparr>)]"

definition proplet_events :: "(string \<times> EventAfford) list" where
  "proplet_events = [
    (''heartbeat'', \<lparr>ea_Description = ''Periodic liveness signal from the proplet'',
       ea_SdfOutputData = Some (sdf_ref ''#/sdfThing/Proplet/sdfData/HeartbeatPayload'')\<rparr>),
    (''task_result'', \<lparr>ea_Description = ''Emitted when a task finishes (success or failure)'',
       ea_SdfOutputData = Some (sdf_ref ''#/sdfThing/Proplet/sdfData/TaskResult'')\<rparr>)]"

definition proplet_data :: "(string \<times> DataAfford) list" where
  "proplet_data = [
    (''PropletMetadata'', object_type ''Static metadata reported by the proplet at registration'' [] [
       (''description'', of_type ''string''), (''tags'', array_of (of_type ''string'')),
       (''location'', of_type ''string''), (''ip'', of_type ''string''),
       (''environment'', of_type ''string''), (''os'', of_type ''string''),
       (''hostname'', of_type ''string''), (''cpu_arch'', of_type ''string''),
       (''total_memory_bytes'', count_type), (''proplet_version'', of_type ''string''),
       (''wasm_runtime'', of_type ''string'')]),
    (''TaskDispatch'', object_type ''Payload used to dispatch a task to the proplet'' [''id'', ''name''] [
       (''id'', of_type ''string''), (''name'', of_type ''string''),
       (''image_url'', of_type ''string''), (''cli_args'', array_of (of_type ''string'')),
       (''inputs'', array_of (of_type ''string'')),
       (''env'', DataAfford [] ''object'' [] [] (Some (of_type ''string'')) None False None None [] []),
       (''daemon'', of_type ''boolean''), (''encrypted'', of_type ''boolean''),
       (''kbs_resource_path'', of_type ''string'')]),
    (''TaskStop'', object_type ''Payload used to stop a running task on the proplet'' [''id''] [
       (''id'', DataAfford ''Identifier of the task to stop'' ''string'' [] [] None None False None None [] [])]),
    (''HeartbeatPayload'', object_type ''Payload of a proplet heartbeat event'' [] [
       (''proplet_id'', of_type ''string''), (''name'', of_type ''string''),
       (''task_count'', count_type), (''alive'', of_type ''boolean'')]),
    (''TaskResult'', object_type ''Result payload emitted after a task completes'' [] [
       (''task_id'', of_type ''string''), (''proplet_id'', of_type ''string''),
       (''state'', DataAfford [] ''string'' [] [] None None False None None
          (map AString [''Completed'', ''Failed'', ''Skipped'', ''Interrupted'']) []),
       (''results'', DataAfford ''Key-value output produced by the task; keys and value types depend on the wasm module''
          ''object'' [] [] None None False None None [] []),
       (''error'', of_type ''string'')])]"

text \<open>The description contains an em dash, the bytes E2 80 94.\<close>

definition PropletDocument :: "Proplet \<Rightarrow> Document" where
  "PropletDocument p =
    \<lparr>doc_Info = \<lparr>i_Title = ''Propeller Proplet: '' @ p_Name p @ '' ('' @ p_ID p @ '')'',
       i_Version = schemaVersion, i_Copyright = [], i_License = ''Apache-2.0''\<rparr>,
     doc_Namespace = [], doc_DefaultNamespace = [], doc_SdfProperty = [], doc_SdfAction = [],
     doc_SdfEvent = [],
     doc_SdfThing = [(''Proplet'',
       \<lparr>ta_Description = ''A Propeller proplet '' @ [CHR 0xE2, CHR 0x80, CHR 0x94] @
          '' an edge node that executes WebAssembly tasks'',
        ta_SdfProperty = proplet_properties, ta_SdfAction = proplet_actions,
        ta_SdfEvent = proplet_events, ta_SdfData = proplet_data\<rparr>)],
     doc_SdfData = []\<rparr>"

definition GetPropletSDF :: "env \<Rightarrow> string \<Rightarrow> world \<Rightarrow> Document result \<times> world" where
  "GetPropletSDF e propletID w =
    (case GetProplet e propletID w of
       (Inl err, w) \<Rightarrow> (Err err, w)
     | (Inr p, w) \<Rightarrow> (Ok (PropletDocument p), w))"

section \<open>Well-formedness\<close>

text \<open>
  The references in a data description, and the required members that an object does not
  declare, in the description and in those nested in it.
\<close>

primrec refs :: "DataAfford \<Rightarrow> string list" where
  "refs (DataAfford de ty r ps ap it ro mi ma en rq) = (if r = [] then [] else [r]) @
    concat (map snd (map (map_prod id refs) ps)) @
    (case map_option refs ap of None \<Rightarrow> [] | Some rs \<Rightarrow> rs) @
    (case map_option refs it of None \<Rightarrow> [] | Some rs \<Rightarrow> rs)"

primrec undeclared :: "DataAfford \<Rightarrow> string list" where
  "undeclared (DataAfford de ty r ps ap it ro mi ma en rq) =
    filter (\<lambda>k. k \<notin> set (map fst ps)) rq @
    concat (map snd (map (map_prod id undeclared) ps)) @
    (case map_option undeclared ap of None \<Rightarrow> [] | Some ks \<Rightarrow> ks) @
    (case map_option undeclared it of None \<Rightarrow> [] | Some ks \<Rightarrow> ks)"

definition opt_list :: "'a option \<Rightarrow> 'a list" where
  "opt_list x = (case x of None \<Rightarrow> [] | Some y \<Rightarrow> [y])"

text \<open>The data descriptions of a thing: those of its affordances and the ones it names.\<close>

definition thing_data :: "ThingAfford \<Rightarrow> DataAfford list" where
  "thing_data t = map (pa_Data \<circ> snd) (ta_SdfProperty t) @
    concat (map (\<lambda>(_, a). opt_list (aa_SdfInputData a) @ opt_list (aa_SdfOutputData a)) (ta_SdfAction t)) @
    concat (map (\<lambda>(_, ev). opt_list (ea_SdfOutputData ev)) (ta_SdfEvent t)) @
    map snd (ta_SdfData t)"

definition thing_ok :: "string \<times> ThingAfford \<Rightarrow> bool" where
  "thing_ok = (\<lambda>(name, t).
    list_all (\<lambda>d. undeclared d = [] \<and>
      list_all (\<lambda>r. r \<in> set (map (\<lambda>(k, _). ''#/sdfThing/'' @ name @ ''/sdfData/'' @ k) (ta_SdfData t))) (refs d))
      (thing_data t) \<and>
    distinct (map fst (ta_SdfProperty t)) \<and> distinct (map fst (ta_SdfAction t)) \<and>
    distinct (map fst (ta_SdfEvent t)) \<and> distinct (map fst (ta_SdfData t)))"

text \<open>
  The document of every proplet is well formed: each reference in it names a data definition
  of the same thing, every required member of an object is declared, and no name is defined
  twice.
\<close>

lemma PropletDocument_well_formed:
  "doc_SdfThing (PropletDocument p) \<noteq> [] \<and> list_all thing_ok (doc_SdfThing (PropletDocument p))"
  by (simp add: PropletDocument_def thing_ok_def thing_data_def proplet_properties_def
    proplet_actions_def proplet_events_def proplet_data_def property_def opt_list_def sdf_ref_def
    object_type_def of_type_def count_type_def array_of_def)

end
