(* ===== verification/Api.thy ===== *)
theory Api
  imports Middleware Sdf
begin

text \<open>
  The HTTP interface of the manager (\<open>manager/api/requests.go\<close>, \<open>redact.go\<close>, \<open>endpoint.go\<close>,
  \<open>responses.go\<close>, the decoders of \<open>transport.go\<close> and the helpers of \<open>pkg/api/api.go\<close>): requests and
  their validation, one operation per endpoint, the responses and the status codes. An endpoint
  calls the service behind the plugin middleware. The JSON and multipart decoders give the
  decoded values; \<open>uuid\<close> says which strings \<open>uuid.Parse\<close> accepts.
\<close>

section \<open>Requests\<close>

record jobReq =
  jr_Name :: string
  jr_Tasks :: "Task list"
  jr_ExecutionMode :: string

record invokeReq =
  ir_id :: string
  ir_inputs :: "string list option"
  ir_env :: "strmap option"

datatype listEntityStatus = withoutStatusFilter | propletStatusFilter | jobStatusFilter

record listEntityReq =
  le_offset :: u64
  le_limit :: u64
  le_status :: string
  le_statusFilter :: listEntityStatus

record listTasksReq =
  lt_offset :: u64
  lt_limit :: u64
  lt_metadata :: "anymap option"

record metricsReq =
  mr_id :: string
  mr_offset :: u64
  mr_limit :: u64

text \<open>The values of type \<open>any\<close> that the decoders hand to the endpoints.\<close>

datatype request =
    TaskReq Task | WorkflowReq "Task list" | JobReq jobReq | EntityReq string
  | InvokeReq invokeReq | ListEntityReq listEntityReq | ListTasksReq listTasksReq
  | MetricsReq metricsReq

definition maxMetadataBytes :: nat where
  "maxMetadataBytes = 1048576"

definition MaxLimitSize :: u64 where
  "MaxLimitSize = 100"

text \<open>The loop over the keys of the ELASTIC object: the first value that is not a string.\<close>

fun elastic_keys :: "anymap \<Rightarrow> string list \<Rightarrow> unit result" where
  "elastic_keys cfg [] = Ok ()"
| "elastic_keys cfg (k # ks) =
    (case map_of cfg k of
       None \<Rightarrow> elastic_keys cfg ks
     | Some (AString _) \<Rightarrow> elastic_keys cfg ks
     | Some _ \<Rightarrow> Err (Wrap [] (Sentinel ErrInvalidValue)
         ('': metadata.'' @ MetadataElasticKey @ ''.'' @ k @ '' must be a string'')))"

definition validateElasticConfig :: "anymap option \<Rightarrow> unit result" where
  "validateElasticConfig m =
    (case map_of (nil_list m) MetadataElasticKey of
       None \<Rightarrow> Ok ()
     | Some (AMap cfg) \<Rightarrow>
         (case elastic_keys cfg ElasticKeys of
            Inl err \<Rightarrow> Err err
          | Inr _ \<Rightarrow>
              if map_of cfg ElasticWasiSecurity \<noteq> None \<and> map_of cfg ElasticWasiPEP \<noteq> None
              then Err (Wrap [] (Sentinel ErrInvalidValue)
                ('': metadata.'' @ MetadataElasticKey @ '' shall not have both '' @ ElasticWasiSecurity @
                 '' and '' @ ElasticWasiPEP @ '' properties at the same time''))
              else Ok ())
     | Some _ \<Rightarrow> Err (Wrap [] (Sentinel ErrInvalidValue)
         ('': metadata.'' @ MetadataElasticKey @ '' must be an object'')))"

definition taskReq_validate :: "env \<Rightarrow> Task \<Rightarrow> unit result" where
  "taskReq_validate e t =
    (if t_Name t = [] then Err (Sentinel ErrMissingName)
     else if t_RunIf t \<noteq> [] \<and> t_RunIf t \<noteq> RunIfSuccess \<and> t_RunIf t \<noteq> RunIfFailure
     then Err (Sentinel ErrValidation)
     else case (if t_Schedule t = [] then Ok () else ValidateCronExpression (e_cron e) (t_Schedule t)) of
       Inl err \<Rightarrow> Err (Wrap ''invalid cron expression: '' err [])
     | Inr _ \<Rightarrow>
    (if t_Priority t < 0 \<or> t_Priority t > 100
     then Err (NewError (''priority must be between 0 and 100, got '' @ show_int (t_Priority t)))
     else if t_Broadcast t \<and> t_PropletID t \<noteq> []
     then Err (Wrap [] (Sentinel ErrInvalidValue) '': broadcast and proplet_id are mutually exclusive'')
     else case (if nil_list (t_Metadata t) = [] then Ok ()
         else case e_marshal e (nil_list (t_Metadata t)) of
             None \<Rightarrow> Err (Wrap ''invalid metadata: '' (NewError ''json: unsupported value'') [])
           | Some b \<Rightarrow> if length b > maxMetadataBytes
               then Err (NewError ''metadata exceeds 1MB limit'') else Ok ()) of
       Inl err \<Rightarrow> Err err
     | Inr _ \<Rightarrow> validateElasticConfig (t_Metadata t)))"

text \<open>The loop over the tasks of a workflow or a job.\<close>

fun tasks_validate :: "Task list \<Rightarrow> unit result" where
  "tasks_validate [] = Ok ()"
| "tasks_validate (t # ts) =
    (if t_Name t = [] then Err (Sentinel ErrMissingName)
     else if t_RunIf t \<noteq> [] \<and> t_RunIf t \<noteq> RunIfSuccess \<and> t_RunIf t \<noteq> RunIfFailure
     then Err (Sentinel ErrValidation)
     else tasks_validate ts)"

definition workflowReq_validate :: "Task list \<Rightarrow> unit result" where
  "workflowReq_validate tasks = (if tasks = [] then Err (Sentinel ErrValidation) else tasks_validate tasks)"

definition jobReq_validate :: "jobReq \<Rightarrow> unit result" where
  "jobReq_validate j = (if jr_Tasks j = [] then Err (Sentinel ErrValidation) else tasks_validate (jr_Tasks j))"

definition entityReq_validate :: "(string \<Rightarrow> bool) \<Rightarrow> string \<Rightarrow> unit result" where
  "entityReq_validate uuid i = (if i = [] then Err (Sentinel ErrMissingID)
    else if \<not> uuid i then Err (Sentinel ErrInvalidQueryParams) else Ok ())"

definition invokeReq_validate :: "(string \<Rightarrow> bool) \<Rightarrow> invokeReq \<Rightarrow> unit result" where
  "invokeReq_validate uuid r = (if ir_id r = [] then Err (Sentinel ErrMissingID)
    else if \<not> uuid (ir_id r) then Err (Sentinel ErrInvalidQueryParams) else Ok ())"

definition listEntityReq_validate :: "listEntityReq \<Rightarrow> unit result" where
  "listEntityReq_validate r =
    (if le_status r = [] then Ok ()
     else case le_statusFilter r of
       withoutStatusFilter \<Rightarrow> Err (NewError ''status filter is not supported'')
     | propletStatusFilter \<Rightarrow> (case ToStatus (le_status r) of Inl err \<Rightarrow> Err err | Inr _ \<Rightarrow> Ok ())
     | jobStatusFilter \<Rightarrow> (case ToJobStatus (le_status r) of Inl err \<Rightarrow> Err err | Inr _ \<Rightarrow> Ok ()))"

definition listTasksReq_validate :: "listTasksReq \<Rightarrow> unit result" where
  "listTasksReq_validate r =
    (if lt_limit r > MaxLimitSize \<or> lt_limit r < 1 then Err (Sentinel ErrLimitSize) else Ok ())"

definition metricsReq_validate :: "metricsReq \<Rightarrow> unit result" where
  "metricsReq_validate r = (if mr_id r = [] then Err (Sentinel ErrMissingID) else Ok ())"

section \<open>Decoders\<close>

text \<open>
  \<open>strconv.ParseUint(s, 10, 64)\<close>: digits only, at least one, within 64 bits. (In the text of the
  error a string without special characters is quoted as it is.)
\<close>

fun digits_value :: "nat \<Rightarrow> string \<Rightarrow> nat option" where
  "digits_value acc [] = Some acc"
| "digits_value acc (c # cs) =
    (if CHR ''0'' \<le> c \<and> c \<le> CHR ''9'' then digits_value (10 * acc + (of_char c - 48)) cs else None)"

definition ParseUint :: "string \<Rightarrow> u64 result" where
  "ParseUint s =
    (case (if s = [] then None else digits_value 0 s) of
       None \<Rightarrow> Err (NewError (''strconv.ParseUint: parsing '' @ [CHR 0x22] @ s @ [CHR 0x22] @ '': invalid syntax''))
     | Some n \<Rightarrow> if n < 2 ^ 64 then Ok (word_of_nat n)
         else Err (NewError (''strconv.ParseUint: parsing '' @ [CHR 0x22] @ s @ [CHR 0x22] @ '': value out of range'')))"

text \<open>The values of a query parameter, in order; \<open>r.URL.Query()[key]\<close>.\<close>

type_synonym query = "string \<Rightarrow> string list"

text \<open>The instance at \<open>uint64\<close>, the only one that the decoders use.\<close>

definition ReadNumQuery :: "query \<Rightarrow> string \<Rightarrow> u64 \<Rightarrow> u64 result" where
  "ReadNumQuery q key dflt =
    (case q key of
       [] \<Rightarrow> Ok dflt
     | raw # _ \<Rightarrow> (case ParseUint raw of
           Inl err \<Rightarrow> Err (Wrap (''invalid '' @ key @ '': '') err [])
         | Inr n \<Rightarrow> Ok n))"

definition ReadStringQuery :: "query \<Rightarrow> string \<Rightarrow> string \<Rightarrow> string" where
  "ReadStringQuery q key dflt = (case q key of [] \<Rightarrow> dflt | v # _ \<Rightarrow> v)"

text \<open>\<open>unmarshal\<close> decodes a JSON object.\<close>

definition ReadMetadataQuery :: "(string \<Rightarrow> anymap option result) \<Rightarrow> query \<Rightarrow> string \<Rightarrow> anymap option \<Rightarrow> anymap option result" where
  "ReadMetadataQuery unmarshal q key dflt =
    (case q key of
       [] \<Rightarrow> Ok dflt
     | [v] \<Rightarrow> (case unmarshal v of
           Inl err \<Rightarrow> Err (Wrap ''invalid metadata: '' err [])
         | Inr m \<Rightarrow> Ok m)
     | _ \<Rightarrow> Err (NewError ''multiple values not supported for metadata''))"

definition rejected :: "error \<Rightarrow> 'a result" where
  "rejected err = Err (JoinErr [Sentinel ErrValidation, err])"

definition decodeListEntityReq :: "listEntityStatus \<Rightarrow> query \<Rightarrow> request result" where
  "decodeListEntityReq filt q =
    (case ReadNumQuery q ''offset'' 0 of Inl err \<Rightarrow> rejected err | Inr off \<Rightarrow>
    (case ReadNumQuery q ''limit'' 100 of Inl err \<Rightarrow> rejected err | Inr lim \<Rightarrow>
     Ok (ListEntityReq \<lparr>le_offset = off, le_limit = lim,
       le_status = ReadStringQuery q ''status'' [], le_statusFilter = filt\<rparr>)))"

definition decodeListTasksReq :: "(string \<Rightarrow> anymap option result) \<Rightarrow> query \<Rightarrow> request result" where
  "decodeListTasksReq unmarshal q =
    (case ReadNumQuery q ''offset'' 0 of Inl err \<Rightarrow> rejected err | Inr off \<Rightarrow>
    (case ReadNumQuery q ''limit'' 100 of Inl err \<Rightarrow> rejected err | Inr lim \<Rightarrow>
    (case ReadMetadataQuery unmarshal q ''metadata'' None of Inl err \<Rightarrow> rejected err | Inr meta \<Rightarrow>
     Ok (ListTasksReq \<lparr>lt_offset = off, lt_limit = lim, lt_metadata = meta\<rparr>))))"

definition decodeMetricsReq :: "string \<Rightarrow> query \<Rightarrow> request result" where
  "decodeMetricsReq i q =
    (case ReadNumQuery q ''offset'' 0 of Inl err \<Rightarrow> rejected err | Inr off \<Rightarrow>
    (case ReadNumQuery q ''limit'' 100 of Inl err \<Rightarrow> rejected err | Inr lim \<Rightarrow>
     Ok (MetricsReq \<lparr>mr_id = i, mr_offset = off, mr_limit = lim\<rparr>)))"

definition decodeEntityReq :: "string \<Rightarrow> request result" where
  "decodeEntityReq i = Ok (EntityReq i)"

text \<open>A JSON body: the content type is checked, then the decoder runs.\<close>

definition json_body :: "string \<Rightarrow> 'a result \<Rightarrow> 'a result" where
  "json_body contentType body =
    (if \<not> strings_Contains contentType ''application/json''
     then Err (JoinErr [Sentinel ErrValidation, Sentinel ErrUnsupportedContentType])
     else case body of Inl err \<Rightarrow> Err (JoinErr [err, Sentinel ErrValidation]) | Inr x \<Rightarrow> Ok x)"

definition decodeTaskReq :: "string \<Rightarrow> Task result \<Rightarrow> request result" where
  "decodeTaskReq contentType body = map_sum id TaskReq (json_body contentType body)"

definition decodeUpdateTaskReq :: "string \<Rightarrow> string \<Rightarrow> Task result \<Rightarrow> request result" where
  "decodeUpdateTaskReq taskID contentType body =
    map_sum id (\<lambda>t. TaskReq (t\<lparr>t_ID := taskID\<rparr>)) (json_body contentType body)"

definition decodeWorkflowReq :: "string \<Rightarrow> Task list result \<Rightarrow> request result" where
  "decodeWorkflowReq contentType body = map_sum id WorkflowReq (json_body contentType body)"

definition decodeJobReq :: "string \<Rightarrow> jobReq result \<Rightarrow> request result" where
  "decodeJobReq contentType body = map_sum id JobReq (json_body contentType body)"

definition decodeInvokeTaskReq ::
    "string \<Rightarrow> bool \<Rightarrow> string \<Rightarrow> (string list option \<times> strmap option) result \<Rightarrow> request result" where
  "decodeInvokeTaskReq taskID noBody contentType body =
    (if noBody then Ok (InvokeReq \<lparr>ir_id = taskID, ir_inputs = None, ir_env = None\<rparr>)
     else map_sum id (\<lambda>(inputs, env). InvokeReq \<lparr>ir_id = taskID, ir_inputs = inputs, ir_env = env\<rparr>)
       (json_body contentType body))"

text \<open>The file of an upload: the name and the bytes of the form field, or the error of the form.\<close>

definition wasmMagic :: "8 word list" where
  "wasmMagic = [0, 0x61, 0x73, 0x6D]"

definition decodeUploadTaskFileReq :: "string \<Rightarrow> (string \<times> 8 word list result) result \<Rightarrow> request result" where
  "decodeUploadTaskFileReq taskID form =
    (case form of
       Inl err \<Rightarrow> Err err
     | Inr (filename, content) \<Rightarrow>
         if \<not> (length filename \<ge> 5 \<and> drop (length filename - 5) filename = ''.wasm'')
         then rejected (NewError ''invalid file extension'')
         else case content of
           Inl err \<Rightarrow> Err err
         | Inr data \<Rightarrow>
             if length data < 4 \<or> take 4 data \<noteq> wasmMagic
             then rejected (NewError ''invalid WASM file: missing magic bytes'')
             else Ok (TaskReq (Task_zero\<lparr>t_File := Some data, t_ID := taskID\<rparr>)))"

text \<open>\<open>authContextMiddleware\<close>: the headers become the context of the request.\<close>

definition authContextMiddleware :: "string \<Rightarrow> string \<Rightarrow> ctx \<Rightarrow> ctx" where
  "authContextMiddleware userID authorization c =
    (let token = (if starts_with ''Bearer '' authorization then drop 7 authorization else authorization) in
     if userID \<noteq> [] \<or> token \<noteq> []
     then ContextWithAuth c (AuthContext_zero\<lparr>ac_UserID := userID, ac_Token := token\<rparr>) else c)"

section \<open>Redaction\<close>

text \<open>\<open>base64.StdEncoding\<close>: three bytes become four characters, the rest is padded.\<close>

definition base64_alphabet :: string where
  "base64_alphabet = ''ABCDEFGHIJKLMNOPQRSTUVWXYZabcdefghijklmnopqrstuvwxyz0123456789+/''"

definition base64_char :: "nat \<Rightarrow> char" where
  "base64_char n = base64_alphabet ! n"

fun base64_encode :: "8 word list \<Rightarrow> string" where
  "base64_encode [] = []"
| "base64_encode [a] =
    (let n = unat a in [base64_char (n div 4), base64_char (n mod 4 * 16), CHR ''='', CHR ''=''])"
| "base64_encode [a, b] =
    (let n = unat a * 256 + unat b in
     [base64_char (n div 1024), base64_char (n div 16 mod 64), base64_char (n mod 16 * 4), CHR ''=''])"
| "base64_encode (a # b # c # xs) =
    (let n = (unat a * 256 + unat b) * 256 + unat c in
     [base64_char (n div 262144), base64_char (n div 4096 mod 64), base64_char (n div 64 mod 64),
      base64_char (n mod 64)] @ base64_encode xs)"

definition redactedMarker :: string where
  "redactedMarker = ''<REDACTED>''"

definition redactFile :: "8 word list option \<Rightarrow> string" where
  "redactFile file =
    (if nil_list file = [] then []
     else let encoded = base64_encode (nil_list file) in
       if length encoded \<le> 20 then encoded
       else take 10 encoded @ redactedMarker @ drop (length encoded - 10) encoded)"

text \<open>A task as responses show it: the file is replaced by its redacted text.\<close>

record redactedTask =
  rt_task :: Task
  rt_File :: string

definition newRedactedTask :: "Task \<Rightarrow> redactedTask" where
  "newRedactedTask t = \<lparr>rt_task = t\<lparr>t_File := None\<rparr>, rt_File = redactFile (t_File t)\<rparr>"

definition redactTasks :: "Task list \<Rightarrow> redactedTask list" where
  "redactTasks = map newRedactedTask"

record redactedJobSummary =
  rj_summary :: JobSummary
  rj_Tasks :: "redactedTask list"

definition redactJobSummaries :: "JobSummary list \<Rightarrow> redactedJobSummary list" where
  "redactJobSummaries = map (\<lambda>j. \<lparr>rj_summary = j\<lparr>js_Tasks := []\<rparr>, rj_Tasks = redactTasks (js_Tasks j)\<rparr>)"

section \<open>Responses\<close>

datatype response =
    PropletResponse "PropletView option" bool
  | PropletSDFResponse Document
  | ListPropletResponse PropletPageView
  | AliveHistoryResponse PropletAliveHistoryPage
  | TaskResponse Task bool bool
  | ListTaskResponse TaskPage
  | MessageResponse anymap
  | TaskMetricsResponse TaskMetricsPage
  | PropletMetricsResponse PropletMetricsPage
  | WorkflowResponse "Task list"
  | TaskResultsResponse any
  | JobResponse string "Task list"
  | ListJobResponse JobPage

fun Code :: "response \<Rightarrow> nat" where
  "Code (PropletResponse _ deleted) = (if deleted then 204 else 200)"
| "Code (TaskResponse _ created deleted) = (if created then 201 else if deleted then 204 else 200)"
| "Code (WorkflowResponse _) = 201"
| "Code (JobResponse _ _) = 201"
| "Code _ = 200"

fun Headers :: "response \<Rightarrow> strmap" where
  "Headers (TaskResponse t created _) = (if created then [(''Location'', ''/tasks/'' @ t_ID t)] else [])"
| "Headers (JobResponse i _) = [(''Location'', ''/jobs/'' @ i)]"
| "Headers _ = []"

fun Empty :: "response \<Rightarrow> bool" where
  "Empty (PropletResponse _ deleted) = deleted"
| "Empty (TaskResponse _ _ deleted) = deleted"
| "Empty (WorkflowResponse tasks) = (tasks = [])"
| "Empty (TaskResultsResponse r) = (r = ANil)"
| "Empty _ = False"

text \<open>The tasks in the JSON text of a response: every response that has tasks redacts them.\<close>

fun shown_tasks :: "response \<Rightarrow> redactedTask list" where
  "shown_tasks (TaskResponse t _ _) = [newRedactedTask t]"
| "shown_tasks (ListTaskResponse page) = redactTasks (tp_Tasks page)"
| "shown_tasks (WorkflowResponse tasks) = redactTasks tasks"
| "shown_tasks (JobResponse _ tasks) = redactTasks tasks"
| "shown_tasks (ListJobResponse page) = concat (map rj_Tasks (redactJobSummaries (jp_Jobs page)))"
| "shown_tasks _ = []"

text \<open>\<open>EncodeError\<close>: the status code of an error.\<close>

definition error_code :: "error \<Rightarrow> nat" where
  "error_code err =
    (if errors_Is err ErrValidation \<or> errors_Is err ErrEmptyKey \<or> errors_Is err ErrInvalidValue then 400
     else if errors_Is err ErrNotFound then 404
     else if errors_Is err ErrConflict then 409
     else 500)"

section \<open>Endpoints\<close>

definition wrong_type :: "world \<Rightarrow> response result running" where
  "wrong_type w = (Some (rejected (Sentinel ErrInvalidData)), w)"

text \<open>The check of a request before the call of the service.\<close>

definition checked :: "unit result \<Rightarrow> world \<Rightarrow> (world \<Rightarrow> response result running) \<Rightarrow> response result running" where
  "checked v w call = (case v of Inl err \<Rightarrow> (Some (rejected err), w) | Inr _ \<Rightarrow> call w)"

text \<open>The response to the result of the service.\<close>

definition respond :: "('a \<Rightarrow> response) \<Rightarrow> 'a result \<times> world \<Rightarrow> response result running" where
  "respond f r = (Some (map_sum id f (fst r)), snd r)"

definition respond_running :: "('a \<Rightarrow> response) \<Rightarrow> 'a result running \<Rightarrow> response result running" where
  "respond_running f r = (map_option (map_sum id f) (fst r), snd r)"

definition listPropletsEndpoint :: "env \<Rightarrow> request \<Rightarrow> world \<Rightarrow> response result running" where
  "listPropletsEndpoint e request w = (case request of
     ListEntityReq req \<Rightarrow> checked (listEntityReq_validate req) w (\<lambda>w.
       respond (ListPropletResponse \<circ> PropletPage_View)
         (ListProplets e (le_offset req) (le_limit req) (le_status req) w))
   | _ \<Rightarrow> wrong_type w)"

definition getPropletEndpoint :: "(string \<Rightarrow> bool) \<Rightarrow> env \<Rightarrow> request \<Rightarrow> world \<Rightarrow> response result running" where
  "getPropletEndpoint uuid e request w = (case request of
     EntityReq i \<Rightarrow> checked (entityReq_validate uuid i) w (\<lambda>w.
       respond (\<lambda>p. PropletResponse (Some (Proplet_View p)) False) (GetProplet e i w))
   | _ \<Rightarrow> wrong_type w)"

definition getPropletAliveHistoryEndpoint :: "env \<Rightarrow> request \<Rightarrow> world \<Rightarrow> response result running" where
  "getPropletAliveHistoryEndpoint e request w = (case request of
     MetricsReq req \<Rightarrow> checked (metricsReq_validate req) w (\<lambda>w.
       respond AliveHistoryResponse (GetPropletAliveHistory e (mr_id req) (mr_offset req) (mr_limit req) w))
   | _ \<Rightarrow> wrong_type w)"

definition getPropletSDFEndpoint :: "(string \<Rightarrow> bool) \<Rightarrow> env \<Rightarrow> request \<Rightarrow> world \<Rightarrow> response result running" where
  "getPropletSDFEndpoint uuid e request w = (case request of
     EntityReq i \<Rightarrow> checked (entityReq_validate uuid i) w (\<lambda>w.
       respond PropletSDFResponse (GetPropletSDF e i w))
   | _ \<Rightarrow> wrong_type w)"

definition deletePropletEndpoint :: "(string \<Rightarrow> bool) \<Rightarrow> env \<Rightarrow> request \<Rightarrow> world \<Rightarrow> response result running" where
  "deletePropletEndpoint uuid e request w = (case request of
     EntityReq i \<Rightarrow> checked (entityReq_validate uuid i) w (\<lambda>w.
       respond (\<lambda>_. PropletResponse None True) (DeleteProplet e i w))
   | _ \<Rightarrow> wrong_type w)"

definition createTaskEndpoint :: "env \<Rightarrow> ctx \<Rightarrow> request \<Rightarrow> world \<Rightarrow> response result running" where
  "createTaskEndpoint e ctx request w = (case request of
     TaskReq t \<Rightarrow> checked (taskReq_validate e t) w (\<lambda>w.
       respond (\<lambda>t. TaskResponse t True False) (pm_CreateTask e ctx t w))
   | _ \<Rightarrow> wrong_type w)"

definition createWorkflowEndpoint :: "env \<Rightarrow> ctx \<Rightarrow> request \<Rightarrow> world \<Rightarrow> response result running" where
  "createWorkflowEndpoint e ctx request w = (case request of
     WorkflowReq tasks \<Rightarrow> checked (workflowReq_validate tasks) w (\<lambda>w.
       respond WorkflowResponse (pm_CreateWorkflow e ctx tasks w))
   | _ \<Rightarrow> wrong_type w)"

definition createJobEndpoint :: "env \<Rightarrow> ctx \<Rightarrow> request \<Rightarrow> world \<Rightarrow> response result running" where
  "createJobEndpoint e ctx request w = (case request of
     JobReq j \<Rightarrow> checked (jobReq_validate j) w (\<lambda>w.
       respond (\<lambda>(jobID, tasks). JobResponse jobID tasks)
         (pm_CreateJob e ctx (jr_Name j) (jr_Tasks j) (jr_ExecutionMode j) w))
   | _ \<Rightarrow> wrong_type w)"

definition getJobEndpoint :: "(string \<Rightarrow> bool) \<Rightarrow> env \<Rightarrow> request \<Rightarrow> world \<Rightarrow> response result running" where
  "getJobEndpoint uuid e request w = (case request of
     EntityReq i \<Rightarrow> checked (entityReq_validate uuid i) w (\<lambda>w.
       respond (JobResponse i) (GetJob e i w))
   | _ \<Rightarrow> wrong_type w)"

definition listJobsEndpoint :: "env \<Rightarrow> request \<Rightarrow> world \<Rightarrow> response result running" where
  "listJobsEndpoint e request w = (case request of
     ListEntityReq req \<Rightarrow> checked (listEntityReq_validate req) w (\<lambda>w.
       respond ListJobResponse (ListJobs e (le_offset req) (le_limit req) (le_status req) w))
   | _ \<Rightarrow> wrong_type w)"

definition startJobEndpoint ::
    "(string \<Rightarrow> bool) \<Rightarrow> nat \<Rightarrow> (string list \<Rightarrow> string list) \<Rightarrow> (string \<Rightarrow> string) \<Rightarrow> env \<Rightarrow> ctx \<Rightarrow>
      request \<Rightarrow> world \<Rightarrow> response result running" where
  "startJobEndpoint uuid n order quote e ctx request w = (case request of
     EntityReq i \<Rightarrow> checked (entityReq_validate uuid i) w (\<lambda>w.
       respond_running (\<lambda>_. MessageResponse [(''message'', AString ''job started''), (''job_id'', AString i)])
         (pm_StartJob n order quote e ctx i w))
   | _ \<Rightarrow> wrong_type w)"

definition stopJobEndpoint :: "(string \<Rightarrow> bool) \<Rightarrow> env \<Rightarrow> ctx \<Rightarrow> request \<Rightarrow> world \<Rightarrow> response result running" where
  "stopJobEndpoint uuid e ctx request w = (case request of
     EntityReq i \<Rightarrow> checked (entityReq_validate uuid i) w (\<lambda>w.
       respond (\<lambda>_. MessageResponse [(''message'', AString ''job stopped''), (''job_id'', AString i)])
         (pm_StopJob e ctx i w))
   | _ \<Rightarrow> wrong_type w)"

definition listTasksEndpoint :: "env \<Rightarrow> request \<Rightarrow> world \<Rightarrow> response result running" where
  "listTasksEndpoint e request w = (case request of
     ListTasksReq req \<Rightarrow> checked (listTasksReq_validate req) w (\<lambda>w.
       respond ListTaskResponse (ListTasks e \<lparr>pg_Offset = lt_offset req, pg_Limit = lt_limit req,
         pg_Metadata = lt_metadata req\<rparr> w))
   | _ \<Rightarrow> wrong_type w)"

definition getTaskEndpoint :: "(string \<Rightarrow> bool) \<Rightarrow> env \<Rightarrow> request \<Rightarrow> world \<Rightarrow> response result running" where
  "getTaskEndpoint uuid e request w = (case request of
     EntityReq i \<Rightarrow> checked (entityReq_validate uuid i) w (\<lambda>w.
       respond (\<lambda>t. TaskResponse t False False) (GetTask e i w))
   | _ \<Rightarrow> wrong_type w)"

text \<open>The update endpoint does not validate the request.\<close>

definition updateTaskEndpoint :: "env \<Rightarrow> ctx \<Rightarrow> request \<Rightarrow> world \<Rightarrow> response result running" where
  "updateTaskEndpoint e ctx request w = (case request of
     TaskReq t \<Rightarrow> respond (\<lambda>t. TaskResponse t False False) (pm_UpdateTask e ctx t w)
   | _ \<Rightarrow> wrong_type w)"

definition deleteTaskEndpoint :: "(string \<Rightarrow> bool) \<Rightarrow> env \<Rightarrow> ctx \<Rightarrow> request \<Rightarrow> world \<Rightarrow> response result running" where
  "deleteTaskEndpoint uuid e ctx request w = (case request of
     EntityReq i \<Rightarrow> checked (entityReq_validate uuid i) w (\<lambda>w.
       respond (\<lambda>_. TaskResponse Task_zero False True) (pm_DeleteTask e ctx i w))
   | _ \<Rightarrow> wrong_type w)"

definition startTaskEndpoint :: "(string \<Rightarrow> bool) \<Rightarrow> nat \<Rightarrow> env \<Rightarrow> ctx \<Rightarrow> request \<Rightarrow> world \<Rightarrow> response result running" where
  "startTaskEndpoint uuid n e ctx request w = (case request of
     EntityReq i \<Rightarrow> checked (entityReq_validate uuid i) w (\<lambda>w.
       respond_running (\<lambda>_. MessageResponse [(''started'', ABool True)]) (pm_StartTask n e ctx i w))
   | _ \<Rightarrow> wrong_type w)"

definition stopTaskEndpoint :: "(string \<Rightarrow> bool) \<Rightarrow> env \<Rightarrow> ctx \<Rightarrow> request \<Rightarrow> world \<Rightarrow> response result running" where
  "stopTaskEndpoint uuid e ctx request w = (case request of
     EntityReq i \<Rightarrow> checked (entityReq_validate uuid i) w (\<lambda>w.
       respond (\<lambda>_. MessageResponse [(''stopped'', ABool True)]) (pm_StopTask e ctx i w))
   | _ \<Rightarrow> wrong_type w)"

definition invokeTaskEndpoint ::
    "(string \<Rightarrow> bool) \<Rightarrow> waiting \<Rightarrow> env \<Rightarrow> ctx \<Rightarrow> request \<Rightarrow> world \<Rightarrow> response result running" where
  "invokeTaskEndpoint uuid wait e ctx request w = (case request of
     InvokeReq req \<Rightarrow> checked (invokeReq_validate uuid req) w (\<lambda>w.
       respond_running (\<lambda>results. MessageResponse [(''invoked'', ABool True), (''results'', AString results)])
         (pm_InvokeTask wait e ctx (ir_id req) (ir_inputs req) (ir_env req) w))
   | _ \<Rightarrow> wrong_type w)"

definition getTaskMetricsEndpoint :: "env \<Rightarrow> request \<Rightarrow> world \<Rightarrow> response result running" where
  "getTaskMetricsEndpoint e request w = (case request of
     MetricsReq req \<Rightarrow> checked (metricsReq_validate req) w (\<lambda>w.
       respond TaskMetricsResponse (GetTaskMetrics e (mr_id req) (mr_offset req) (mr_limit req) w))
   | _ \<Rightarrow> wrong_type w)"

definition getPropletMetricsEndpoint :: "env \<Rightarrow> request \<Rightarrow> world \<Rightarrow> response result running" where
  "getPropletMetricsEndpoint e request w = (case request of
     MetricsReq req \<Rightarrow> checked (metricsReq_validate req) w (\<lambda>w.
       respond PropletMetricsResponse (GetPropletMetrics e (mr_id req) (mr_offset req) (mr_limit req) w))
   | _ \<Rightarrow> wrong_type w)"

definition getTaskResultsEndpoint :: "(string \<Rightarrow> bool) \<Rightarrow> env \<Rightarrow> request \<Rightarrow> world \<Rightarrow> response result running" where
  "getTaskResultsEndpoint uuid e request w = (case request of
     EntityReq i \<Rightarrow> checked (entityReq_validate uuid i) w (\<lambda>w.
       respond TaskResultsResponse (GetTaskResults e i w))
   | _ \<Rightarrow> wrong_type w)"

section \<open>What the validation accepts\<close>

text \<open>The requirements on requests, stated without reference to the order of the checks.\<close>

definition elastic_ok :: "anymap option \<Rightarrow> bool" where
  "elastic_ok m \<longleftrightarrow>
    (case map_of (nil_list m) MetadataElasticKey of
       None \<Rightarrow> True
     | Some (AMap cfg) \<Rightarrow>
         (\<forall>k \<in> set ElasticKeys. case map_of cfg k of None \<Rightarrow> True | Some v \<Rightarrow> (\<exists>s. v = AString s)) \<and>
         \<not> (map_of cfg ElasticWasiSecurity \<noteq> None \<and> map_of cfg ElasticWasiPEP \<noteq> None)
     | Some _ \<Rightarrow> False)"

definition run_if_ok :: "Task \<Rightarrow> bool" where
  "run_if_ok t \<longleftrightarrow> t_RunIf t \<in> {[], RunIfSuccess, RunIfFailure}"

definition task_ok :: "env \<Rightarrow> Task \<Rightarrow> bool" where
  "task_ok e t \<longleftrightarrow> t_Name t \<noteq> [] \<and> run_if_ok t \<and>
    (t_Schedule t = [] \<or> ValidateCronExpression (e_cron e) (t_Schedule t) = Ok ()) \<and>
    0 \<le> t_Priority t \<and> t_Priority t \<le> 100 \<and> \<not> (t_Broadcast t \<and> t_PropletID t \<noteq> []) \<and>
    (nil_list (t_Metadata t) = [] \<or>
      (\<exists>b. e_marshal e (nil_list (t_Metadata t)) = Some b \<and> length b \<le> maxMetadataBytes)) \<and>
    elastic_ok (t_Metadata t)"

definition tasks_ok :: "Task list \<Rightarrow> bool" where
  "tasks_ok ts \<longleftrightarrow> ts \<noteq> [] \<and> (\<forall>t \<in> set ts. t_Name t \<noteq> [] \<and> run_if_ok t)"

fun request_ok :: "(string \<Rightarrow> bool) \<Rightarrow> env \<Rightarrow> request \<Rightarrow> bool" where
  "request_ok uuid e (TaskReq t) \<longleftrightarrow> task_ok e t"
| "request_ok uuid e (WorkflowReq ts) \<longleftrightarrow> tasks_ok ts"
| "request_ok uuid e (JobReq j) \<longleftrightarrow> tasks_ok (jr_Tasks j)"
| "request_ok uuid e (EntityReq i) \<longleftrightarrow> i \<noteq> [] \<and> uuid i"
| "request_ok uuid e (InvokeReq r) \<longleftrightarrow> ir_id r \<noteq> [] \<and> uuid (ir_id r)"
| "request_ok uuid e (ListEntityReq r) \<longleftrightarrow> le_status r = [] \<or>
    le_statusFilter r = propletStatusFilter \<and> le_status r \<in> {''active'', ''inactive''} \<or>
    le_statusFilter r = jobStatusFilter \<and> (\<exists>s. ToJobStatus (le_status r) = Ok s)"
| "request_ok uuid e (ListTasksReq r) \<longleftrightarrow> 1 \<le> lt_limit r \<and> lt_limit r \<le> 100"
| "request_ok uuid e (MetricsReq r) \<longleftrightarrow> mr_id r \<noteq> []"

lemma elastic_keys_iff:
  "elastic_keys cfg ks = Ok () \<longleftrightarrow>
    (\<forall>k \<in> set ks. case map_of cfg k of None \<Rightarrow> True | Some v \<Rightarrow> (\<exists>s. v = AString s))"
  by (induction ks) (auto split: option.splits any.splits)

lemma validateElasticConfig_iff: "validateElasticConfig m = Ok () \<longleftrightarrow> elastic_ok m"
  unfolding validateElasticConfig_def elastic_ok_def elastic_keys_iff [symmetric]
  by (auto split: option.splits any.splits sum.splits)

lemma taskReq_validate_iff: "taskReq_validate e t = Ok () \<longleftrightarrow> task_ok e t"
  by (auto simp: taskReq_validate_def task_ok_def run_if_ok_def validateElasticConfig_iff
    split: sum.splits option.splits if_splits)

lemma tasks_validate_iff: "tasks_validate ts = Ok () \<longleftrightarrow> (\<forall>t \<in> set ts. t_Name t \<noteq> [] \<and> run_if_ok t)"
  by (induction ts) (auto simp: run_if_ok_def)

lemma one_le_u64: "1 \<le> (x :: u64) \<longleftrightarrow> x \<noteq> 0"
  unfolding linorder_not_less [symmetric] by simp

lemma validate_iff:
  "workflowReq_validate ts = Ok () \<longleftrightarrow> tasks_ok ts"
  "jobReq_validate j = Ok () \<longleftrightarrow> tasks_ok (jr_Tasks j)"
  "entityReq_validate uuid i = Ok () \<longleftrightarrow> i \<noteq> [] \<and> uuid i"
  "invokeReq_validate uuid r = Ok () \<longleftrightarrow> ir_id r \<noteq> [] \<and> uuid (ir_id r)"
  "listEntityReq_validate le = Ok () \<longleftrightarrow> request_ok uuid e (ListEntityReq le)"
  "listTasksReq_validate lt = Ok () \<longleftrightarrow> request_ok uuid e (ListTasksReq lt)"
  "metricsReq_validate mr = Ok () \<longleftrightarrow> mr_id mr \<noteq> []"
  by (auto simp: workflowReq_validate_def jobReq_validate_def tasks_ok_def tasks_validate_iff
    entityReq_validate_def invokeReq_validate_def metricsReq_validate_def listTasksReq_validate_def
    MaxLimitSize_def listEntityReq_validate_def ToStatus_def not_le not_less one_le_u64
    split: listEntityStatus.splits sum.splits if_splits)

definition bad_request :: "world \<Rightarrow> response result running \<Rightarrow> bool" where
  "bad_request w r \<longleftrightarrow> (\<exists>err. r = (Some (Err err), w) \<and> error_code err = 400)"

lemma rejected_code: "bad_request w (Some (rejected err), w)"
  by (simp add: bad_request_def rejected_def error_code_def)

lemma bad_wrong_type: "bad_request w (wrong_type w)"
  unfolding wrong_type_def by (rule rejected_code)

lemma bad_checked: "v \<noteq> Ok () \<Longrightarrow> bad_request w (checked v w call)"
  by (cases v) (simp_all add: checked_def rejected_code)

text \<open>
  C16. A request that does not meet the requirements never reaches the service. Every endpoint but
  the update of a task answers it with status 400 and leaves the state as it is, and so it does
  with a request of another kind. The requirements: a task has a name, a known \<open>run_if\<close>, a valid
  schedule, a priority from 0 to 100, at most one of broadcast and a fixed proplet, metadata of
  at most a megabyte and a well-formed ELASTIC object; a workflow or a job has tasks, with names
  and a known \<open>run_if\<close>; an identifier is a UUID; a status filter names a status; a page of tasks
  has from 1 to 100 entries.
\<close>

theorem invalid_requests_are_refused:
  assumes "\<not> request_ok uuid e request"
  shows "bad_request w (listPropletsEndpoint e request w) \<and>
    bad_request w (getPropletEndpoint uuid e request w) \<and>
    bad_request w (getPropletAliveHistoryEndpoint e request w) \<and>
    bad_request w (getPropletSDFEndpoint uuid e request w) \<and>
    bad_request w (deletePropletEndpoint uuid e request w) \<and>
    bad_request w (createTaskEndpoint e ctx request w) \<and>
    bad_request w (createWorkflowEndpoint e ctx request w) \<and>
    bad_request w (createJobEndpoint e ctx request w) \<and>
    bad_request w (getJobEndpoint uuid e request w) \<and>
    bad_request w (listJobsEndpoint e request w) \<and>
    bad_request w (startJobEndpoint uuid n order quote e ctx request w) \<and>
    bad_request w (stopJobEndpoint uuid e ctx request w) \<and>
    bad_request w (listTasksEndpoint e request w) \<and>
    bad_request w (getTaskEndpoint uuid e request w) \<and>
    bad_request w (deleteTaskEndpoint uuid e ctx request w) \<and>
    bad_request w (startTaskEndpoint uuid n e ctx request w) \<and>
    bad_request w (stopTaskEndpoint uuid e ctx request w) \<and>
    bad_request w (invokeTaskEndpoint uuid wait e ctx request w) \<and>
    bad_request w (getTaskMetricsEndpoint e request w) \<and>
    bad_request w (getPropletMetricsEndpoint e request w) \<and>
    bad_request w (getTaskResultsEndpoint uuid e request w)"
proof -
  note v = validate_iff(1-4,7) validate_iff(5,6) [where uuid = uuid and e = e] taskReq_validate_iff
  show ?thesis
    unfolding listPropletsEndpoint_def getPropletEndpoint_def getPropletAliveHistoryEndpoint_def
      getPropletSDFEndpoint_def deletePropletEndpoint_def createTaskEndpoint_def
      createWorkflowEndpoint_def createJobEndpoint_def getJobEndpoint_def listJobsEndpoint_def
      startJobEndpoint_def stopJobEndpoint_def listTasksEndpoint_def getTaskEndpoint_def
      deleteTaskEndpoint_def startTaskEndpoint_def stopTaskEndpoint_def invokeTaskEndpoint_def
      getTaskMetricsEndpoint_def getPropletMetricsEndpoint_def getTaskResultsEndpoint_def
    using assms
    by (cases request; simp only: request.case; intro conjI bad_wrong_type bad_checked;
      simp only: v request_ok.simps; simp)
qed

theorem invalid_requests_are_refused_witness:
  "bad_request two_tasks (createTaskEndpoint env0 ctx0 (TaskReq (Task_zero\<lparr>t_Name := ''a'', t_Priority := 101\<rparr>)) two_tasks) \<and>
   bad_request two_tasks (listTasksEndpoint env0 (ListTasksReq \<lparr>lt_offset = 0, lt_limit = 0, lt_metadata = None\<rparr>) two_tasks)"
proof -
  have "\<not> request_ok (\<lambda>_. True) env0 (TaskReq (Task_zero\<lparr>t_Name := ''a'', t_Priority := 101\<rparr>))"
    "\<not> request_ok (\<lambda>_. True) env0 (ListTasksReq \<lparr>lt_offset = 0, lt_limit = 0, lt_metadata = None\<rparr>)"
    by (simp_all add: task_ok_def)
  from this [THEN invalid_requests_are_refused] show ?thesis by blast
qed

section \<open>Updates and uploads\<close>

lemma updateTaskEndpoint_Ok:
  assumes "world_inv e w" "updateTaskEndpoint e ctx (TaskReq t) w = (Some (Ok resp), w')"
  shows "\<exists>t' old s. resp = TaskResponse t' False False \<and> task w (t_ID t) = Some old \<and> update_frame old t' \<and>
    t_Schedule t' = t_Schedule t \<and> same_but_run s t' \<and> task w' = (task w)(t_ID t \<mapsto> s)"
proof -
  obtain a w1 where a: "authorize e ctx ActionUpdate (NewTaskInfo t) w = (a, w1)" by fastforce
  have "reach e {} w w1" by (rule reach_result [OF a]) (intro reach_intros reach_refl)
  hence w1: "world_inv e w1" "task w1 = task w" using assms(1) reach_inv reach_views(1) by auto
  obtain t' where u: "UpdateTask e t w1 = (Ok t', w')" "resp = TaskResponse t' False False"
    using assms(2) a
    by (cases a; cases "fst (UpdateTask e t w1)"; cases "UpdateTask e t w1")
      (auto simp: updateTaskEndpoint_def respond_def pm_UpdateTask_def)
  from UpdateTask_effect [OF w1(1) u(1)] u(2) w1(2) show ?thesis by auto
qed

text \<open>
  C39. Uploading a file removes the schedule of the task. The upload is an update whose request
  has the file and nothing else, and the service takes the missing schedule for a request to
  remove it: whenever an upload succeeds, the stored task has no schedule afterwards, whatever
  schedule it had.
\<close>

theorem upload_removes_schedule:
  assumes "world_inv e w" "decodeUploadTaskFileReq i form = Ok req"
    "updateTaskEndpoint e ctx req w = (Some (Ok resp), w')"
  shows "\<exists>old s. task w i = Some old \<and> task w' = (task w)(i \<mapsto> s) \<and> t_Schedule s = [] \<and>
    t_State s = t_State old"
proof -
  obtain data where req: "req = TaskReq (Task_zero\<lparr>t_File := Some data, t_ID := i\<rparr>)"
    using assms(2) by (auto simp: decodeUploadTaskFileReq_def rejected_def split: sum.splits prod.splits if_splits)
  obtain t' old s where t: "task w i = Some old" "update_frame old t'" "t_Schedule t' = []"
      "same_but_run s t'" "task w' = (task w)(i \<mapsto> s)"
    using updateTaskEndpoint_Ok [OF assms(1) assms(3) [unfolded req]] by (auto simp: Task_zero_def)
  have s: "t_Schedule s = t_Schedule t'" "t_State s = t_State t'"
    using arg_cong [OF t(4) [unfolded same_but_run_def], of t_Schedule]
      arg_cong [OF t(4) [unfolded same_but_run_def], of t_State] by simp_all
  have "t_State t' = t_State old"
    using arg_cong [OF t(2) [unfolded update_frame_def unedited_def], of t_State] by simp
  thus ?thesis using t s by auto
qed

text \<open>
  The update endpoint accepts what the validation of a new task refuses: a priority of 1000 is
  stored.
\<close>

lemma update_is_not_validated:
  "let t = Task_zero\<lparr>t_ID := ''a'', t_Priority := 1000\<rparr>;
       r = updateTaskEndpoint env0 ctx0 (TaskReq t) two_tasks in
   \<not> request_ok (\<lambda>_. True) env0 (TaskReq t) \<and>
   (case fst r of Some (Inr (TaskResponse t' _ _)) \<Rightarrow> t_Priority t' = 1000 | _ \<Rightarrow> False)"
proof -
  have "\<not> request_ok (\<lambda>_. True) env0 (TaskReq (Task_zero\<lparr>t_ID := ''a'', t_Priority := 1000\<rparr>))"
    by (simp add: task_ok_def Task_zero_def)
  moreover have "case fst (updateTaskEndpoint env0 ctx0 (TaskReq (Task_zero\<lparr>t_ID := ''a'', t_Priority := 1000\<rparr>)) two_tasks) of
      Some (Inr (TaskResponse t' _ _)) \<Rightarrow> t_Priority t' = 1000 | _ \<Rightarrow> False"
    by code_simp
  ultimately show ?thesis unfolding Let_def by blast
qed

text \<open>
  A response shows at most thirty characters of a file, and of a file of more than fifteen bytes
  only the first and the last ten characters of its base64 text.
\<close>

lemma length_base64_encode: "length (base64_encode xs) = 4 * ((length xs + 2) div 3)"
proof (induction xs rule: base64_encode.induct)
  case (4 a b c xs)
  have "(length xs + 5) div 3 = Suc ((length xs + 2) div 3)" by presburger
  thus ?case using 4 by (simp add: Let_def add.commute)
qed (simp_all add: Let_def)

lemma redactFile_short:
  "length (redactFile f) \<le> 30"
  "15 < length (nil_list f) \<Longrightarrow>
    redactFile f = take 10 (base64_encode (nil_list f)) @ ''<REDACTED>'' @
      drop (length (base64_encode (nil_list f)) - 10) (base64_encode (nil_list f))"
  by (auto simp: redactFile_def Let_def redactedMarker_def length_base64_encode)

lemma shown_tasks_redacted:
  "rt \<in> set (shown_tasks resp) \<Longrightarrow> t_File (rt_task rt) = None \<and> length (rt_File rt) \<le> 30"
  by (cases resp) (auto simp: redactTasks_def redactJobSummaries_def newRedactedTask_def redactFile_short(1))

text \<open>A task with a schedule, and an upload to it.\<close>

definition sched_world :: world where
  "sched_world = snd (taskRepo_Create env0 (Task_zero\<lparr>t_ID := ''a'', t_Schedule := ''@daily''\<rparr>) NewService)"

lemma sched_world_inv: "world_inv env0 sched_world"
proof -
  have "reach env0 {Tasks} NewService sched_world"
    unfolding sched_world_def by (intro reach_write reach_refl) simp_all
  thus ?thesis by (rule reach_inv) simp
qed

definition upload_req :: request where
  "upload_req = TaskReq (Task_zero\<lparr>t_File := Some (wasmMagic @ [1]), t_ID := ''a''\<rparr>)"

theorem upload_removes_schedule_witness:
  "map_option t_Schedule (task sched_world ''a'') = Some ''@daily'' \<and>
   map_option t_Schedule (task (snd (updateTaskEndpoint env0 ctx0 upload_req sched_world)) ''a'') = Some []"
proof -
  have d: "decodeUploadTaskFileReq ''a'' (Ok (''m.wasm'', Ok (wasmMagic @ [1]))) = Ok upload_req"
    by (simp add: decodeUploadTaskFileReq_def upload_req_def wasmMagic_def)
  have "case fst (updateTaskEndpoint env0 ctx0 upload_req sched_world) of Some (Inr _) \<Rightarrow> True | _ \<Rightarrow> False"
    by code_simp
  then obtain resp where r: "fst (updateTaskEndpoint env0 ctx0 upload_req sched_world) = Some (Ok resp)"
    by (auto split: option.splits sum.splits)
  have "updateTaskEndpoint env0 ctx0 upload_req sched_world =
    (Some (Ok resp), snd (updateTaskEndpoint env0 ctx0 upload_req sched_world))"
    using r by (simp add: prod_eq_iff)
  from upload_removes_schedule [OF sched_world_inv d this]
  have "map_option t_Schedule (task (snd (updateTaskEndpoint env0 ctx0 upload_req sched_world)) ''a'') = Some []"
    by auto
  moreover have "map_option t_Schedule (task sched_world ''a'') = Some ''@daily''" by code_simp
  ultimately show ?thesis by blast
qed

text \<open>
  The limit of a list of proplets is not checked: a request with the largest limit and an offset
  inside the list makes the storage compute a slice bound that wraps around, and it panics.
\<close>

definition two_proplets :: world where
  "two_proplets = snd (propletRepo_Create env0 (Proplet_zero\<lparr>p_ID := ''q''\<rparr>)
     (snd (propletRepo_Create env0 (Proplet_zero\<lparr>p_ID := ''p''\<rparr>) NewService)))"

definition wide_request :: request where
  "wide_request = ListEntityReq \<lparr>le_offset = 1, le_limit = 18446744073709551615, le_status = [],
     le_statusFilter = propletStatusFilter\<rparr>"

lemma list_proplets_panics:
  "request_ok (\<lambda>_. True) env0 wide_request"
  "fst (listPropletsEndpoint env0 wide_request two_proplets) = Some (Err GoPanic)"
proof -
  show "request_ok (\<lambda>_. True) env0 wide_request" by (simp add: wide_request_def)
  have "case fst (listPropletsEndpoint env0 wide_request two_proplets) of
      Some (Inl GoPanic) \<Rightarrow> True | _ \<Rightarrow> False" by code_simp
  thus "fst (listPropletsEndpoint env0 wide_request two_proplets) = Some (Err GoPanic)"
    by (auto split: option.splits sum.splits error.splits)
qed

end
