(* ===== verification/System.thy ===== *)
theory System
  imports Api Rounds
begin

text \<open>
  The manager as a whole: a step is the service of one request of the HTTP interface, the
  handling of one message of the broker, the start of a round of federated learning, a run of
  the cron scheduler, the recovery at start-up or a shutdown; the goroutines of each of these
  that interleave with it appear in the arguments of the operations. The invariant of the state
  holds in every state that the manager reaches from the empty one, whatever requests and
  messages come, whatever the plugins answer and whichever calls of the storage and the broker
  fail.
\<close>

inductive manager_step :: "env \<Rightarrow> world \<Rightarrow> world \<Rightarrow> bool" for e :: env where
  list_proplets: "manager_step e w (snd (listPropletsEndpoint e req w))"
| get_proplet: "manager_step e w (snd (getPropletEndpoint uuid e req w))"
| alive_history: "manager_step e w (snd (getPropletAliveHistoryEndpoint e req w))"
| proplet_sdf: "manager_step e w (snd (getPropletSDFEndpoint uuid e req w))"
| delete_proplet: "manager_step e w (snd (deletePropletEndpoint uuid e req w))"
| create_task: "manager_step e w (snd (createTaskEndpoint e ctx req w))"
| create_workflow: "manager_step e w (snd (createWorkflowEndpoint e ctx req w))"
| create_job: "manager_step e w (snd (createJobEndpoint e ctx req w))"
| get_job: "manager_step e w (snd (getJobEndpoint uuid e req w))"
| list_jobs: "manager_step e w (snd (listJobsEndpoint e req w))"
| start_job: "manager_step e w (snd (startJobEndpoint uuid n order quote e ctx req w))"
| stop_job: "manager_step e w (snd (stopJobEndpoint uuid e ctx req w))"
| list_tasks: "manager_step e w (snd (listTasksEndpoint e req w))"
| get_task: "manager_step e w (snd (getTaskEndpoint uuid e req w))"
| update_task: "manager_step e w (snd (updateTaskEndpoint e ctx req w))"
| delete_task: "manager_step e w (snd (deleteTaskEndpoint uuid e ctx req w))"
| start_task: "manager_step e w (snd (startTaskEndpoint uuid n e ctx req w))"
| stop_task: "manager_step e w (snd (stopTaskEndpoint uuid e ctx req w))"
| invoke_task: "good_waiting e wait \<Longrightarrow> manager_step e w (snd (invokeTaskEndpoint uuid wait e ctx req w))"
| task_metrics: "manager_step e w (snd (getTaskMetricsEndpoint e req w))"
| proplet_metrics: "manager_step e w (snd (getPropletMetricsEndpoint e req w))"
| task_results: "manager_step e w (snd (getTaskResultsEndpoint uuid e req w))"
| message: "manager_step e w (snd (handle n e ctx topic msg w))"
| round_start: "manager_step e w (snd (processRoundStart n e ctx msg w))"
| cron: "manager_step e w (snd (StartCronScheduler n e ctx events w))"
| recover: "manager_step e w (snd (RecoverInterruptedTasks torder e w))"
| shutdown: "cooperative e others \<Longrightarrow> manager_step e w (snd (pm_Shutdown ticks err others e w))"

inductive manager_reach :: "env \<Rightarrow> world \<Rightarrow> bool" for e :: env where
  start: "manager_reach e NewService"
| step: "manager_reach e w \<Longrightarrow> manager_step e w w' \<Longrightarrow> manager_reach e w'"

lemma reach_respond:
  "reach e C w0 (snd r) \<Longrightarrow> reach e C w0 (snd (respond f r))"
  "reach e C w0 (snd q) \<Longrightarrow> reach e C w0 (snd (respond_running f q))"
  by (simp_all add: respond_def respond_running_def)

lemma reach_checked:
  "reach e C w0 w \<Longrightarrow> reach e C w0 (snd (call w)) \<Longrightarrow> reach e C w0 (snd (checked v w call))"
  by (cases v) (simp_all add: checked_def)

lemma reach_wrong_type: "reach e C w0 w \<Longrightarrow> reach e C w0 (snd (wrong_type w))"
  by (simp add: wrong_type_def)

lemma reach_GetPropletSDF [reach_intros]: "reach e C w0 w \<Longrightarrow> reach e C w0 (snd (GetPropletSDF e i w))"
  unfolding GetPropletSDF_def by (assumption | rule reach_steps reach_intros)+

lemmas endpoint_defs = listPropletsEndpoint_def getPropletEndpoint_def getPropletAliveHistoryEndpoint_def
  getPropletSDFEndpoint_def deletePropletEndpoint_def createTaskEndpoint_def createWorkflowEndpoint_def
  createJobEndpoint_def getJobEndpoint_def listJobsEndpoint_def startJobEndpoint_def stopJobEndpoint_def
  listTasksEndpoint_def getTaskEndpoint_def updateTaskEndpoint_def deleteTaskEndpoint_def
  startTaskEndpoint_def stopTaskEndpoint_def invokeTaskEndpoint_def getTaskMetricsEndpoint_def
  getPropletMetricsEndpoint_def getTaskResultsEndpoint_def

lemma reach_request:
  assumes "\<And>t. reach e C w0 (snd (f1 t))" "\<And>ts. reach e C w0 (snd (f2 ts))" "\<And>j. reach e C w0 (snd (f3 j))"
    "\<And>i. reach e C w0 (snd (f4 i))" "\<And>r. reach e C w0 (snd (f5 r))" "\<And>r. reach e C w0 (snd (f6 r))"
    "\<And>r. reach e C w0 (snd (f7 r))" "\<And>r. reach e C w0 (snd (f8 r))"
  shows "reach e C w0 (snd (case req of TaskReq t \<Rightarrow> f1 t | WorkflowReq ts \<Rightarrow> f2 ts | JobReq j \<Rightarrow> f3 j
    | EntityReq i \<Rightarrow> f4 i | InvokeReq r \<Rightarrow> f5 r | ListEntityReq r \<Rightarrow> f6 r | ListTasksReq r \<Rightarrow> f7 r
    | MetricsReq r \<Rightarrow> f8 r))"
  using assms by (cases req) simp_all

lemma manager_step_reach: "manager_step e w w' \<Longrightarrow> reach e UNIV w w'"
proof (induction rule: manager_step.induct)
  case (shutdown others ticks err w)
  thus ?case unfolding pm_Shutdown_def by (auto intro: reach_Shutdown cooperative_reach)
qed (unfold endpoint_defs,
  (assumption | rule reach_refl UNIV_I subset_UNIV reach_request reach_checked reach_respond reach_wrong_type
    reach_intros)+)

lemma manager_reach_inv: "manager_reach e w \<Longrightarrow> world_inv e w"
  by (induction rule: manager_reach.induct) (auto dest: manager_step_reach intro: reach_invU)

text \<open>
  C11. The types of the state hold in every state that the manager reaches: every entry of a
  repository has the type of the repository and is stored under its own, nonempty identifier, no
  key occurs twice, and the metadata index of the tasks agrees with the tasks. So no type
  assertion of a repository fails.
\<close>

theorem manager_state_well_typed:
  assumes "manager_reach e w"
  shows "tasks_inv (e_fmtFloat e) (w_tasks w) \<and> proplets_inv (w_proplets w) \<and>
    pins_inv (w_taskProplets w) \<and> jobs_inv (w_jobs w) \<and> storage_inv (w_metrics w) \<and>
    (\<forall>i t. task w i = Some t \<longrightarrow> t_ID t = i \<and> i \<noteq> []) \<and>
    (\<forall>i p. proplet w i = Some p \<longrightarrow> p_ID p = i \<and> i \<noteq> []) \<and>
    (\<forall>i j. job w i = Some j \<longrightarrow> j_ID j = i \<and> i \<noteq> [])"
proof -
  have inv: "world_inv e w" using assms by (rule manager_reach_inv)
  note D = world_invD [OF inv]
  have "\<forall>i t. task w i = Some t \<longrightarrow> t_ID t = i \<and> i \<noteq> []"
    using task_view_key [OF D(1)] by (simp add: task_def)
  moreover have "\<forall>i p. proplet w i = Some p \<longrightarrow> p_ID p = i \<and> i \<noteq> []"
    using typed_view_key [OF D(2)] by (simp add: proplet_def)
  moreover have "\<forall>i j. job w i = Some j \<longrightarrow> j_ID j = i \<and> i \<noteq> []"
    using typed_view_key [OF D(4)] by (simp add: job_def)
  ultimately show ?thesis using inv by (simp add: world_inv_def)
qed

definition created_world :: world where
  "created_world = snd (createTaskEndpoint env0 ctx0 (TaskReq (Task_zero\<lparr>t_Name := ''a''\<rparr>)) NewService)"

theorem manager_state_well_typed_witness:
  "manager_reach env0 created_world \<and> length (r_storage (w_tasks created_world)) = 1 \<and>
   tasks_inv (e_fmtFloat env0) (w_tasks created_world)"
proof -
  have r: "manager_reach env0 created_world"
    unfolding created_world_def by (rule manager_reach.step [OF manager_reach.start manager_step.create_task])
  have "length (r_storage (w_tasks created_world)) = 1" by code_simp
  thus ?thesis using r manager_state_well_typed [OF r] by blast
qed

end
