(* ===== verification/Proxy.thy ===== *)
theory Proxy
  imports Proplet "HOL-Library.Sublist" "HOL-Library.Signed_Division"
begin

text \<open>
  The registry proxy (\<open>proxy/http.go\<close>, \<open>proxy/service.go\<close> and the request handler of
  \<open>cmd/proxy/main.go\<close>): it fetches the largest layer of a container image, cuts it into chunks
  and publishes them. The container registry is reached through a third-party client, which is
  the parameter \<open>registry\<close>; the two loops \<open>StreamHTTP\<close> and \<open>StreamMQTT\<close> and the goroutine of
  each fetch are the steps of an inductive relation on the state of the service.
\<close>

section \<open>Fetching and chunking\<close>

text \<open>Go's \<open>int\<close> has 64 bits: the value an arithmetic result wraps around to.\<close>

definition int64 :: "int \<Rightarrow> int" where
  "int64 = signed_take_bit 63"

text \<open>The slice expression \<open>xs[a:b]\<close> with \<open>int\<close> bounds.\<close>

definition slice_int :: "'a list \<Rightarrow> int \<Rightarrow> int \<Rightarrow> 'a list result" where
  "slice_int xs a b = (if 0 \<le> a \<and> a \<le> b \<and> b \<le> int (length xs)
    then Ok (take (nat (b - a)) (drop (nat a) xs)) else Err GoPanic)"

text \<open>The body of the loop of \<open>createChunks\<close> over the chunk indices.\<close>

fun chunk_loop :: "8 word list \<Rightarrow> string \<Rightarrow> int \<Rightarrow> int \<Rightarrow> int list \<Rightarrow> ChunkPayload list result" where
  "chunk_loop data containerPath chunkSize totalChunks [] = Ok []"
| "chunk_loop data containerPath chunkSize totalChunks (i # is) =
    (let start = int64 (i * chunkSize);
         stop = min (int64 (start + chunkSize)) (int (length data)) in
     case slice_int data start stop of
       Inl err \<Rightarrow> Err err
     | Inr chunkData \<Rightarrow>
         (case chunk_loop data containerPath chunkSize totalChunks is of
            Inl err \<Rightarrow> Err err
          | Inr chunks \<Rightarrow> Ok (\<lparr>c_AppName = containerPath, c_ChunkIdx = i,
              c_TotalChunks = totalChunks, c_Data = chunkData\<rparr> # chunks)))"

text \<open>Division by zero and a negative length of \<open>make\<close> panic.\<close>

definition createChunks :: "8 word list \<Rightarrow> string \<Rightarrow> int \<Rightarrow> ChunkPayload list result" where
  "createChunks data containerPath chunkSize =
    (if chunkSize = 0 then Err GoPanic else
     let totalChunks = int64 (int64 (int (length data) + chunkSize) - 1) sdiv chunkSize in
     if totalChunks < 0 then Err GoPanic
     else chunk_loop data containerPath chunkSize totalChunks
       (map int [0..<nat totalChunks]))"

text \<open>
  The registry client: whether a repository can be opened, the descriptor of a tag, the content
  of a descriptor, the layers of a manifest, and the size of a descriptor.
\<close>

record 'd registry =
  r_NewRepository :: "string \<Rightarrow> error option"
  r_Resolve :: "string \<Rightarrow> string \<Rightarrow> 'd result"
  r_Fetch :: "string \<Rightarrow> 'd \<Rightarrow> 8 word list result result"
  r_Layers :: "8 word list \<Rightarrow> 'd list result"
  r_Size :: "'d \<Rightarrow> int"

definition tag :: string where
  "tag = ''latest''"

definition fetchManifest :: "'d registry \<Rightarrow> string \<Rightarrow> 'd list result" where
  "fetchManifest reg containerName =
    (case r_Resolve reg containerName tag of
       Inl err \<Rightarrow> Err (Wrap (''failed to resolve manifest for '' @ containerName @ '': '') err [])
     | Inr descriptor \<Rightarrow>
    (case r_Fetch reg containerName descriptor of
       Inl err \<Rightarrow> Err (Wrap (''failed to fetch manifest for '' @ containerName @ '': '') err [])
     | Inr (Inl err) \<Rightarrow> Err (Wrap (''failed to read manifest for '' @ containerName @ '': '') err [])
     | Inr (Inr manifestData) \<Rightarrow>
    (case r_Layers reg manifestData of
       Inl err \<Rightarrow> Err (Wrap (''failed to parse manifest for '' @ containerName @ '': '') err [])
     | Inr layers \<Rightarrow> Ok layers)))"

text \<open>
  The loop keeps the layer of the largest size so far; \<open>None\<close> is the zero descriptor, whose
  size is 0.
\<close>

fun largest_loop :: "('d \<Rightarrow> int) \<Rightarrow> 'd option \<Rightarrow> int \<Rightarrow> 'd list \<Rightarrow> 'd option" where
  "largest_loop sz best maxSize [] = best"
| "largest_loop sz best maxSize (layer # layers) =
    (if sz layer > maxSize then largest_loop sz (Some layer) (sz layer) layers
     else largest_loop sz best maxSize layers)"

definition findLargestLayer :: "('d \<Rightarrow> int) \<Rightarrow> 'd list \<Rightarrow> 'd result" where
  "findLargestLayer sz layers =
    (case largest_loop sz None 0 layers of
       None \<Rightarrow> Err (NewError ''no valid layers found in manifest'')
     | Some layer \<Rightarrow> Ok layer)"

definition FetchFromReg :: "'d registry \<Rightarrow> string \<Rightarrow> int \<Rightarrow> ChunkPayload list result" where
  "FetchFromReg reg containerPath chunkSize =
    (case r_NewRepository reg containerPath of
       Some err \<Rightarrow> Err (Wrap (''failed to create repository for '' @ containerPath @ '': '') err [])
     | None \<Rightarrow>
    (case fetchManifest reg containerPath of Inl err \<Rightarrow> Err err | Inr layers \<Rightarrow>
    (case findLargestLayer (r_Size reg) layers of
       Inl err \<Rightarrow> Err (Wrap (''failed to find layer for '' @ containerPath @ '': '') err [])
     | Inr largestLayer \<Rightarrow>
    (case r_Fetch reg containerPath largestLayer of
       Inl err \<Rightarrow> Err (Wrap (''failed to fetch layer for '' @ containerPath @ '': '') err [])
     | Inr (Inl err) \<Rightarrow> Err (Wrap (''failed to read layer for '' @ containerPath @ '': '') err [])
     | Inr (Inr data) \<Rightarrow> createChunks data containerPath chunkSize))))"

section \<open>The service\<close>

definition chunkBuffer :: nat where "chunkBuffer = 10"
definition containerChanSize :: nat where "containerChanSize = 100"
definition maxConcurrentFetches :: int where "maxConcurrentFetches = 50"

text \<open>
  A fetch goroutine is between its start and the return of \<open>FetchFromReg\<close>, or it holds the
  chunks it has still to send.
\<close>

datatype fetch = Fetching | Sending "ChunkPayload list"

text \<open>
  The state: the two buffered channels, the map \<open>fetching\<close> (the names it has), the counter, the
  goroutines by the container they fetch, and the counters of \<open>StreamMQTT\<close>. \<open>p_fetched\<close> and
  \<open>p_taken\<close> record the chunks that fetches have returned and those taken from \<open>dataChan\<close>, in
  order; \<open>p_published\<close> those that the broker has accepted; \<open>p_cancelled\<close> whether the context has
  been cancelled.
\<close>

record proxy =
  p_containerChan :: "string list"
  p_dataChan :: "ChunkPayload list"
  p_fetching :: "string list"
  p_activeFetches :: int
  p_fetches :: "(string \<times> fetch) list"
  p_containerChunks :: "(string \<times> int) list"
  p_fetched :: "ChunkPayload list"
  p_taken :: "ChunkPayload list"
  p_published :: "ChunkPayload list"
  p_cancelled :: bool

definition proxy_NewService :: proxy where
  "proxy_NewService = \<lparr>p_containerChan = [], p_dataChan = [], p_fetching = [],
    p_activeFetches = 0, p_fetches = [], p_containerChunks = [], p_fetched = [], p_taken = [],
    p_published = [], p_cancelled = False\<rparr>"

text \<open>
  The handler of a request: it waits up to thirty seconds for a place in the channel. A state in
  which there is none when the wait is over is left as it is.
\<close>

definition proxy_handle :: "anymap \<Rightarrow> proxy \<Rightarrow> unit result \<times> proxy" where
  "proxy_handle msg s =
    (case as_string (map_of msg ''app_name'') of
       None \<Rightarrow> (Err (NewError ''failed to unmarshal app_name''), s)
     | Some appName \<Rightarrow>
         if length (p_containerChan s) < containerChanSize
         then (Ok (), s\<lparr>p_containerChan := p_containerChan s @ [appName]\<rparr>)
         else (Err (NewError ''timeout waiting for container channel slot''), s))"

text \<open>\<open>StreamHTTP\<close> receives a name: the request is dropped, skipped, or a goroutine starts.\<close>

definition StreamHTTP_receive :: "string \<Rightarrow> proxy \<Rightarrow> proxy" where
  "StreamHTTP_receive containerName s =
    (if p_activeFetches s \<ge> maxConcurrentFetches then s
     else if containerName \<in> set (p_fetching s) then s
     else s\<lparr>p_activeFetches := p_activeFetches s + 1,
            p_fetching := containerName # p_fetching s,
            p_fetches := (containerName, Fetching) # p_fetches s\<rparr>)"

text \<open>The deferred function of a fetch goroutine.\<close>

definition end_fetch :: "string \<Rightarrow> proxy \<Rightarrow> proxy" where
  "end_fetch name s = s\<lparr>p_fetching := removeAll name (p_fetching s),
    p_activeFetches := p_activeFetches s - 1,
    p_fetches := AList.delete name (p_fetches s)\<rparr>"

text \<open>\<open>FetchFromReg\<close> returns.\<close>

definition fetch_returns :: "string \<Rightarrow> ChunkPayload list result \<Rightarrow> proxy \<Rightarrow> proxy" where
  "fetch_returns name res s =
    (case res of
       Inl err \<Rightarrow> end_fetch name s
     | Inr chunks \<Rightarrow> s\<lparr>p_fetches := AList.update name (Sending chunks) (p_fetches s),
         p_fetched := p_fetched s @ chunks\<rparr>)"

text \<open>\<open>StreamMQTT\<close> receives a chunk; \<open>err\<close> is the outcome of \<open>Publish\<close>.\<close>

definition StreamMQTT_receive :: "error option \<Rightarrow> ChunkPayload \<Rightarrow> proxy \<Rightarrow> proxy" where
  "StreamMQTT_receive err chunk s =
    (case err of
       Some _ \<Rightarrow> s
     | None \<Rightarrow>
         (let app = c_AppName chunk;
              n = (case map_of (p_containerChunks s) app of None \<Rightarrow> 0 | Some k \<Rightarrow> k) + 1 in
          s\<lparr>p_published := p_published s @ [chunk],
            p_containerChunks := (if n = c_TotalChunks chunk
              then AList.delete app (p_containerChunks s)
              else AList.update app n (p_containerChunks s))\<rparr>))"

text \<open>
  The steps. \<open>regs k\<close> is the registry as the \<open>k\<close>-th access finds it, so its content may change
  between fetches. A fetch that panics ends the process, so there is no step for it.
\<close>

inductive proxy_step :: "(nat \<Rightarrow> 'd registry) \<Rightarrow> int \<Rightarrow> proxy \<Rightarrow> proxy \<Rightarrow> bool"
  for regs :: "nat \<Rightarrow> 'd registry" and chunkSize :: int where
  request: "proxy_step regs chunkSize s (snd (proxy_handle msg s))"
| http: "p_containerChan s = name # names \<Longrightarrow>
    proxy_step regs chunkSize s (StreamHTTP_receive name (s\<lparr>p_containerChan := names\<rparr>))"
| fetched: "map_of (p_fetches s) name = Some Fetching \<Longrightarrow>
    FetchFromReg (regs k) name chunkSize \<noteq> Err GoPanic \<Longrightarrow>
    proxy_step regs chunkSize s (fetch_returns name (FetchFromReg (regs k) name chunkSize) s)"
| send: "map_of (p_fetches s) name = Some (Sending (chunk # chunks)) \<Longrightarrow>
    length (p_dataChan s) < chunkBuffer \<Longrightarrow>
    proxy_step regs chunkSize s (s\<lparr>p_dataChan := p_dataChan s @ [chunk],
      p_fetches := AList.update name (Sending chunks) (p_fetches s)\<rparr>)"
| sent: "map_of (p_fetches s) name = Some (Sending []) \<Longrightarrow>
    proxy_step regs chunkSize s (end_fetch name s)"
| mqtt: "p_dataChan s = chunk # chunks \<Longrightarrow>
    proxy_step regs chunkSize s (StreamMQTT_receive err chunk
      (s\<lparr>p_dataChan := chunks, p_taken := p_taken s @ [chunk]\<rparr>))"
| cancel: "proxy_step regs chunkSize s (s\<lparr>p_cancelled := True\<rparr>)"
| abandon: "map_of (p_fetches s) name = Some (Sending chunks) \<Longrightarrow> p_cancelled s \<Longrightarrow>
    proxy_step regs chunkSize s (end_fetch name s)"

inductive proxy_reach :: "(nat \<Rightarrow> 'd registry) \<Rightarrow> int \<Rightarrow> proxy \<Rightarrow> bool"
  for regs :: "nat \<Rightarrow> 'd registry" and chunkSize :: int where
  start: "proxy_reach regs chunkSize proxy_NewService"
| step: "proxy_reach regs chunkSize s \<Longrightarrow> proxy_step regs chunkSize s s' \<Longrightarrow>
    proxy_reach regs chunkSize s'"

section \<open>Lemmas on chunks\<close>

lemma int64_id [simp]: "- (2 ^ 63) \<le> x \<Longrightarrow> x < 2 ^ 63 \<Longrightarrow> int64 x = x"
  unfolding int64_def by (rule signed_take_bit_int_eq_self)

lemma int64_pred: "int64 (int64 x - 1) = int64 (x - 1)"
  unfolding int64_def by (rule signed_take_bit_diff [of 63 x 1, simplified, symmetric, THEN sym])

text \<open>The number of chunks, and the chunk with a given index.\<close>

definition chunk_count :: "'a list \<Rightarrow> nat \<Rightarrow> nat" where
  "chunk_count xs k = (length xs + k - 1) div k"

definition chunk_at :: "8 word list \<Rightarrow> string \<Rightarrow> nat \<Rightarrow> nat \<Rightarrow> ChunkPayload" where
  "chunk_at data app k i = \<lparr>c_AppName = app, c_ChunkIdx = int i,
    c_TotalChunks = int (chunk_count data k), c_Data = take k (drop (i * k) data)\<rparr>"

lemma chunk_start: "0 < k \<Longrightarrow> i < chunk_count xs k \<Longrightarrow> i * k < length xs"
proof -
  assume k: "0 < k" and "i < chunk_count xs k"
  hence "Suc i \<le> (length xs + k - 1) div k" by (simp add: chunk_count_def)
  hence "Suc i * k \<le> length xs + k - 1" using k by (simp add: less_eq_div_iff_mult_less_eq)
  thus ?thesis using k by simp
qed

lemma chunk_count_covers: "0 < k \<Longrightarrow> length xs \<le> chunk_count xs k * k"
  using div_mult_mod_eq [of "length xs + k - 1" k] mod_less_divisor [of k "length xs + k - 1"]
  unfolding chunk_count_def by linarith

lemma chunk_slice:
  assumes "0 < k" "i < chunk_count data k" "int (length data) + int k \<le> 2 ^ 63"
  shows "slice_int data (int64 (int i * int k)) (min (int64 (int64 (int i * int k) + int k)) (int (length data)))
    = Ok (take k (drop (i * k) data))"
proof -
  have lt: "i * k < length data" using assms(1,2) by (rule chunk_start)
  have s: "int64 (int i * int k) = int (i * k)"
    using lt assms(3) by (simp flip: of_nat_mult)
  have e: "int64 (int (i * k) + int k) = int (i * k + k)"
    using lt assms(3) by (subst int64_id) linarith+
  have m: "min (int (i * k + k)) (int (length data)) - int (i * k) = int (min k (length data - i * k))"
    using lt by (cases "i * k + k \<le> length data") (simp_all add: min_absorb1 min_absorb2 del: of_nat_mult of_nat_add)
  have t: "take (min k (length data - i * k)) (drop (i * k) data) = take k (drop (i * k) data)"
    by (simp add: min_def)
  show ?thesis unfolding s e slice_int_def m nat_int t using lt by (simp del: of_nat_mult)
qed

lemma chunk_loop_eq:
  assumes "0 < k" "int (length data) + int k \<le> 2 ^ 63" "set is \<subseteq> {..<chunk_count data k}"
  shows "chunk_loop data app (int k) (int (chunk_count data k)) (map int is)
    = Ok (map (chunk_at data app k) is)"
  using assms(3) by (induction "is") (simp_all add: Let_def chunk_slice [OF assms(1) _ assms(2)] chunk_at_def)

lemma sdiv_nonneg: "0 \<le> a \<Longrightarrow> 0 < b \<Longrightarrow> a sdiv b = (a :: int) div b"
  by (cases "a = 0") (simp_all add: signed_divide_int_def sgn_mult)

lemma createChunks_eq:
  assumes "0 < k" "int (length data) + int k \<le> 2 ^ 63"
  shows "createChunks data app (int k) = Ok (map (chunk_at data app k) [0..<chunk_count data k])"
proof -
  have n: "int64 (int64 (int (length data) + int k) - 1) sdiv int k = int (chunk_count data k)"
    using assms by (simp add: int64_pred sdiv_nonneg chunk_count_def zdiv_int of_nat_diff)
  show ?thesis
    unfolding createChunks_def Let_def n using assms chunk_loop_eq [of k data "[0..<chunk_count data k]" app]
    by (simp add: lessThan_atLeast0)
qed

lemma take_concat_chunks:
  "concat (map (\<lambda>i. take k (drop (i * k) xs)) [0..<n]) = take (n * k) xs"
  by (induction n) (simp_all add: take_add add.commute [of k])

lemma concat_chunks: "0 < k \<Longrightarrow> concat (map (\<lambda>i. take k (drop (i * k) xs)) [0..<chunk_count xs k]) = xs"
  by (simp add: take_concat_chunks chunk_count_covers)

section \<open>The invariant of the service\<close>

lemma chunk_loop_app: "chunk_loop data app k n is = Ok cs \<Longrightarrow> c \<in> set cs \<Longrightarrow> c_AppName c = app"
  by (induction "is" arbitrary: cs) (auto simp: Let_def split: sum.splits)

lemma createChunks_app: "createChunks data app k = Ok cs \<Longrightarrow> c \<in> set cs \<Longrightarrow> c_AppName c = app"
  by (auto simp: createChunks_def Let_def split: if_splits dest: chunk_loop_app)

lemma FetchFromReg_app: "FetchFromReg reg app k = Ok cs \<Longrightarrow> c \<in> set cs \<Longrightarrow> c_AppName c = app"
  by (auto simp: FetchFromReg_def split: option.splits sum.splits dest: createChunks_app)

text \<open>The chunks of a container in a list, and those its goroutine has still to send.\<close>

definition of_app :: "string \<Rightarrow> ChunkPayload list \<Rightarrow> ChunkPayload list" where
  "of_app app cs = filter (\<lambda>c. c_AppName c = app) cs"

fun held :: "fetch option \<Rightarrow> ChunkPayload list" where
  "held (Some (Sending cs)) = cs"
| "held _ = []"

lemma of_app_simps [simp]:
  "of_app app [] = []" "of_app app (xs @ ys) = of_app app xs @ of_app app ys"
  "of_app app [c] = (if c_AppName c = app then [c] else [])"
  by (simp_all add: of_app_def)

lemma of_app_all: "(\<And>c. c \<in> set cs \<Longrightarrow> c_AppName c = app) \<Longrightarrow> of_app app' cs = (if app' = app then cs else [])"
  by (auto simp: of_app_def filter_id_conv filter_empty_conv)

definition in_flight :: "proxy \<Rightarrow> string \<Rightarrow> ChunkPayload list" where
  "in_flight s app = of_app app (p_taken s) @ of_app app (p_dataChan s) @ held (map_of (p_fetches s) app)"

definition proxy_inv :: "proxy \<Rightarrow> bool" where
  "proxy_inv s \<longleftrightarrow>
    distinct (map fst (p_fetches s)) \<and> set (p_fetching s) = fst ` set (p_fetches s) \<and>
    p_activeFetches s = int (length (p_fetches s)) \<and> p_activeFetches s \<le> maxConcurrentFetches \<and>
    length (p_containerChan s) \<le> containerChanSize \<and> length (p_dataChan s) \<le> chunkBuffer \<and>
    subseq (p_published s) (p_taken s) \<and>
    (\<forall>app. \<forall>c \<in> set (held (map_of (p_fetches s) app)). c_AppName c = app) \<and>
    (\<forall>app. subseq (in_flight s app) (of_app app (p_fetched s))) \<and>
    (\<not> p_cancelled s \<longrightarrow> (\<forall>app. in_flight s app = of_app app (p_fetched s)))"

lemma proxy_invD:
  assumes "proxy_inv s"
  shows "distinct (map fst (p_fetches s))" "set (p_fetching s) = fst ` set (p_fetches s)"
    "p_activeFetches s = int (length (p_fetches s))" "p_activeFetches s \<le> maxConcurrentFetches"
    "length (p_containerChan s) \<le> containerChanSize" "length (p_dataChan s) \<le> chunkBuffer"
    "subseq (p_published s) (p_taken s)"
    "c \<in> set (held (map_of (p_fetches s) app)) \<Longrightarrow> c_AppName c = app"
    "subseq (in_flight s app) (of_app app (p_fetched s))"
    "\<not> p_cancelled s \<Longrightarrow> in_flight s app = of_app app (p_fetched s)"
  using assms unfolding proxy_inv_def by blast+

lemma length_delete_map:
  "distinct (map fst xs) \<Longrightarrow> map_of xs k = Some v \<Longrightarrow> Suc (length (AList.delete k xs)) = length xs"
proof (induction xs)
  case (Cons p xs)
  show ?case
  proof (cases "fst p = k")
    case True
    hence "k \<notin> fst ` set xs" using Cons.prems(1) by auto
    thus ?thesis using True by (cases p) (simp add: delete_id)
  next
    case False
    thus ?thesis using Cons by (cases p) auto
  qed
qed simp

lemma length_update_map: "map_of xs k = Some v \<Longrightarrow> length (AList.update k w xs) = length xs"
  by (induction xs) auto

lemma proxy_inv_end:
  assumes inv: "proxy_inv s" and m: "map_of (p_fetches s) name = Some f"
    and f: "held (Some f) = [] \<or> p_cancelled s"
  shows "proxy_inv (end_fetch name s)"
proof -
  note D = proxy_invD [OF inv]
  have len: "Suc (length (AList.delete name (p_fetches s))) = length (p_fetches s)"
    using D(1) m by (rule length_delete_map)
  have fl: "in_flight (end_fetch name s) app =
      (if app = name then of_app app (p_taken s) @ of_app app (p_dataChan s) else in_flight s app)" for app
    by (simp add: in_flight_def end_fetch_def delete_conv')
  have pre: "in_flight s name = (of_app name (p_taken s) @ of_app name (p_dataChan s)) @ held (Some f)"
    by (simp add: in_flight_def m)
  have sub: "subseq (in_flight (end_fetch name s) app) (of_app app (p_fetched s))" for app
  proof (cases "app = name")
    case True
    have "subseq (in_flight (end_fetch name s) app) (in_flight s app)"
      unfolding True pre fl if_P [OF refl] by (rule subseq_rev_drop_many [OF subseq_order.order_refl])
    thus ?thesis using D(9) by (rule subseq_order.order_trans)
  qed (use D(9) fl in simp)
  have eq: "in_flight (end_fetch name s) app = of_app app (p_fetched s)" if "\<not> p_cancelled s" for app
    using D(10) [OF that, of app] f that pre by (cases "app = name") (simp_all add: fl)
  show ?thesis
    unfolding proxy_inv_def
  proof (intro conjI allI impI ballI)
    show "distinct (map fst (p_fetches (end_fetch name s)))"
      using D(1) by (simp add: end_fetch_def distinct_delete)
    show "set (p_fetching (end_fetch name s)) = fst ` set (p_fetches (end_fetch name s))"
      using D(2) by (simp add: end_fetch_def delete_keys flip: set_map)
    show "c_AppName c = app" if "c \<in> set (held (map_of (p_fetches (end_fetch name s)) app))" for c app
      using that D(8) by (simp add: end_fetch_def delete_conv' split: if_splits)
    show "subseq (in_flight (end_fetch name s) app) (of_app app (p_fetched (end_fetch name s)))" for app
      using sub by (simp add: end_fetch_def)
    show "in_flight (end_fetch name s) app = of_app app (p_fetched (end_fetch name s))"
      if "\<not> p_cancelled (end_fetch name s)" for app
      using eq that by (simp add: end_fetch_def)
  qed (use D(3-7) len in \<open>simp_all add: end_fetch_def\<close>)
qed

lemma proxy_inv_frame:
  assumes "proxy_inv s"
    "p_fetches s' = p_fetches s" "p_fetching s' = p_fetching s" "p_activeFetches s' = p_activeFetches s"
    "length (p_containerChan s') \<le> containerChanSize" "length (p_dataChan s') \<le> chunkBuffer"
    "subseq (p_published s') (p_taken s')" "p_taken s' @ p_dataChan s' = p_taken s @ p_dataChan s"
    "p_fetched s' = p_fetched s" "p_cancelled s \<Longrightarrow> p_cancelled s'"
  shows "proxy_inv s'"
proof -
  have fl: "in_flight s' app = in_flight s app" for app
    using arg_cong [OF assms(8), of "of_app app"] by (simp add: in_flight_def assms(2))
  show ?thesis using assms(1) assms(2-7,9,10) unfolding proxy_inv_def fl by auto
qed

lemma proxy_inv_http:
  assumes inv: "proxy_inv s"
  shows "proxy_inv (StreamHTTP_receive name s)"
proof -
  note D = proxy_invD [OF inv]
  show ?thesis
  proof (cases "p_activeFetches s \<ge> maxConcurrentFetches \<or> name \<in> set (p_fetching s)")
    case False
    let ?s = "StreamHTTP_receive name s"
    have n: "map_of (p_fetches s) name = None" using False D(2) by (simp add: map_of_eq_None_iff)
    have fl: "in_flight ?s app = in_flight s app" for app
      using False n by (auto simp: StreamHTTP_receive_def in_flight_def)
    show ?thesis unfolding proxy_inv_def fl
      using False D n by (auto simp: StreamHTTP_receive_def split: if_splits)
  qed (use inv in \<open>auto simp: StreamHTTP_receive_def\<close>)
qed

lemma proxy_inv_update:
  assumes inv: "proxy_inv s" and m: "map_of (p_fetches s) name = Some f"
    and fs: "p_fetches s' = AList.update name (Sending cs) (p_fetches s)"
    and same: "p_fetching s' = p_fetching s" "p_activeFetches s' = p_activeFetches s"
      "p_containerChan s' = p_containerChan s" "p_published s' = p_published s" "p_taken s' = p_taken s"
      "p_cancelled s' = p_cancelled s"
    and room: "length (p_dataChan s') \<le> chunkBuffer"
    and cs: "\<And>c. c \<in> set cs \<Longrightarrow> c_AppName c = name"
    and fl: "\<And>app. in_flight s' app = in_flight s app @ of_app app new"
    and new: "p_fetched s' = p_fetched s @ new"
  shows "proxy_inv s'"
proof -
  note D = proxy_invD [OF inv]
  show ?thesis unfolding proxy_inv_def
  proof (intro conjI allI impI ballI)
    show "set (p_fetching s') = fst ` set (p_fetches s')"
      using D(2) m by (auto simp: same fs dom_update [symmetric] image_iff
        dest: map_of_SomeD simp flip: dom_map_of_conv_image_fst simp: update_conv')
    show "c_AppName c = app" if "c \<in> set (held (map_of (p_fetches s') app))" for c app
      using that D(8) cs by (simp add: fs update_conv' split: if_splits)
    show "subseq (in_flight s' app) (of_app app (p_fetched s'))" for app
      using D(9) by (simp add: fl new)
    show "in_flight s' app = of_app app (p_fetched s')" if "\<not> p_cancelled s'" for app
      using D(10) that by (simp add: fl new same)
  qed (use D(1,3-7) room m in \<open>simp_all add: fs same distinct_update length_update_map\<close>)
qed

lemma proxy_step_inv: "proxy_step regs chunkSize s s' \<Longrightarrow> proxy_inv s \<Longrightarrow> proxy_inv s'"
proof (induction rule: proxy_step.induct)
  case (request s msg)
  show ?case
    by (rule proxy_inv_frame [OF request])
      (use proxy_invD [OF request] in \<open>auto simp: proxy_handle_def split: option.splits\<close>)
next
  case (http s name names)
  have "proxy_inv (s\<lparr>p_containerChan := names\<rparr>)"
    by (rule proxy_inv_frame [OF http.prems]) (use proxy_invD [OF http.prems] http.hyps in auto)
  thus ?case by (rule proxy_inv_http)
next
  case (fetched s name j)
  show ?case
  proof (cases "FetchFromReg (regs j) name chunkSize")
    case (Inl err)
    thus ?thesis using proxy_inv_end [OF fetched.prems fetched.hyps(1)] by (simp add: fetch_returns_def)
  next
    case (Inr cs)
    show ?thesis
      by (rule proxy_inv_update [OF fetched.prems fetched.hyps(1), where cs = cs and new = cs])
        (use proxy_invD [OF fetched.prems] FetchFromReg_app [OF Inr] fetched.hyps(1) Inr in
          \<open>auto simp: fetch_returns_def in_flight_def update_conv' of_app_all [where app = name]\<close>)
  qed
next
  case (send s name chunk chunks)
  have app: "c_AppName c = name" if "c \<in> set (chunk # chunks)" for c
    using proxy_invD(8) [OF send.prems, of c name] that send.hyps(1) by simp
  show ?case
    by (rule proxy_inv_update [OF send.prems send.hyps(1), where cs = chunks and new = "[]"])
      (use app send.hyps in \<open>auto simp: in_flight_def update_conv'\<close>)
next
  case (sent s name)
  thus ?case by (auto intro: proxy_inv_end)
next
  case (mqtt s chunk chunks err)
  show ?case
    by (rule proxy_inv_frame [OF mqtt.prems])
      (use proxy_invD [OF mqtt.prems] mqtt.hyps in
        \<open>auto simp: StreamMQTT_receive_def Let_def subseq_rev_drop_many split: option.splits\<close>)
next
  case (cancel s)
  show ?case by (rule proxy_inv_frame [OF cancel]) (use proxy_invD [OF cancel] in auto)
next
  case (abandon s name chunks)
  thus ?case by (auto intro: proxy_inv_end)
qed

lemma proxy_reach_inv: "proxy_reach regs k s \<Longrightarrow> proxy_inv s"
proof (induction rule: proxy_reach.induct)
  case start
  show ?case by (simp add: proxy_inv_def proxy_NewService_def in_flight_def maxConcurrentFetches_def)
qed (rule proxy_step_inv)

section \<open>The correctness of the service\<close>

text \<open>
  C17. In every state the proxy reaches, the counter of active fetches is the number of fetch
  goroutines, which is at most the maximum; no container is fetched twice at the same time; the
  channels stay within their capacities; only chunks taken from the data channel are published.
  Unless the service is cancelled, for every container the chunks taken from the channel, those
  in it and those its goroutine still holds are, in this order, all the chunks that fetches of
  it have returned: none is lost, repeated or overtaken.
\<close>

theorem proxy_streams_in_order:
  assumes "proxy_reach regs chunkSize s"
  shows "p_activeFetches s = int (length (p_fetches s)) \<and> length (p_fetches s) \<le> 50 \<and>
    distinct (map fst (p_fetches s)) \<and>
    length (p_containerChan s) \<le> 100 \<and> length (p_dataChan s) \<le> 10 \<and>
    subseq (p_published s) (p_taken s) \<and>
    (\<not> p_cancelled s \<longrightarrow> (\<forall>app. of_app app (p_taken s) @ of_app app (p_dataChan s) @
      held (map_of (p_fetches s) app) = of_app app (p_fetched s)))"
  using proxy_reach_inv [OF assms]
  by (simp add: proxy_inv_def in_flight_def maxConcurrentFetches_def containerChanSize_def chunkBuffer_def)

text \<open>A registry whose only layer has three bytes, and a run of the proxy that fetches it.\<close>

definition demo_registry :: "nat registry" where
  "demo_registry = \<lparr>r_NewRepository = (\<lambda>_. None), r_Resolve = (\<lambda>_ _. Ok 0),
    r_Fetch = (\<lambda>_ _. Ok (Ok [1, 2, 3])), r_Layers = (\<lambda>_. Ok [3]), r_Size = int\<rparr>"

definition demo_request :: proxy where
  "demo_request = snd (proxy_handle [(''app_name'', AString ''img'')] proxy_NewService)"

definition demo_proxy :: proxy where
  "demo_proxy = fetch_returns ''img'' (FetchFromReg demo_registry ''img'' 2)
    (StreamHTTP_receive ''img'' (demo_request\<lparr>p_containerChan := []\<rparr>))"

lemma demo_fetch: "FetchFromReg demo_registry ''img'' 2 = Ok (map (chunk_at [1, 2, 3] ''img'' 2) [0, 1])"
  using createChunks_eq [of 2 "[1, 2, 3]" "''img''"]
  by (simp add: FetchFromReg_def fetchManifest_def findLargestLayer_def demo_registry_def
    chunk_count_def upt_rec)

lemma demo_started: "StreamHTTP_receive ''img'' (demo_request\<lparr>p_containerChan := []\<rparr>) =
  proxy_NewService\<lparr>p_fetching := [''img''], p_activeFetches := 1, p_fetches := [(''img'', Fetching)]\<rparr>"
  by (simp add: demo_request_def proxy_handle_def as_string_def proxy_NewService_def
    containerChanSize_def StreamHTTP_receive_def maxConcurrentFetches_def)

lemma demo_proxy_eq: "demo_proxy = proxy_NewService\<lparr>p_fetching := [''img''], p_activeFetches := 1,
    p_fetches := [(''img'', Sending (map (chunk_at [1, 2, 3] ''img'' 2) [0, 1]))],
    p_fetched := map (chunk_at [1, 2, 3] ''img'' 2) [0, 1]\<rparr>"
  unfolding demo_proxy_def demo_started demo_fetch by (simp add: fetch_returns_def proxy_NewService_def)

lemma demo_reach: "proxy_reach (\<lambda>_. demo_registry) 2 demo_proxy"
proof -
  let ?P = "proxy_reach (\<lambda>_. demo_registry) 2"
  have 1: "?P demo_request" unfolding demo_request_def by (rule proxy_reach.step [OF proxy_reach.start proxy_step.request])
  have 2: "?P (StreamHTTP_receive ''img'' (demo_request\<lparr>p_containerChan := []\<rparr>))"
    by (rule proxy_reach.step [OF 1], rule proxy_step.http)
      (simp add: demo_request_def proxy_handle_def as_string_def proxy_NewService_def containerChanSize_def)
  show ?thesis unfolding demo_proxy_def
  proof (rule proxy_reach.step [OF 2], rule proxy_step.fetched [where k = 0])
    show "map_of (p_fetches (StreamHTTP_receive ''img'' (demo_request\<lparr>p_containerChan := []\<rparr>))) ''img''
      = Some Fetching" unfolding demo_started by simp
    show "FetchFromReg demo_registry ''img'' 2 \<noteq> Err GoPanic" unfolding demo_fetch by simp
  qed
qed

theorem proxy_streams_in_order_witness:
  "proxy_reach (\<lambda>_. demo_registry) 2 demo_proxy \<and> p_activeFetches demo_proxy = 1 \<and>
    length (p_fetched demo_proxy) = 2 \<and>
    of_app ''img'' (p_taken demo_proxy) @ of_app ''img'' (p_dataChan demo_proxy) @
      held (map_of (p_fetches demo_proxy) ''img'') = of_app ''img'' (p_fetched demo_proxy)"
proof -
  have "\<not> p_cancelled demo_proxy" "length (p_fetches demo_proxy) = 1" "length (p_fetched demo_proxy) = 2"
    unfolding demo_proxy_eq by (simp_all add: proxy_NewService_def)
  thus ?thesis using demo_reach proxy_streams_in_order [OF demo_reach] by simp
qed

end
