(* ===== verification/Assembly.thy ===== *)
theory Assembly
  imports Proxy
begin

text \<open>
  How a proplet receives a binary in chunks (\<open>proplet/src/service.rs\<close>, \<open>proplet/src/types.rs\<close>):
  the chunks of each container are collected under its name, in any order and with repetitions;
  a task that waits for a binary polls until all chunks are there. The last section joins the
  proplet to the proxy of \<open>Proxy\<close>: what the proxy fetches is what the proplet runs.

  The wire format is third-party code (the JSON encoder and decoder with base64 of both
  languages); it appears as the functions \<open>marshal\<close> and \<open>decode\<close>. A Rust \<open>usize\<close> is a natural
  number here, since the code only compares it.
\<close>

section \<open>Model\<close>

record Chunk =
  k_app_name :: string
  k_chunk_idx :: nat
  k_total_chunks :: nat
  k_data :: "8 word list"

text \<open>The \<open>BTreeMap\<close> is the list of its entries in the order of the keys.\<close>

record ChunkAssemblyState =
  s_chunks :: "(nat \<times> 8 word list) list"
  s_total_chunks :: nat
  s_created_at :: gotime

definition ChunkAssemblyState_new :: "nat \<Rightarrow> gotime \<Rightarrow> ChunkAssemblyState" where
  "ChunkAssemblyState_new total_chunks now =
    \<lparr>s_chunks = [], s_total_chunks = total_chunks, s_created_at = now\<rparr>"

definition is_complete :: "ChunkAssemblyState \<Rightarrow> bool" where
  "is_complete s \<longleftrightarrow> length (s_chunks s) = s_total_chunks s"

definition is_expired :: "gotime \<Rightarrow> duration \<Rightarrow> ChunkAssemblyState \<Rightarrow> bool" where
  "is_expired now ttl s \<longleftrightarrow> now - s_created_at s > ttl"

definition assemble :: "ChunkAssemblyState \<Rightarrow> 8 word list" where
  "assemble s = concat (map snd (s_chunks s))"

text \<open>\<open>if let Entry::Vacant(e) = chunks.entry(k) { e.insert(v) }\<close>\<close>

fun vacant_insert :: "nat \<Rightarrow> 'v \<Rightarrow> (nat \<times> 'v) list \<Rightarrow> (nat \<times> 'v) list" where
  "vacant_insert k v [] = [(k, v)]"
| "vacant_insert k v ((k', v') # xs) =
    (if k < k' then (k, v) # (k', v') # xs
     else if k = k' then (k', v') # xs
     else (k', v') # vacant_insert k v xs)"

text \<open>The map \<open>chunk_assembly\<close> of the service.\<close>

type_synonym assembly = "string \<Rightarrow> ChunkAssemblyState option"

definition handle_chunk :: "('m \<Rightarrow> Chunk result) \<Rightarrow> gotime \<Rightarrow> 'm \<Rightarrow> assembly \<Rightarrow> unit result \<times> assembly" where
  "handle_chunk decode now msg assembly =
    (case decode msg of
       Inl err \<Rightarrow> (Err err, assembly)
     | Inr chunk \<Rightarrow>
         (let app = k_app_name chunk;
              state = (case assembly app of
                  None \<Rightarrow> ChunkAssemblyState_new (k_total_chunks chunk) now
                | Some state \<Rightarrow> state);
              assembly = assembly(app \<mapsto> state) in
          if s_total_chunks state \<noteq> k_total_chunks chunk
          then (Err (NewError (''Chunk total_chunks mismatch for '' @ [CHR 0x27] @ app @ [CHR 0x27])), assembly)
          else (Ok (), assembly(app \<mapsto> state\<lparr>s_chunks :=
            vacant_insert (k_chunk_idx chunk) (k_data chunk) (s_chunks state)\<rparr>))))"

definition try_assemble_chunks :: "string \<Rightarrow> assembly \<Rightarrow> 8 word list option \<times> assembly" where
  "try_assemble_chunks app assembly =
    (case assembly app of
       Some state \<Rightarrow>
         if is_complete state then (Some (assemble state), assembly(app := None))
         else (None, assembly)
     | None \<Rightarrow> (None, assembly))"

text \<open>One turn of the expiry task.\<close>

definition chunk_ttl :: duration where
  "chunk_ttl = 300 * Second"

definition expire_chunks :: "gotime \<Rightarrow> assembly \<Rightarrow> assembly" where
  "expire_chunks now assembly = (\<lambda>app. case assembly app of
     Some state \<Rightarrow> if is_expired now chunk_ttl state then None else Some state
   | None \<Rightarrow> None)"

text \<open>What other tasks of the proplet do to the map: a message arrives, or the expiry task runs.\<close>

datatype 'm event = Arrives gotime 'm | Expires gotime

fun happen :: "('m \<Rightarrow> Chunk result) \<Rightarrow> 'm event \<Rightarrow> assembly \<Rightarrow> assembly" where
  "happen decode (Arrives now msg) assembly = snd (handle_chunk decode now msg assembly)"
| "happen decode (Expires now) assembly = expire_chunks now assembly"

text \<open>
  The polling loop. \<open>elapsed n\<close> is the time since its start at the \<open>n\<close>-th check and \<open>during n\<close>
  what happens in the sleep after it. The first argument bounds the number of turns.
\<close>

definition binary_timeout :: duration where
  "binary_timeout = 60 * Second"

fun wait_for_binary :: "nat \<Rightarrow> ('m \<Rightarrow> Chunk result) \<Rightarrow> (nat \<Rightarrow> duration) \<Rightarrow> (nat \<Rightarrow> 'm event list) \<Rightarrow>
    string \<Rightarrow> nat \<Rightarrow> assembly \<Rightarrow> 8 word list result option \<times> assembly" where
  "wait_for_binary 0 decode elapsed during app n assembly = (None, assembly)"
| "wait_for_binary (Suc fuel) decode elapsed during app n assembly =
    (if elapsed n > binary_timeout
     then (Some (Err (NewError ''Timeout waiting for binary chunks'')), assembly)
     else case try_assemble_chunks app assembly of
       (Some binary, assembly) \<Rightarrow> (Some (Ok binary), assembly)
     | (None, assembly) \<Rightarrow>
         wait_for_binary fuel decode elapsed during app (Suc n)
           (fold (happen decode) (during n) assembly))"

section \<open>Collecting chunks\<close>

lemma vacant_insert_keys [simp]: "fst ` set (vacant_insert k v xs) = insert k (fst ` set xs)"
  by (induction k v xs rule: vacant_insert.induct) auto

lemma vacant_insert_sorted:
  "sorted_wrt (<) (map fst xs) \<Longrightarrow> sorted_wrt (<) (map fst (vacant_insert k v xs))"
proof (induction k v xs rule: vacant_insert.induct)
  case (2 k v k' v' xs)
  thus ?case using vacant_insert_keys [of k v xs] by (auto simp flip: set_map)
qed simp

lemma vacant_insert_set: "set (vacant_insert k v xs) \<subseteq> insert (k, v) (set xs)"
  by (induction k v xs rule: vacant_insert.induct) auto

text \<open>
  The assembly of \<open>app\<close> after the chunks with the indices in \<open>I\<close> have arrived, where \<open>d i\<close> is the
  data of chunk \<open>i\<close> of \<open>n\<close>: no entry before the first, then the chunks in order.
\<close>

definition collected :: "string \<Rightarrow> (nat \<Rightarrow> 8 word list) \<Rightarrow> nat \<Rightarrow> gotime \<Rightarrow> nat set \<Rightarrow> assembly \<Rightarrow> bool" where
  "collected app d n since I assembly \<longleftrightarrow>
    (case assembly app of
       None \<Rightarrow> I = {}
     | Some s \<Rightarrow> s_total_chunks s = n \<and> since \<le> s_created_at s \<and> I \<noteq> {} \<and>
         sorted_wrt (<) (map fst (s_chunks s)) \<and> fst ` set (s_chunks s) = I \<and>
         (\<forall>(i, v) \<in> set (s_chunks s). v = d i))"

text \<open>The index a message adds: that of a chunk of \<open>app\<close>.\<close>

fun indices :: "('m \<Rightarrow> Chunk result) \<Rightarrow> string \<Rightarrow> 'm event \<Rightarrow> nat set" where
  "indices decode app (Arrives t m) =
    (case decode m of Inr c \<Rightarrow> if k_app_name c = app then {k_chunk_idx c} else {} | Inl _ \<Rightarrow> {})"
| "indices decode app (Expires t) = {}"

text \<open>An event within the lifetime of an assembly that brings a chunk of the binary or of another.\<close>

fun genuine :: "('m \<Rightarrow> Chunk result) \<Rightarrow> string \<Rightarrow> (nat \<Rightarrow> 8 word list) \<Rightarrow> nat \<Rightarrow> gotime \<Rightarrow> 'm event \<Rightarrow> bool" where
  "genuine decode app d n since (Arrives t m) \<longleftrightarrow> since \<le> t \<and>
    (case decode m of Inr c \<Rightarrow> k_app_name c = app \<longrightarrow>
        k_total_chunks c = n \<and> k_chunk_idx c < n \<and> k_data c = d (k_chunk_idx c)
      | Inl _ \<Rightarrow> True)"
| "genuine decode app d n since (Expires t) \<longleftrightarrow> t \<le> since + chunk_ttl"

lemma happen_collected:
  assumes "collected app d n since I assembly" "genuine decode app d n since ev"
  shows "collected app d n since (I \<union> indices decode app ev) (happen decode ev assembly)"
proof (cases ev)
  case (Expires t)
  thus ?thesis using assms
    by (auto simp: collected_def expire_chunks_def is_expired_def split: option.splits)
next
  case (Arrives t m)
  show ?thesis
  proof (cases "decode m")
    case (Inl err)
    thus ?thesis using assms Arrives by (simp add: handle_chunk_def)
  next
    case (Inr c)
    show ?thesis
    proof (cases "k_app_name c = app")
      case False
      thus ?thesis using assms Arrives Inr
        by (simp add: handle_chunk_def Let_def collected_def)
    next
      case True
      have c: "k_total_chunks c = n" "k_data c = d (k_chunk_idx c)" "since \<le> t"
        using assms(2) Arrives Inr True by simp_all
      define st where "st = (case assembly app of
        None \<Rightarrow> ChunkAssemblyState_new (k_total_chunks c) t | Some state \<Rightarrow> state)"
      have st: "s_total_chunks st = n" "since \<le> s_created_at st" "sorted_wrt (<) (map fst (s_chunks st))"
        "fst ` set (s_chunks st) = I" "\<forall>(i, v) \<in> set (s_chunks st). v = d i"
        using assms(1) c(1,3)
        by (simp_all add: collected_def st_def ChunkAssemblyState_new_def split: option.splits)
      let ?xs = "vacant_insert (k_chunk_idx c) (k_data c) (s_chunks st)"
      have h: "happen decode ev assembly = assembly(app \<mapsto> st\<lparr>s_chunks := ?xs\<rparr>)"
        using st(1) by (simp add: Arrives handle_chunk_def Inr Let_def True c(1) flip: st_def)
      have d: "\<forall>(i, v) \<in> set ?xs. v = d i"
        using vacant_insert_set [of "k_chunk_idx c" "k_data c" "s_chunks st"] st(5) c(2) by blast
      show ?thesis
        unfolding h collected_def using st d vacant_insert_sorted [OF st(3)]
        by (simp add: Arrives Inr True)
    qed
  qed
qed

lemma fold_collected:
  assumes "collected app d n since I assembly" "\<And>ev. ev \<in> set evs \<Longrightarrow> genuine decode app d n since ev"
  shows "collected app d n since (I \<union> (\<Union>ev \<in> set evs. indices decode app ev)) (fold (happen decode) evs assembly)"
  using assms
proof (induction evs arbitrary: I assembly)
  case (Cons ev evs)
  show ?case
    using Cons.IH [OF happen_collected [OF Cons.prems(1) Cons.prems(2)]] Cons.prems(2)
    by (simp add: Un_assoc)
qed simp

lemma collected_length:
  assumes "sorted_wrt (<) (map fst (xs :: (nat \<times> 'v) list))"
  shows "length xs = card (fst ` set xs)"
proof -
  have "distinct (map fst xs)" using assms by (simp add: strict_sorted_iff)
  thus ?thesis using distinct_card [of "map fst xs"] by simp
qed

lemma try_assemble_complete:
  assumes "collected app d n since {..<n} assembly" "0 < n"
  shows "\<exists>assembly'. try_assemble_chunks app assembly = (Some (concat (map d [0..<n])), assembly')"
proof -
  obtain s where s: "assembly app = Some s" "s_total_chunks s = n" "sorted_wrt (<) (map fst (s_chunks s))"
    "fst ` set (s_chunks s) = {..<n}" "\<And>i v. (i, v) \<in> set (s_chunks s) \<Longrightarrow> v = d i"
    using assms unfolding collected_def by (cases "assembly app") (auto simp: lessThan_empty_iff)
  have keys: "map fst (s_chunks s) = [0..<n]"
    using s(3,4) by (intro sorted_distinct_set_unique) (auto simp: strict_sorted_iff atLeast0LessThan)
  have "map snd (s_chunks s) = map d (map fst (s_chunks s))"
    using s(5) by (auto simp: comp_def)
  hence "assemble s = concat (map d [0..<n])" by (simp add: assemble_def keys)
  moreover have "is_complete s" using collected_length [OF s(3)] by (simp add: is_complete_def s(2,4))
  ultimately show ?thesis by (simp add: try_assemble_chunks_def s(1))
qed

lemma try_assemble_incomplete:
  assumes "collected app d n since I assembly" "I \<subset> {..<n}"
  shows "try_assemble_chunks app assembly = (None, assembly)"
proof (cases "assembly app")
  case (Some s)
  have s: "s_total_chunks s = n" "sorted_wrt (<) (map fst (s_chunks s))" "fst ` set (s_chunks s) = I"
    using assms(1) by (simp_all add: collected_def Some)
  have "card I < n" using psubset_card_mono [OF finite_lessThan assms(2)] by simp
  hence "\<not> is_complete s" using collected_length [OF s(2)] by (simp add: is_complete_def s(1,3))
  thus ?thesis by (simp add: try_assemble_chunks_def Some)
qed (simp add: try_assemble_chunks_def)

lemma genuine_indices: "genuine decode app d n since ev \<Longrightarrow> i \<in> indices decode app ev \<Longrightarrow> i < n"
  by (cases ev) (auto split: sum.splits if_splits)

text \<open>Polling until every chunk has arrived.\<close>

lemma wait_collected:
  assumes "collected app d n since I assembly" "I \<subseteq> {..<n}" "0 < n"
    and genuine: "\<And>j ev. j < N \<Longrightarrow> ev \<in> set (during j) \<Longrightarrow> genuine decode app d n since ev"
    and all: "{..<n} \<subseteq> I \<union> (\<Union>j \<in> {m..<N}. \<Union>ev \<in> set (during j). indices decode app ev)"
    and time: "\<And>j. j \<le> N \<Longrightarrow> elapsed j \<le> binary_timeout"
    and "m \<le> N" "N - m < fuel"
  shows "fst (wait_for_binary fuel decode elapsed during app m assembly) = Some (Ok (concat (map d [0..<n])))"
  using assms(1,2) all assms(7,8)
proof (induction fuel arbitrary: m I assembly)
  case (Suc fuel)
  have t: "\<not> elapsed m > binary_timeout" using time [OF Suc.prems(4)] by simp
  show ?case
  proof (cases "I = {..<n}")
    case True
    then obtain a where "try_assemble_chunks app assembly = (Some (concat (map d [0..<n])), a)"
      using try_assemble_complete Suc.prems(1) assms(3) by blast
    thus ?thesis using t by simp
  next
    case False
    hence p: "I \<subset> {..<n}" using Suc.prems(2) by blast
    hence m: "m < N" using Suc.prems(3,4) by (cases "m = N") auto
    let ?J = "\<Union>ev \<in> set (during m). indices decode app ev"
    let ?a = "fold (happen decode) (during m) assembly"
    have col: "collected app d n since (I \<union> ?J) ?a"
      using Suc.prems(1) genuine [OF m] by (rule fold_collected)
    have J: "?J \<subseteq> {..<n}"
      using genuine_indices [OF genuine [OF m]] by blast
    have rest: "{..<n} \<subseteq> (I \<union> ?J) \<union> (\<Union>j \<in> {Suc m..<N}. \<Union>ev \<in> set (during j). indices decode app ev)"
    proof -
      have "{m..<N} = insert m {Suc m..<N}" using m by auto
      thus ?thesis using Suc.prems(3) by (simp add: Un_assoc)
    qed
    have "I \<union> ?J \<subseteq> {..<n}" using J Suc.prems(2) by blast
    from Suc.IH [OF col this rest] m Suc.prems(5)
    have "fst (wait_for_binary fuel decode elapsed during app (Suc m) ?a) = Some (Ok (concat (map d [0..<n])))"
      by linarith
    thus ?thesis using t by (simp add: try_assemble_incomplete [OF Suc.prems(1) p])
  qed
qed simp

text \<open>With a sleep of five seconds between checks the loop ends within fourteen turns.\<close>

lemma wait_for_binary_ends:
  assumes "\<And>j. elapsed j \<ge> int j * 5 * Second" "13 < fuel + n"
  shows "fst (wait_for_binary fuel decode elapsed during app n assembly) \<noteq> None \<or> fuel = 0"
  using assms(2)
proof (induction fuel arbitrary: n assembly)
  case (Suc fuel)
  show ?case
  proof (cases fuel)
    case 0
    hence "elapsed n \<ge> 65 * Second" using assms(1) [of n] Suc.prems by (simp add: Second_def)
    hence "elapsed n > binary_timeout" by (simp add: binary_timeout_def Second_def)
    thus ?thesis by simp
  next
    case (Suc f)
    thus ?thesis using Suc.IH [of "Suc n"] Suc.prems by (simp split: prod.split option.split)
  qed
qed simp

section \<open>From the registry to the proplet\<close>

text \<open>A chunk of the proxy as the proplet decodes it.\<close>

definition chunk_of :: "ChunkPayload \<Rightarrow> Chunk" where
  "chunk_of c = \<lparr>k_app_name = c_AppName c, k_chunk_idx = nat (c_ChunkIdx c),
    k_total_chunks = nat (c_TotalChunks c), k_data = c_Data c\<rparr>"

lemma largest_loop_max:
  "largest_loop sz best m layers = Some l \<Longrightarrow> best = None \<or> best = Some b \<and> sz b = m \<Longrightarrow>
    (best = Some l \<or> l \<in> set layers) \<and> m \<le> sz l \<and> (\<forall>l' \<in> set layers. sz l' \<le> sz l)"
proof (induction layers arbitrary: best m b)
  case (Cons layer layers)
  show ?case
  proof (cases "sz layer > m")
    case True
    thus ?thesis using Cons.IH [of "Some layer" "sz layer" layer] Cons.prems by auto
  next
    case False
    thus ?thesis using Cons.IH [OF _ Cons.prems(2)] Cons.prems(1) by auto
  qed
qed auto

lemma findLargestLayer_max:
  assumes "findLargestLayer sz layers = Ok l"
  shows "l \<in> set layers" "l' \<in> set layers \<Longrightarrow> sz l' \<le> sz l"
  using assms largest_loop_max [of sz None 0 layers l]
  by (auto simp: findLargestLayer_def split: option.splits)

lemma FetchFromReg_ok:
  assumes "FetchFromReg reg app k = Ok cs"
  shows "\<exists>layers layer data. fetchManifest reg app = Ok layers \<and> layer \<in> set layers \<and>
    (\<forall>l \<in> set layers. r_Size reg l \<le> r_Size reg layer) \<and>
    r_Fetch reg app layer = Ok (Ok data) \<and> createChunks data app k = Ok cs"
  using assms unfolding FetchFromReg_def
  by (auto split: option.splits sum.splits intro: findLargestLayer_max)

lemma chunk_of_at: "chunk_of (chunk_at data app k i) = \<lparr>k_app_name = app, k_chunk_idx = i,
    k_total_chunks = chunk_count data k, k_data = take k (drop (i * k) data)\<rparr>"
  by (simp add: chunk_of_def chunk_at_def)

lemma delivered_binary:
  assumes k: "0 < k" and n: "0 < chunk_count data k"
    and cs: "cs = map (chunk_at data app k) [0..<chunk_count data k]"
    and wire: "\<And>c. c \<in> set cs \<Longrightarrow> decode (marshal c) = Ok (chunk_of c)"
    and delivered: "\<And>c. c \<in> set cs \<Longrightarrow> \<exists>j < N. \<exists>t. Arrives t (marshal c) \<in> set (during j)"
    and only: "\<And>j t m c. j < N \<Longrightarrow> Arrives t m \<in> set (during j) \<Longrightarrow> decode m = Ok c \<Longrightarrow>
      k_app_name c = app \<Longrightarrow> m \<in> marshal ` set cs"
    and arrival: "\<And>j t m. j < N \<Longrightarrow> Arrives t m \<in> set (during j) \<Longrightarrow> since \<le> t"
    and expiry: "\<And>j t. j < N \<Longrightarrow> Expires t \<in> set (during j) \<Longrightarrow> t \<le> since + chunk_ttl"
    and time: "\<And>j. j \<le> N \<Longrightarrow> elapsed j \<le> binary_timeout"
    and fresh: "assembly app = None"
  shows "fst (wait_for_binary (Suc N) decode elapsed during app 0 assembly) = Some (Ok data)"
proof -
  let ?n = "chunk_count data k" and ?d = "\<lambda>i. take k (drop (i * k) data)"
  have "fst (wait_for_binary (Suc N) decode elapsed during app 0 assembly) = Some (Ok (concat (map ?d [0..<?n])))"
  proof (rule wait_collected [where I = "{}" and since = since])
    show "collected app ?d ?n since {} assembly" by (simp add: collected_def fresh)
    fix j ev assume j: "j < N" and ev: "ev \<in> set (during j)"
    show "genuine decode app ?d ?n since ev"
    proof (cases ev)
      case (Arrives t m)
      have "k_total_chunks c = ?n \<and> k_chunk_idx c < ?n \<and> k_data c = ?d (k_chunk_idx c)"
        if dec: "decode m = Ok c" "k_app_name c = app" for c
      proof -
        obtain c' where c': "c' \<in> set cs" "m = marshal c'" using only j ev Arrives dec by blast
        then obtain i where "i < ?n" "c' = chunk_at data app k i" by (auto simp: cs)
        thus ?thesis using wire [OF c'(1)] dec(1) c'(2) by (auto simp: chunk_of_at)
      qed
      thus ?thesis using arrival [OF j] ev Arrives by (auto split: sum.splits)
    qed (use expiry [OF j] ev in simp)
  next
    show "{..<?n} \<subseteq> {} \<union> (\<Union>j \<in> {0..<N}. \<Union>ev \<in> set (during j). indices decode app ev)"
    proof
      fix i assume "i \<in> {..<?n}"
      hence i: "chunk_at data app k i \<in> set cs" by (simp add: cs)
      then obtain j t where j: "j < N" "Arrives t (marshal (chunk_at data app k i)) \<in> set (during j)"
        using delivered by blast
      have "i \<in> indices decode app (Arrives t (marshal (chunk_at data app k i)))"
        by (simp add: wire [OF i] chunk_of_at)
      thus "i \<in> {} \<union> (\<Union>j \<in> {0..<N}. \<Union>ev \<in> set (during j). indices decode app ev)" using j by force
    qed
  qed (use n time in auto)
  thus ?thesis using k by (simp add: concat_chunks)
qed

text \<open>
  The chunks of an image go to every proplet, and one that has no use for them keeps them until
  they expire. A proplet that starts a task with the image in that time takes them at its first
  check, whatever the proxy fetches and sends for its own request: if the image has changed in
  between, the task runs the old binary.
\<close>

lemma overheard_binary_is_used:
  assumes "0 < k" "0 < chunk_count old k"
    and "\<And>ev. ev \<in> set evs \<Longrightarrow> genuine decode app (\<lambda>i. take k (drop (i * k) old)) (chunk_count old k) since ev"
    and "(\<Union>ev \<in> set evs. indices decode app ev) = {..<chunk_count old k}"
    and "elapsed 0 = 0"
  shows "fst (wait_for_binary 1 decode elapsed during app 0 (fold (happen decode) evs (\<lambda>_. None))) = Some (Ok old)"
proof -
  have "collected app (\<lambda>i. take k (drop (i * k) old)) (chunk_count old k) since {} (\<lambda>_. None)"
    by (simp add: collected_def)
  from fold_collected [OF this, of evs decode] assms(3)
  have "collected app (\<lambda>i. take k (drop (i * k) old)) (chunk_count old k) since {..<chunk_count old k}
    (fold (happen decode) evs (\<lambda>_. None))" by (simp add: assms(4))
  from try_assemble_complete [OF this assms(2)] show ?thesis
    by (auto simp: assms(5) binary_timeout_def Second_def concat_chunks [OF assms(1)])
qed

text \<open>
  C2. A binary reaches the proplet as the registry has it. The proxy fetches an image and cuts it
  into chunks; the chunks travel as messages that the proplet decodes (\<open>wire\<close>). If each of them
  arrives at least once before the time-out, in any order and repeated at will, between messages
  for other images and turns of the expiry task, then the polling task returns, within the
  number of turns given, exactly the content of the largest layer of the image.
\<close>

theorem binary_roundtrip:
  assumes "FetchFromReg reg app (int k) = Ok cs" "cs \<noteq> []" "0 < k"
    and "\<And>layer data. r_Fetch reg app layer = Ok (Ok data) \<Longrightarrow> int (length data) + int k \<le> 2 ^ 63"
    and wire: "\<And>c. c \<in> set cs \<Longrightarrow> decode (marshal c) = Ok (chunk_of c)"
    and "\<And>c. c \<in> set cs \<Longrightarrow> \<exists>j < N. \<exists>t. Arrives t (marshal c) \<in> set (during j)"
    and "\<And>j t m c. j < N \<Longrightarrow> Arrives t m \<in> set (during j) \<Longrightarrow> decode m = Ok c \<Longrightarrow>
      k_app_name c = app \<Longrightarrow> m \<in> marshal ` set cs"
    and "\<And>j t m. j < N \<Longrightarrow> Arrives t m \<in> set (during j) \<Longrightarrow> since \<le> t"
    and "\<And>j t. j < N \<Longrightarrow> Expires t \<in> set (during j) \<Longrightarrow> t \<le> since + chunk_ttl"
    and "\<And>j. j \<le> N \<Longrightarrow> elapsed j \<le> binary_timeout"
    and "assembly app = None"
  shows "\<exists>layers layer data. fetchManifest reg app = Ok layers \<and> layer \<in> set layers \<and>
    (\<forall>l \<in> set layers. r_Size reg l \<le> r_Size reg layer) \<and> r_Fetch reg app layer = Ok (Ok data) \<and>
    fst (wait_for_binary (Suc N) decode elapsed during app 0 assembly) = Some (Ok data)"
proof -
  obtain layers layer data where f: "fetchManifest reg app = Ok layers" "layer \<in> set layers"
      "\<forall>l \<in> set layers. r_Size reg l \<le> r_Size reg layer" "r_Fetch reg app layer = Ok (Ok data)"
      "createChunks data app (int k) = Ok cs"
    using FetchFromReg_ok [OF assms(1)] by blast
  have cs: "cs = map (chunk_at data app k) [0..<chunk_count data k]"
    using createChunks_eq [OF assms(3) assms(4) [OF f(4)], of app] f(5) by simp
  have "0 < chunk_count data k" using assms(2) by (simp add: cs)
  hence "fst (wait_for_binary (Suc N) decode elapsed during app 0 assembly) = Some (Ok data)"
    by (rule delivered_binary [OF assms(3) _ cs, where marshal = marshal and since = since]) (fact assms)+
  thus ?thesis using f(1-4) by blast
qed

definition demo_chunk :: "nat \<Rightarrow> ChunkPayload" where
  "demo_chunk i = chunk_at [1, 2, 3] ''img'' 2 i"

definition demo_events :: "nat \<Rightarrow> ChunkPayload event list" where
  "demo_events j = [Arrives 3 (demo_chunk 1), Expires 4, Arrives 5 (demo_chunk 0), Arrives 6 (demo_chunk 1)]"

theorem binary_roundtrip_witness:
  "fst (wait_for_binary 2 (\<lambda>c. Ok (chunk_of c)) (\<lambda>j. int j * 5 * Second) demo_events ''img'' 0 (\<lambda>_. None)) =
    Some (Ok [1, 2, 3])"
proof -
  have f: "FetchFromReg demo_registry ''img'' (int 2) = Ok (map demo_chunk [0, 1])"
    using demo_fetch by (simp add: demo_chunk_def)
  have "\<exists>layers layer data. fetchManifest demo_registry ''img'' = Ok layers \<and> layer \<in> set layers \<and>
    (\<forall>l \<in> set layers. r_Size demo_registry l \<le> r_Size demo_registry layer) \<and>
    r_Fetch demo_registry ''img'' layer = Ok (Ok data) \<and>
    fst (wait_for_binary (Suc 1) (\<lambda>c. Ok (chunk_of c)) (\<lambda>j. int j * 5 * Second) demo_events ''img'' 0 (\<lambda>_. None)) =
      Some (Ok data)"
    by (rule binary_roundtrip [OF f, where marshal = id and N = 1 and since = 0])
      (auto simp: demo_events_def demo_registry_def binary_timeout_def Second_def chunk_ttl_def)
  then obtain layer data where "r_Fetch demo_registry ''img'' layer = Ok (Ok data)"
    "fst (wait_for_binary 2 (\<lambda>c. Ok (chunk_of c)) (\<lambda>j. int j * 5 * Second) demo_events ''img'' 0 (\<lambda>_. None)) =
      Some (Ok data)"
    unfolding Suc_1 by blast
  thus ?thesis by (simp only: demo_registry_def registry.simps sum.inject)
qed

end
