(* ===== verification/Spec2Isabelle.thy ===== *)
theory Spec2Isabelle
  imports Prelude Task Proplet GoSort Scheduler Dag DagSort Storage Metrics MemoryRepos RepoLaws Plugin Cron World Frame Queries JobList TaskOps TaskRun StartLaws StartEnds JobRun Handlers Lifecycle CronRun Invoke Middleware Rounds Sdf Api System Proxy Assembly
begin

text \<open>
  A verification development of Propeller, an orchestrator that runs WebAssembly tasks on edge
  nodes, called proplets.

  \<^bold>\<open>The program and its parts.\<close> A \<^emph>\<open>manager\<close> (\<open>src/manager\<close>, in Go) keeps tasks, jobs, workflows and
  proplets in repositories, accepts requests over HTTP, and exchanges messages with the proplets
  over a broker: it sends start, stop and invoke messages, and receives discovery, heartbeat,
  result and metrics messages. A task is placed on a proplet by a scheduler; tasks with
  dependencies are started by a workflow coordinator, tasks with a schedule by a cron scheduler;
  plugins may deny, enrich and constrain requests. A \<^emph>\<open>proxy\<close> (\<open>src/proxy\<close>) fetches images from a
  registry and sends them in chunks to the \<^emph>\<open>proplets\<close> (\<open>src/proplet\<close>, in Rust), which assemble them.

  \<^bold>\<open>Conventions.\<close> A Go string is a list of bytes, \<open>uint64\<close> is \<open>64 word\<close>, a \<open>time.Time\<close> the number of
  nanoseconds since the zero time, a map an association list, a nil slice or map \<open>None\<close> where the code
  tells it from an empty one. A fallible operation returns an error or a value; a runtime panic
  is the error \<open>GoPanic\<close>. The state of the manager is the record \<open>world\<close> of the theory \<open>World\<close>
  (the struct \<open>service\<close> with its repositories, the messages sent and the plugin notifications),
  and an operation is a function that takes the surroundings \<open>env\<close> and a world and returns its
  result and the new world. \<open>env\<close> has everything the code does not decide: clock, fresh
  identifiers, the answers of plugins, map iteration order, and for every call of a repository
  or of the broker whether it fails. Operations that call each other without a bound
  (\<open>StartTask\<close> and the coordinator) take fuel and return \<open>None\<close> when it runs out.

  \<^bold>\<open>Theories.\<close>
  \<^item> \<open>Prelude\<close>, \<open>GoSort\<close>: errors and their wrapping, dynamic values, slices, sorting.
  \<^item> \<open>Task\<close>, \<open>Proplet\<close>, \<open>Metrics\<close>: the records of \<open>pkg/task\<close>, \<open>pkg/job\<close>, \<open>pkg/proplet\<close>, the accessors of
    \<open>pkg/maps\<close> and the parsing of metrics.
  \<^item> \<open>Scheduler\<close>: \<open>pkg/scheduler\<close>; round robin is fair, due tasks are sorted by priority.
  \<^item> \<open>Dag\<close>, \<open>DagSort\<close>: \<open>pkg/dag\<close>; the depth-first validation accepts exactly the acyclic graphs,
    the sort returns a permutation with dependencies first, a valid unfinished graph has a ready
    task.
  \<^item> \<open>Storage\<close>, \<open>MemoryRepos\<close>, \<open>RepoLaws\<close>: \<open>pkg/storage/memory.go\<close> and \<open>memory_adapter.go\<close>; the store
    refines a partial function, the metadata index agrees with the stored tasks, a listing
    through the index equals a scan. The contract of a typed repository is a locale, interpreted
    for the repositories of tasks, proplets and jobs.
  \<^item> \<open>Plugin\<close>, \<open>Cron\<close>: \<open>pkg/plugin\<close> and \<open>pkg/cron\<close>; a plugin is a record of functions, the parser of
    the third-party cron package a parameter.
  \<^item> \<open>World\<close>, \<open>Frame\<close>: the state of the service, the calls of its repositories, and the calculus by
    which every operation is shown to keep the invariant and to change only its parts.
  \<^item> \<open>Queries\<close>, \<open>JobList\<close>, \<open>TaskOps\<close>: the read operations with their paging loops, the listing of
    jobs, and the creation and update of tasks, workflows and jobs (\<open>manager/service.go\<close>).
  \<^item> \<open>TaskRun\<close>, \<open>StartLaws\<close>, \<open>StartEnds\<close>, \<open>JobRun\<close>: starting and stopping tasks and jobs, and
    \<open>manager/workflow.go\<close>: what a start changes, when it may succeed, that it ends, and what a
    failure leaves behind.
  \<^item> \<open>Handlers\<close>, \<open>Lifecycle\<close>, \<open>CronRun\<close>, \<open>Invoke\<close>, \<open>Rounds\<close>: the message handlers, shutdown and recovery, the
    cron scheduler (\<open>manager/cron.go\<close>), invocations, and rounds of federated learning. The loops
    of shutdown and recovery are instances of one locale.
  \<^item> \<open>Middleware\<close>: \<open>manager/middleware/plugin.go\<close>; a denied request has no effect.
  \<^item> \<open>Sdf\<close>, \<open>Api\<close>: \<open>pkg/sdf\<close>, \<open>manager/api\<close> and \<open>pkg/api\<close>; invalid requests are refused, files are redacted.
  \<^item> \<open>System\<close>: all steps of the manager as one relation; its state stays well typed.
  \<^item> \<open>Proxy\<close>, \<open>Assembly\<close>: \<open>proxy\<close>, and the assembly of chunks in \<open>proplet/src/service.rs\<close>; chunks are
    sent in order, and a binary arrives as the registry has it.

  \<^bold>\<open>Fuel and bounds.\<close> The paging loops recurse over the remaining entries and need no fuel. The
  fuel of \<open>StartTask\<close> counts the nested calls of the service and the coordinator: two are enough
  unless a task was interrupted, and with an interrupted dependency no amount is, which is a
  defect of the code. The waiting loop of a proplet ends within fourteen turns, since each sleeps
  five seconds and the time-out is sixty. Theorems on listings assume less than \<open>2 ^ 64\<close> entries,
  and the theorem on binaries a size and chunk size whose sum does not exceed \<open>2 ^ 63\<close>.

  \<^bold>\<open>Concurrency.\<close> An operation of the manager runs without interference except where it waits: there
  the steps of other goroutines are an argument (\<open>others\<close>), with the hypothesis that they keep the
  invariant. Goroutines that an operation starts run in an order that is an argument. The proxy
  is modelled with all interleavings of its goroutines.

  \<^bold>\<open>Not modelled.\<close> The SQL and badger repositories and their adapters (text of a query language and
  calls of embedded databases; the contract is proved for the in-memory ones); the logging,
  tracing and metrics middleware (they pass calls on); the router and the encoding of responses
  to JSON; the broker client, the host of WebAssembly plugins and the execution of tasks on a
  proplet (third-party runtimes and the operating system); the forwarding of federated-learning
  requests to an external coordinator and the aggregation in floating point; the command line,
  the client libraries, the start-up code and the example programs.
\<close>

end
